(* ===== verification/Prelude.thy ===== *)
theory Prelude
  imports Complex_Main "HOL-Library.Word"
begin

text \<open>
  Vocabulary and generic lemmas shared by the whole development: the types the Go code is
  translated to, the collections of facts the component theories feed (\<open>go_eval\<close> for facts
  that evaluate the library layer, \<open>keeps\<close> for invariant preservation, \<open>observe\<close> for
  what an operation does to the abstract view of a component), and lemmas on lists, options
  and maps.

  Go values are translated as follows.  A Go \<open>string\<close> is a sequence of bytes and becomes a
  HOL \<^typ>\<open>string\<close>, whose characters are bytes; a \<open>[]byte\<close> is a list of 8-bit words; a
  \<open>uint64\<close> is a 64-bit word, so its arithmetic wraps; \<open>int\<close> and \<open>int64\<close> are
  \<^typ>\<open>int\<close> where the code cannot reach the limits, with \<open>wrap64\<close> written out where it
  can; a \<open>float64\<close> is a rational (every finite float is one, and the code only compares,
  adds and divides them).  A run-time panic is the value \<^const>\<open>None\<close>.
\<close>

named_theorems go_eval \<open>evaluation of the library layer on closed terms\<close>
named_theorems keeps \<open>operations that keep a component invariant\<close>
named_theorems observe \<open>effect of an operation on the abstract view of a component\<close>

type_synonym u64 = "64 word"
type_synonym byte = "8 word"
type_synonym bytes = "8 word list"

text \<open>Two's complement wrap-around of a 64-bit signed result.\<close>

definition wrap64 :: "int \<Rightarrow> int" where
  "wrap64 i = (i + 2 ^ 63) mod 2 ^ 64 - 2 ^ 63"

definition int64_range :: "int \<Rightarrow> bool" where
  "int64_range i \<longleftrightarrow> - (2 ^ 63) \<le> i \<and> i < 2 ^ 63"

lemma wrap64_id: "int64_range i \<Longrightarrow> wrap64 i = i"
  by (simp add: wrap64_def int64_range_def)

lemma wrap64_range: "int64_range (wrap64 i)"
  using pos_mod_bound [of "2 ^ 64 :: int" "i + 2 ^ 63"] pos_mod_sign [of "2 ^ 64 :: int" "i + 2 ^ 63"]
  by (simp add: wrap64_def int64_range_def)

text \<open>Go's integer division truncates towards zero.\<close>

definition go_div :: "int \<Rightarrow> int \<Rightarrow> int" where
  "go_div a b = sgn a * sgn b * (\<bar>a\<bar> div \<bar>b\<bar>)"

lemma go_div_nonneg: "0 \<le> a \<Longrightarrow> 0 < b \<Longrightarrow> go_div a b = a div b"
  by (cases "a = 0") (simp_all add: go_div_def)

subsection \<open>Lists\<close>

lemma take_snoc_full: "n \<le> length xs \<Longrightarrow> take n (xs @ ys) = take n xs"
  by simp

lemma nth_append_mod_rotate:
  "i < length xs \<Longrightarrow> h < length xs \<Longrightarrow>
   (drop h xs @ take h xs) ! i = xs ! ((h + i) mod length xs)"
  by (auto simp: nth_append mod_if add.commute)

lemma drop_upt_map:
  "drop k (map f [0..<n]) = map (\<lambda>i. f (k + i)) [0..<n - k]"
  by (rule nth_equalityI) auto

lemma map_filter_distinct: "distinct (map f xs) \<Longrightarrow> distinct (map f (filter P xs))"
  by (rule distinct_map_filter)

lemma concat_map_singleton: "concat (map (\<lambda>x. [f x]) xs) = map f xs"
  by (induction xs) auto

lemma filter_eq_self: "(\<And>x. x \<in> set xs \<Longrightarrow> P x) \<Longrightarrow> filter P xs = xs"
  by simp

lemma takeWhile_neq_append:
  "c \<notin> set xs \<Longrightarrow> takeWhile (\<lambda>x. x \<noteq> c) (xs @ c # ys) = xs"
  by (induction xs) auto

lemma append_sep_inject:
  assumes "c \<notin> set xs" and "c \<notin> set xs'" and "xs @ c # ys = xs' @ c # ys'"
  shows "xs = xs' \<and> ys = ys'"
proof -
  have "takeWhile (\<lambda>x. x \<noteq> c) (xs @ c # ys) = takeWhile (\<lambda>x. x \<noteq> c) (xs' @ c # ys')"
    using assms(3) by simp
  then have "xs = xs'"
    using assms(1,2) by (simp add: takeWhile_neq_append)
  then show ?thesis
    using assms(3) by simp
qed

subsection \<open>Failing maps over lists\<close>

fun opt_map :: "('a \<Rightarrow> 'b option) \<Rightarrow> 'a list \<Rightarrow> 'b list option" where
  "opt_map f [] = Some []"
| "opt_map f (x # xs) =
     (case f x of None \<Rightarrow> None
      | Some y \<Rightarrow> (case opt_map f xs of None \<Rightarrow> None | Some ys \<Rightarrow> Some (y # ys)))"

lemma opt_map_all: "(\<And>x. x \<in> set xs \<Longrightarrow> f (g x) = Some x) \<Longrightarrow> opt_map f (map g xs) = Some xs"
  by (induction xs) auto

lemma opt_map_length: "opt_map f xs = Some ys \<Longrightarrow> length ys = length xs"
  by (induction xs arbitrary: ys) (auto split: option.splits)

subsection \<open>The last entries of a list\<close>

definition lastn :: "nat \<Rightarrow> 'a list \<Rightarrow> 'a list" where
  "lastn n xs = drop (length xs - n) xs"

lemma lastn_all [simp]: "length xs \<le> n \<Longrightarrow> lastn n xs = xs"
  by (simp add: lastn_def)

lemma length_lastn [simp]: "length (lastn n xs) = min n (length xs)"
  by (simp add: lastn_def)

lemma lastn_snoc: "0 < n \<Longrightarrow> lastn n (xs @ [x]) = (if length xs < n then xs @ [x] else tl (lastn n xs) @ [x])"
  by (auto simp: lastn_def Suc_diff_le tl_drop simp flip: drop_Suc)

lemma lastn_lastn_append: "lastn n (lastn n xs @ ys) = lastn n (xs @ ys)"
  by (cases "length xs \<le> n") (auto simp: lastn_def add.commute)

lemma set_lastn: "set (lastn n xs) \<subseteq> set xs"
  by (simp add: lastn_def set_drop_subset)

end
