(* ===== verification/GoStd.thy ===== *)
theory GoStd
  imports Prelude
begin

text \<open>
  The part of Go's standard library the program calls and whose results its logic depends
  on: \<open>strconv.Itoa\<close>, \<open>strings.TrimSpace/ToLower/TrimPrefix/IndexByte\<close>,
  \<open>net.SplitHostPort/JoinHostPort/ParseIP\<close>, \<open>IP.IsLoopback\<close> and
  \<open>subtle.ConstantTimeCompare\<close>.  The definitions follow the library's own algorithms,
  error by error; an error is \<^const>\<open>None\<close> (the program never inspects which one).
\<close>

unbundle bit_operations_syntax

subsection \<open>Characters and decimal numbers\<close>

abbreviation chr_code :: "char \<Rightarrow> nat" where
  "chr_code c \<equiv> of_char c"

definition is_digit :: "char \<Rightarrow> bool" where
  "is_digit c \<longleftrightarrow> 48 \<le> chr_code c \<and> chr_code c \<le> 57"

definition is_lower :: "char \<Rightarrow> bool" where
  "is_lower c \<longleftrightarrow> 97 \<le> chr_code c \<and> chr_code c \<le> 122"

definition is_upper :: "char \<Rightarrow> bool" where
  "is_upper c \<longleftrightarrow> 65 \<le> chr_code c \<and> chr_code c \<le> 90"

definition is_alnum :: "char \<Rightarrow> bool" where
  "is_alnum c \<longleftrightarrow> is_digit c \<or> is_lower c \<or> is_upper c"

definition digit_char :: "nat \<Rightarrow> char" where
  "digit_char d = char_of (48 + d)"

lemma code_digit_char: "d < 10 \<Longrightarrow> chr_code (digit_char d) = 48 + d"
  by (simp add: digit_char_def)

lemma is_digit_digit_char: "d < 10 \<Longrightarrow> is_digit (digit_char d)"
  by (simp add: is_digit_def code_digit_char)

lemma digit_char_inject: "d < 10 \<Longrightarrow> e < 10 \<Longrightarrow> digit_char d = digit_char e \<longleftrightarrow> d = e"
  using code_digit_char by (metis add_left_cancel)

fun dec_digits :: "nat \<Rightarrow> string" where
  "dec_digits n = (if n < 10 then [digit_char n]
                   else dec_digits (n div 10) @ [digit_char (n mod 10)])"

declare dec_digits.simps [simp del]

definition strconv_itoa :: "int \<Rightarrow> string" where
  "strconv_itoa i = (if i < 0 then CHR ''-'' # dec_digits (nat (- i)) else dec_digits (nat i))"

lemma dec_digits_nonempty [simp]: "dec_digits n \<noteq> []"
  by (subst dec_digits.simps) simp

lemma dec_digits_digits: "c \<in> set (dec_digits n) \<Longrightarrow> is_digit c"
proof (induction n rule: dec_digits.induct)
  case (1 n)
  show ?case
  proof (cases "n < 10")
    case True
    with "1.prems" show ?thesis
      by (simp add: dec_digits.simps [of n] is_digit_digit_char)
  next
    case False
    with "1" show ?thesis
      by (auto simp: dec_digits.simps [of n] is_digit_digit_char)
  qed
qed

lemma dec_digits_length: "n < 10 ^ k \<Longrightarrow> 0 < k \<Longrightarrow> length (dec_digits n) \<le> k"
proof (induction k arbitrary: n)
  case (Suc k)
  show ?case
  proof (cases "n < 10")
    case False
    then have "n div 10 < 10 ^ k" and "0 < k"
      using Suc.prems by (auto simp: less_mult_imp_div_less intro: gr0I)
    then show ?thesis
      using Suc.IH False by (simp add: dec_digits.simps [of n])
  qed (simp add: dec_digits.simps [of n])
qed simp

lemma dec_digits_length_ge: "10 ^ k \<le> n \<Longrightarrow> k < length (dec_digits n)"
proof (induction k arbitrary: n)
  case (Suc k)
  then have "10 ^ k \<le> n div 10" and "\<not> n < 10"
    by (auto simp: less_eq_div_iff_mult_less_eq mult.commute power_Suc
        intro: order_trans [of 10 "10 * 10 ^ k"] simp del: power_Suc2)
       (metis le_trans linorder_not_le mult_le_mono2 nat_mult_1_right one_le_numeral one_le_power)
  then show ?case
    using Suc.IH by (simp add: dec_digits.simps [of n])
qed simp

subsection \<open>strings\<close>

fun index_byte :: "char \<Rightarrow> string \<Rightarrow> nat option" where
  "index_byte c [] = None"
| "index_byte c (x # xs) = (if x = c then Some 0 else map_option Suc (index_byte c xs))"

definition last_index_byte :: "char \<Rightarrow> string \<Rightarrow> nat option" where
  "last_index_byte c s = map_option (\<lambda>i. length s - 1 - i) (index_byte c (rev s))"

lemma index_byte_None [simp]: "index_byte c s = None \<longleftrightarrow> c \<notin> set s"
  by (induction s) auto

lemma index_byte_append: "c \<notin> set xs \<Longrightarrow> index_byte c (xs @ c # ys) = Some (length xs)"
  by (induction xs) auto

lemma index_byte_SomeD:
  "index_byte c s = Some i \<Longrightarrow> i < length s \<and> s ! i = c \<and> c \<notin> set (take i s)"
  by (induction s arbitrary: i) (auto split: if_splits)

lemma index_byte_split:
  assumes "index_byte c s = Some i"
  shows "s = take i s @ c # drop (Suc i) s"
  using index_byte_SomeD [OF assms] id_take_nth_drop [of i s] by simp

lemma last_index_byte_None [simp]: "last_index_byte c s = None \<longleftrightarrow> c \<notin> set s"
  by (simp add: last_index_byte_def)

lemma last_index_byte_append:
  "c \<notin> set ys \<Longrightarrow> last_index_byte c (xs @ c # ys) = Some (length xs)"
  by (simp add: last_index_byte_def index_byte_append)

text \<open>\<open>strings.TrimPrefix\<close>.\<close>

definition trim_prefix :: "string \<Rightarrow> string \<Rightarrow> string" where
  "trim_prefix p s = (if take (length p) s = p then drop (length p) s else s)"

text \<open>
  \<open>strings.TrimSpace\<close> strips the code points with the Unicode property White\_Space from
  both ends: six ASCII bytes and the UTF-8 encodings below.
\<close>

definition space_seqs :: "string list" where
  "space_seqs =
     [[CHR 0x09], [CHR 0x0A], [CHR 0x0B],
      [CHR 0x0C], [CHR 0x0D], [CHR 0x20],
      [CHR 0xC2, CHR 0x85], [CHR 0xC2, CHR 0xA0], [CHR 0xE1, CHR 0x9A, CHR 0x80],
      [CHR 0xE2, CHR 0x80, CHR 0x80], [CHR 0xE2, CHR 0x80, CHR 0x81], [CHR 0xE2, CHR 0x80, CHR 0x82],
      [CHR 0xE2, CHR 0x80, CHR 0x83], [CHR 0xE2, CHR 0x80, CHR 0x84], [CHR 0xE2, CHR 0x80, CHR 0x85],
      [CHR 0xE2, CHR 0x80, CHR 0x86], [CHR 0xE2, CHR 0x80, CHR 0x87], [CHR 0xE2, CHR 0x80, CHR 0x88],
      [CHR 0xE2, CHR 0x80, CHR 0x89], [CHR 0xE2, CHR 0x80, CHR 0x8A], [CHR 0xE2, CHR 0x80, CHR 0xA8],
      [CHR 0xE2, CHR 0x80, CHR 0xA9], [CHR 0xE2, CHR 0x80, CHR 0xAF], [CHR 0xE2, CHR 0x81, CHR 0x9F],
      [CHR 0xE3, CHR 0x80, CHR 0x80]]"

fun strip_any :: "string list \<Rightarrow> string \<Rightarrow> string option" where
  "strip_any [] s = None"
| "strip_any (p # ps) s =
     (if p \<noteq> [] \<and> take (length p) s = p then Some (drop (length p) s) else strip_any ps s)"

lemma strip_any_shorter: "strip_any ps s = Some s' \<Longrightarrow> length s' < length s"
proof (induction ps)
  case (Cons p ps)
  show ?case
  proof (cases "p \<noteq> [] \<and> take (length p) s = p")
    case True
    then have "s \<noteq> []" by auto
    with True Cons.prems show ?thesis
      by (auto simp: diff_less)
  next
    case False
    with Cons show ?thesis by auto
  qed
qed simp

function trim_left :: "string list \<Rightarrow> string \<Rightarrow> string" where
  "trim_left ps s = (case strip_any ps s of None \<Rightarrow> s | Some s' \<Rightarrow> trim_left ps s')"
  by pat_completeness auto
termination
  by (relation "measure (\<lambda>(ps, s). length s)") (auto dest: strip_any_shorter)

declare trim_left.simps [simp del]

definition trim_space :: "string \<Rightarrow> string" where
  "trim_space s = rev (trim_left (map rev space_seqs) (rev (trim_left space_seqs s)))"

lemma trim_left_id: "strip_any ps s = None \<Longrightarrow> trim_left ps s = s"
  by (subst trim_left.simps) simp

text \<open>
  \<open>strings.ToLower\<close>, exact on ASCII and on the two code points outside ASCII whose lower
  case is ASCII: the dotted capital I (U+0130) and the Kelvin sign (U+212A).  Other
  multi-byte sequences are left as they are; no comparison of the program with an ASCII
  name can see the difference.
\<close>

definition lower_char :: "char \<Rightarrow> char" where
  "lower_char c = (if is_upper c then char_of (chr_code c + 32) else c)"

text \<open>The table of \<^const>\<open>lower_char\<close> on letters, evaluated once.\<close>

lemma lower_table [simp, go_eval]:
  "lower_char CHR ''a'' = CHR ''a''" "lower_char CHR ''b'' = CHR ''b''" "lower_char CHR ''c'' = CHR ''c''"
  "lower_char CHR ''d'' = CHR ''d''" "lower_char CHR ''e'' = CHR ''e''" "lower_char CHR ''f'' = CHR ''f''"
  "lower_char CHR ''g'' = CHR ''g''" "lower_char CHR ''h'' = CHR ''h''" "lower_char CHR ''i'' = CHR ''i''"
  "lower_char CHR ''j'' = CHR ''j''" "lower_char CHR ''k'' = CHR ''k''" "lower_char CHR ''l'' = CHR ''l''"
  "lower_char CHR ''m'' = CHR ''m''" "lower_char CHR ''n'' = CHR ''n''" "lower_char CHR ''o'' = CHR ''o''"
  "lower_char CHR ''p'' = CHR ''p''" "lower_char CHR ''q'' = CHR ''q''" "lower_char CHR ''r'' = CHR ''r''"
  "lower_char CHR ''s'' = CHR ''s''" "lower_char CHR ''t'' = CHR ''t''" "lower_char CHR ''u'' = CHR ''u''"
  "lower_char CHR ''v'' = CHR ''v''" "lower_char CHR ''w'' = CHR ''w''" "lower_char CHR ''x'' = CHR ''x''"
  "lower_char CHR ''y'' = CHR ''y''" "lower_char CHR ''z'' = CHR ''z''" "lower_char CHR ''A'' = CHR ''a''"
  "lower_char CHR ''B'' = CHR ''b''" "lower_char CHR ''C'' = CHR ''c''" "lower_char CHR ''D'' = CHR ''d''"
  "lower_char CHR ''E'' = CHR ''e''" "lower_char CHR ''F'' = CHR ''f''" "lower_char CHR ''G'' = CHR ''g''"
  "lower_char CHR ''H'' = CHR ''h''" "lower_char CHR ''I'' = CHR ''i''" "lower_char CHR ''J'' = CHR ''j''"
  "lower_char CHR ''K'' = CHR ''k''" "lower_char CHR ''L'' = CHR ''l''" "lower_char CHR ''M'' = CHR ''m''"
  "lower_char CHR ''N'' = CHR ''n''" "lower_char CHR ''O'' = CHR ''o''" "lower_char CHR ''P'' = CHR ''p''"
  "lower_char CHR ''Q'' = CHR ''q''" "lower_char CHR ''R'' = CHR ''r''" "lower_char CHR ''S'' = CHR ''s''"
  "lower_char CHR ''T'' = CHR ''t''" "lower_char CHR ''U'' = CHR ''u''" "lower_char CHR ''V'' = CHR ''v''"
  "lower_char CHR ''W'' = CHR ''w''" "lower_char CHR ''X'' = CHR ''x''" "lower_char CHR ''Y'' = CHR ''y''"
  "lower_char CHR ''Z'' = CHR ''z''"
  by (simp_all add: lower_char_def is_upper_def char_of_eq_iff)

fun to_lower :: "string \<Rightarrow> string" where
  "to_lower [] = []"
| "to_lower (a # s) =
     (if a = CHR 0xC4 \<and> s \<noteq> [] \<and> hd s = CHR 0xB0 then CHR ''i'' # to_lower (tl s)
      else if a = CHR 0xE2 \<and> take 2 s = [CHR 0x84, CHR 0xAA] then CHR ''k'' # to_lower (drop 2 s)
      else lower_char a # to_lower s)"

subsection \<open>bufio.Scanner with ScanLines\<close>

text \<open>What a scanner returns of a stream that delivers \<open>s\<close> and then ends, when its buffer grows up to
  \<open>cap\<close> bytes.  A line whose newline is not among the first \<open>cap\<close> bytes does not fit: the scanner
  stops (\<open>ErrTooLong\<close>), as it does when that many bytes are left without one.\<close>

definition drop_cr :: "string \<Rightarrow> string" where
  "drop_cr s = (if s \<noteq> [] \<and> List.last s = CHR 0x0D then butlast s else s)"

function scan_lines :: "nat \<Rightarrow> string \<Rightarrow> string list" where
  "scan_lines cap s =
     (case index_byte CHR 0x0A s of
        Some i \<Rightarrow> if i < cap then drop_cr (take i s) # scan_lines cap (drop (Suc i) s) else []
      | None \<Rightarrow> if s = [] \<or> cap \<le> length s then [] else [drop_cr s])"
  by pat_completeness auto
termination
  by (relation "measure (\<lambda>(_, s). length s)") (auto dest: index_byte_SomeD)

declare scan_lines.simps [simp del]

text \<open>Lines written with a newline each are read back.\<close>

definition unlines :: "string list \<Rightarrow> string" where
  "unlines ls = concat (map (\<lambda>l. l @ [CHR 0x0A]) ls)"

lemma scan_unlines:
  "\<forall>l \<in> set ls. CHR 0x0A \<notin> set l \<and> length l < cap \<and> drop_cr l = l \<Longrightarrow> scan_lines cap (unlines ls) = ls"
proof (induction ls)
  case Nil
  show ?case by (simp add: unlines_def scan_lines.simps [of _ "[]"])
next
  case (Cons l ls)
  have "unlines (l # ls) = l @ CHR 0x0A # unlines ls"
    by (simp add: unlines_def)
  with Cons show ?case
    by (simp add: scan_lines.simps [of _ "l @ CHR 0x0A # unlines ls"] index_byte_append)
qed


subsection \<open>strings.EqualFold\<close>

text \<open>The loop over ASCII; at the first byte of a longer rune \<open>uni\<close> decides about the rest (Unicode's
  simple case folding).\<close>

fun equal_fold :: "(string \<Rightarrow> string \<Rightarrow> bool) \<Rightarrow> string \<Rightarrow> string \<Rightarrow> bool" where
  "equal_fold uni (a # s) (b # t) =
     (if 128 \<le> (of_char a :: nat) \<or> 128 \<le> (of_char b :: nat) then uni (a # s) (b # t)
      else lower_char a = lower_char b \<and> equal_fold uni s t)"
| "equal_fold uni s t \<longleftrightarrow> s = [] \<and> t = []"

definition is_ascii :: "string \<Rightarrow> bool" where
  "is_ascii s = list_all (\<lambda>c. (of_char c :: nat) < 128) s"

lemma equal_fold_refl: "is_ascii s \<Longrightarrow> equal_fold uni s s"
  by (induction s) (auto simp: is_ascii_def)

lemma equal_fold_ascii:
  "is_ascii s \<Longrightarrow> is_ascii t \<Longrightarrow> equal_fold uni s t \<longleftrightarrow> map lower_char s = map lower_char t"
  by (induction uni s t rule: equal_fold.induct) (auto simp: is_ascii_def)


end
