(* ===== verification/GoNet.thy ===== *)
theory GoNet
  imports GoStd
begin

text \<open>
  The parts of Go's \<open>net\<close> and \<open>crypto/subtle\<close> packages the program rests on:
  \<open>SplitHostPort\<close> and \<open>JoinHostPort\<close>, \<open>ParseIP\<close> (both address families, as the loops
  of \<open>net/netip\<close> run them), \<open>IP.IsLoopback\<close>, and the constant-time comparison.
\<close>

subsection \<open>SplitHostPort and JoinHostPort\<close>

definition split_host_port :: "string \<Rightarrow> (string \<times> string) option" where
  "split_host_port s =
     (case last_index_byte CHR '':'' s of None \<Rightarrow> None
      | Some i \<Rightarrow>
          if hd s = CHR ''['' then
            (case index_byte CHR '']'' s of None \<Rightarrow> None
             | Some e \<Rightarrow>
                 if e + 1 \<noteq> i then None
                 else if CHR ''['' \<in> set (drop 1 s) \<or> CHR '']'' \<in> set (drop (e + 1) s) then None
                 else Some (drop 1 (take e s), drop (i + 1) s))
          else if CHR '':'' \<in> set (take i s) \<or> CHR ''['' \<in> set s \<or> CHR '']'' \<in> set s then None
          else Some (take i s, drop (i + 1) s))"

definition join_host_port :: "string \<Rightarrow> string \<Rightarrow> string" where
  "join_host_port host port =
     (if CHR '':'' \<in> set host then ''['' @ host @ '']:'' @ port else host @ '':'' @ port)"

definition plain_host :: "string \<Rightarrow> bool" where
  "plain_host h \<longleftrightarrow> CHR ''['' \<notin> set h \<and> CHR '']'' \<notin> set h"

definition plain_port :: "string \<Rightarrow> bool" where
  "plain_port p \<longleftrightarrow> CHR '':'' \<notin> set p \<and> CHR ''['' \<notin> set p \<and> CHR '']'' \<notin> set p"

lemma split_join_host_port:
  assumes "plain_host h" and "plain_port p"
  shows "split_host_port (join_host_port h p) = Some (h, p)"
proof (cases "CHR '':'' \<in> set h")
  case True
  let ?s = "''['' @ h @ '']:'' @ p"
  have l: "last_index_byte CHR '':'' ?s = Some (length h + 2)"
    using last_index_byte_append [of "CHR '':''" p "''['' @ h @ '']''"] assms
    by (simp add: plain_port_def)
  have e: "index_byte CHR '']'' ?s = Some (length h + 1)"
    using index_byte_append [of "CHR '']''" "''['' @ h" "'':'' @ p"] assms
    by (simp add: plain_host_def)
  show ?thesis
    using True assms l e
    by (simp add: join_host_port_def split_host_port_def plain_host_def plain_port_def)
next
  case False
  let ?s = "h @ '':'' @ p"
  have l: "last_index_byte CHR '':'' ?s = Some (length h)"
    using last_index_byte_append [of "CHR '':''" p h] assms by (simp add: plain_port_def)
  have "hd ?s \<noteq> CHR ''[''"
    using assms by (cases h) (auto simp: plain_host_def)
  then show ?thesis
    using False assms l
    by (simp add: join_host_port_def split_host_port_def plain_host_def plain_port_def)
qed

lemma split_host_port_no_colon: "CHR '':'' \<notin> set s \<Longrightarrow> split_host_port s = None"
  using last_index_byte_None [of "CHR '':''" s]
  by (simp add: split_host_port_def del: last_index_byte_None)

lemma plain_port_itoa: "plain_port (strconv_itoa n)"
proof -
  have "c \<noteq> CHR '':'' \<and> c \<noteq> CHR ''['' \<and> c \<noteq> CHR '']''" if "is_digit c" for c
    using that by (auto simp: is_digit_def)
  then show ?thesis
    by (auto simp: plain_port_def strconv_itoa_def dest: dec_digits_digits)
qed

subsection \<open>ParseIP\<close>

definition digit_val :: "char \<Rightarrow> nat" where
  "digit_val c = chr_code c - 48"

text \<open>
  \<open>parseIPv4Fields\<close>: one pass over the characters with the current value, the number of
  digits of the current octet and the fields already closed; \<open>dot\<close> says that the
  previous character was a dot (or that there is none).
\<close>

fun ipv4_loop :: "string \<Rightarrow> bool \<Rightarrow> nat \<Rightarrow> nat \<Rightarrow> nat list \<Rightarrow> nat list option" where
  "ipv4_loop [] dot val digs fs = (if length fs < 3 then None else Some (fs @ [val]))"
| "ipv4_loop (c # cs) dot val digs fs =
     (if is_digit c then
        (if digs = 1 \<and> val = 0 then None
         else if val * 10 + digit_val c > 255 then None
         else ipv4_loop cs False (val * 10 + digit_val c) (digs + 1) fs)
      else if c = CHR ''.'' then
        (if dot \<or> cs = [] then None
         else if length fs = 3 then None
         else ipv4_loop cs True 0 0 (fs @ [val]))
      else None)"

definition parse_ipv4 :: "string \<Rightarrow> nat list option" where
  "parse_ipv4 s = ipv4_loop s True 0 0 []"

definition hex_val :: "char \<Rightarrow> nat option" where
  "hex_val c = (if is_digit c then Some (chr_code c - 48)
     else if 97 \<le> chr_code c \<and> chr_code c \<le> 102 then Some (chr_code c - 87)
     else if 65 \<le> chr_code c \<and> chr_code c \<le> 70 then Some (chr_code c - 55)
     else None)"

fun hex_run :: "string \<Rightarrow> nat \<Rightarrow> nat \<Rightarrow> (nat \<times> nat \<times> string) option" where
  "hex_run [] off acc = Some (off, acc, [])"
| "hex_run (c # cs) off acc =
     (case hex_val c of
        None \<Rightarrow> Some (off, acc, c # cs)
      | Some d \<Rightarrow> if off > 3 then None
                  else if acc * 16 + d > 65535 then None
                  else hex_run cs (off + 1) (acc * 16 + d))"

text \<open>
  The group loop of \<open>parseIPv6\<close>: at most eight rounds, each appending the two bytes of a
  group to \<open>ip\<close>; \<open>el\<close> is the position of the ellipsis.  The result carries the rest
  of the input, which has to be empty.
\<close>

fun ipv6_loop :: "nat \<Rightarrow> string \<Rightarrow> nat list \<Rightarrow> nat option \<Rightarrow> (nat list \<times> nat option \<times> string) option" where
  "ipv6_loop 0 s ip el = Some (ip, el, s)"
| "ipv6_loop (Suc n) s ip el =
     (case hex_run s 0 0 of None \<Rightarrow> None
      | Some (off, acc, rest) \<Rightarrow>
          if off = 0 then None
          else if rest \<noteq> [] \<and> hd rest = CHR ''.'' then
            (if el = None \<and> length ip \<noteq> 12 then None
             else if length ip + 4 > 16 then None
             else (case parse_ipv4 s of None \<Rightarrow> None | Some fs \<Rightarrow> Some (ip @ fs, el, [])))
          else let ip' = ip @ [acc div 256, acc mod 256] in
            (case rest of
               [] \<Rightarrow> Some (ip', el, [])
             | c # r1 \<Rightarrow>
                 if c \<noteq> CHR '':'' then None
                 else (case r1 of
                         [] \<Rightarrow> None
                       | d # r2 \<Rightarrow>
                           if d = CHR '':'' then
                             (if el \<noteq> None then None
                              else if r2 = [] then Some (ip', Some (length ip'), [])
                              else ipv6_loop n r2 ip' (Some (length ip')))
                           else ipv6_loop n r1 ip' el)))"

definition parse_ipv6 :: "string \<Rightarrow> nat list option" where
  "parse_ipv6 s =
     (if CHR ''%'' \<in> set s then None
      else
        let lead = (take 2 s = ''::''); s1 = (if lead then drop 2 s else s) in
        if lead \<and> s1 = [] then Some (replicate 16 0)
        else (case ipv6_loop 8 s1 [] (if lead then Some 0 else None) of None \<Rightarrow> None
              | Some (ip, el, rest) \<Rightarrow>
                  if rest \<noteq> [] then None
                  else if length ip < 16 then
                    (case el of None \<Rightarrow> None
                     | Some e \<Rightarrow> Some (take e ip @ replicate (16 - length ip) 0 @ drop e ip))
                  else if el \<noteq> None then None
                  else Some ip))"

text \<open>\<open>ParseAddr\<close> dispatches on the first of \<open>.\<close>, \<open>:\<close> and \<open>%\<close>; \<open>ParseIP\<close>
  refuses zones and gives the sixteen-byte form.\<close>

definition parse_ip :: "string \<Rightarrow> nat list option" where
  "parse_ip s =
     (case filter (\<lambda>c. c \<in> {CHR ''.'', CHR '':'', CHR ''%''}) s of
        [] \<Rightarrow> None
      | c # _ \<Rightarrow>
          if c = CHR ''.'' then
            map_option (\<lambda>fs. replicate 10 0 @ [255, 255] @ fs) (parse_ipv4 s)
          else if c = CHR '':'' then parse_ipv6 s
          else None)"

text \<open>\<open>IP.IsLoopback\<close> over the sixteen-byte form: an IPv4-mapped address whose first
  octet is 127, or the IPv6 address ::1.\<close>

definition is_loopback_ip :: "nat list \<Rightarrow> bool" where
  "is_loopback_ip ip \<longleftrightarrow>
     (if take 12 ip = replicate 10 0 @ [255, 255] then ip ! 12 = 127
      else ip = replicate 15 0 @ [1])"

subsection \<open>The characters of an address\<close>

definition ip_char :: "char \<Rightarrow> bool" where
  "ip_char c \<longleftrightarrow> hex_val c \<noteq> None \<or> c = CHR ''.'' \<or> c = CHR '':''"

lemma digit_ip_char: "is_digit c \<Longrightarrow> ip_char c"
  by (simp add: ip_char_def hex_val_def)

lemma ipv4_loop_chars: "ipv4_loop s dot val digs fs = Some r \<Longrightarrow> \<forall>c \<in> set s. ip_char c"
proof (induction s dot val digs fs rule: ipv4_loop.induct)
  case (2 c cs dot val digs fs)
  then show ?case
    using digit_ip_char [of c]
    by (cases "is_digit c") (auto simp: ip_char_def split: if_splits)
qed simp

lemma hex_run_chars:
  "hex_run s off acc = Some (off', acc', rest) \<Longrightarrow>
   \<exists>pre. s = pre @ rest \<and> (\<forall>c \<in> set pre. ip_char c)"
proof (induction s off acc rule: hex_run.induct)
  case (2 c cs off acc)
  show ?case
  proof (cases "hex_val c")
    case None
    with "2.prems" show ?thesis by auto
  next
    case (Some d)
    with "2" obtain pre where "cs = pre @ rest" and "\<forall>c \<in> set pre. ip_char c"
      by (auto split: if_splits)
    with Some show ?thesis
      by (intro exI [of _ "c # pre"]) (simp add: ip_char_def)
  qed
qed simp

lemma ipv6_loop_chars:
  "ipv6_loop n s ip el = Some (ip', el', rest) \<Longrightarrow> \<forall>c \<in> set s. ip_char c \<or> c \<in> set rest"
proof (induction n arbitrary: s ip el)
  case (Suc n)
  from Suc.prems obtain off acc r where run: "hex_run s 0 0 = Some (off, acc, r)"
    by (auto split: option.splits)
  then obtain pre where s: "s = pre @ r" and pre: "\<forall>c \<in> set pre. ip_char c"
    using hex_run_chars by blast
  have colon: "ip_char CHR '':''" by (simp add: ip_char_def)
  show ?case
  proof (cases "off \<noteq> 0 \<and> r \<noteq> [] \<and> hd r = CHR ''.''")
    case True
    with Suc.prems run obtain fs where "parse_ipv4 s = Some fs"
      by (auto split: if_splits option.splits)
    then show ?thesis
      by (auto simp: parse_ipv4_def dest: ipv4_loop_chars)
  next
    case False
    have "\<forall>c \<in> set r. ip_char c \<or> c \<in> set rest"
    proof (cases r)
      case (Cons c r1)
      with False Suc.prems run obtain d r2 where r1: "c = CHR '':''" "r1 = d # r2"
        by (cases r1) (auto simp: Let_def split: if_splits)
      show ?thesis
      proof (cases "d = CHR '':'' \<and> r2 = []")
        case True
        with Cons r1 colon show ?thesis by simp
      next
        case nontrivial: False
        obtain ip1 el1 r3 where rec: "ipv6_loop n r3 ip1 el1 = Some (ip', el', rest)"
          and r3: "r3 = (if d = CHR '':'' then r2 else r1)"
          using False Suc.prems run Cons r1 nontrivial
          by (cases "d = CHR '':''") (auto simp: Let_def split: if_splits)
        from Suc.IH [OF rec] show ?thesis
          using Cons r1 r3 colon by (auto split: if_splits)
      qed
    qed simp
    with s pre show ?thesis by auto
  qed
qed auto

lemma parse_ip_chars:
  assumes "parse_ip s = Some ip"
  shows "s \<noteq> [] \<and> (\<forall>c \<in> set s. ip_char c)"
proof -
  have ne: "s \<noteq> []" using assms by (auto simp: parse_ip_def)
  from assms consider (v4) fs where "parse_ipv4 s = Some fs" | (v6) "parse_ipv6 s = Some ip"
    by (auto simp: parse_ip_def split: list.splits if_splits)
  then have "\<forall>c \<in> set s. ip_char c"
  proof cases
    case v4
    then show ?thesis by (auto simp: parse_ipv4_def dest: ipv4_loop_chars)
  next
    case v6
    let ?l = "take 2 s = ''::''"
    let ?s1 = "if ?l then drop 2 s else s"
    have "\<forall>c \<in> set ?s1. ip_char c"
    proof (cases "?l \<and> ?s1 = []")
      case False
      with v6 obtain a b where
        "ipv6_loop 8 ?s1 [] (if ?l then Some 0 else None) = Some (a, b, [])"
        unfolding parse_ipv6_def Let_def by (auto split: option.splits if_splits)
      from ipv6_loop_chars [OF this] show ?thesis by simp
    qed auto
    moreover have "set s \<subseteq> set (take 2 s) \<union> set (drop 2 s)"
      by (metis append_take_drop_id order_refl set_append)
    ultimately show ?thesis
      by (auto simp: ip_char_def split: if_splits)
  qed
  with ne show ?thesis by simp
qed

subsection \<open>Constant-time comparison\<close>

definition bytes_of :: "string \<Rightarrow> bytes" where
  "bytes_of s = map of_char s"

definition ct_byte_eq :: "byte \<Rightarrow> byte \<Rightarrow> nat" where
  "ct_byte_eq x y = unat (drop_bit 31 ((ucast (x XOR y) :: 32 word) - 1))"

definition ct_compare :: "bytes \<Rightarrow> bytes \<Rightarrow> nat" where
  "ct_compare xs ys =
     (if length xs \<noteq> length ys then 0
      else ct_byte_eq (fold (\<lambda>(x, y) v. v OR (x XOR y)) (zip xs ys) 0) 0)"

lemma word_xor_zero: "x XOR y = 0 \<longleftrightarrow> x = (y :: byte)"
  by (auto simp: bit_eq_iff bit_xor_iff)

lemma ct_byte_eq_iff: "ct_byte_eq x y = 1 \<longleftrightarrow> x = y"
proof -
  have key: "unat (drop_bit 31 ((ucast v :: 32 word) - 1)) = 1 \<longleftrightarrow> v = 0" for v :: byte
  proof (cases "v = 0")
    case True
    then show ?thesis by simp
  next
    case False
    then have "0 < unat v" and "unat v < 256"
      using unsigned_less [of v, where ?'a = nat] by (simp_all add: unat_gt_0)
    have u: "unat (ucast v :: 32 word) = unat v"
      using \<open>unat v < 256\<close> by (simp add: unsigned_ucast_eq take_bit_nat_eq_self)
    with \<open>0 < unat v\<close> have "(ucast v :: 32 word) \<noteq> 0" by auto
    with u have "unat ((ucast v :: 32 word) - 1) = unat v - 1"
      by (simp add: unat_minus_one)
    then have "unat (drop_bit 31 ((ucast v :: 32 word) - 1)) = (unat v - 1) div 2 ^ 31"
      by (metis drop_bit_eq_div unat_drop_bit_eq)
    with False \<open>unat v < 256\<close> show ?thesis by simp
  qed
  with word_xor_zero [of x y] show ?thesis
    by (simp add: ct_byte_eq_def del: One_nat_def)
qed

lemma fold_or_zero:
  "fold (\<lambda>(x, y) v. v OR (x XOR y)) ps (v :: byte) = 0 \<longleftrightarrow> v = 0 \<and> (\<forall>(x, y) \<in> set ps. x = y)"
proof (induction ps arbitrary: v)
  case (Cons p ps)
  obtain x y where p: "p = (x, y)" by (cases p)
  have "v OR (x XOR y) = 0 \<longleftrightarrow> v = 0 \<and> x = y"
    by (metis or_eq_0_iff word_xor_zero)
  with Cons p show ?case by auto
qed simp

lemma ct_compare_iff: "ct_compare xs ys = 1 \<longleftrightarrow> xs = ys"
proof (cases "length xs = length ys")
  case True
  then have "(\<forall>(x, y) \<in> set (zip xs ys). x = y) \<longleftrightarrow> xs = ys"
    by (induction xs ys rule: list_induct2) auto
  with True show ?thesis
    by (simp add: ct_compare_def ct_byte_eq_iff fold_or_zero del: One_nat_def)
qed (auto simp: ct_compare_def)

lemma unat_of_char_byte: "unat (of_char c :: byte) = chr_code c"
  by (cases c) (simp add: of_char_def)

lemma bytes_of_inject: "bytes_of s = bytes_of t \<longleftrightarrow> s = t"
proof -
  have "inj (of_char :: char \<Rightarrow> byte)"
    by (rule injI) (metis unat_of_char_byte of_char_eq_iff)
  then show ?thesis by (simp add: bytes_of_def inj_map_eq_map)
qed

lemma ct_compare_strings: "ct_compare (bytes_of s) (bytes_of t) = 1 \<longleftrightarrow> s = t"
  by (simp add: ct_compare_iff bytes_of_inject del: One_nat_def)

subsection \<open>Dotted quads\<close>

lemma dec_digits_small:
  "n < 10 \<Longrightarrow> dec_digits n = [digit_char n]"
  "10 \<le> n \<Longrightarrow> n < 100 \<Longrightarrow> dec_digits n = [digit_char (n div 10), digit_char (n mod 10)]"
  "100 \<le> n \<Longrightarrow> n < 1000 \<Longrightarrow>
     dec_digits n = [digit_char (n div 100), digit_char (n div 10 mod 10), digit_char (n mod 10)]"
proof -
  assume "100 \<le> n" "n < 1000"
  then have "\<not> n div 10 < 10" "n div 10 div 10 < 10" "\<not> n < 10" "n div 100 = n div 10 div 10"
    by (simp_all add: div_mult2_eq [symmetric])
  then show "dec_digits n = [digit_char (n div 100), digit_char (n div 10 mod 10), digit_char (n mod 10)]"
    by (simp add: dec_digits.simps [of n] dec_digits.simps [of "n div 10"]
        dec_digits.simps [of "n div 10 div 10"])
qed (simp_all add: dec_digits.simps [of n] dec_digits.simps [of "n div 10"])

lemma digit_val_char: "d < 10 \<Longrightarrow> digit_val (digit_char d) = d"
  by (simp add: digit_val_def code_digit_char)

text \<open>The loop over the digits of one octet.\<close>

lemma ipv4_octet:
  assumes "n < 256"
  shows "\<exists>k. 0 < k \<and> ipv4_loop (dec_digits n @ rest) dot 0 0 fs = ipv4_loop rest False n k fs"
proof -
  note [simp] = is_digit_digit_char digit_val_char
  consider "n < 10" | "10 \<le> n" "n < 100" | "100 \<le> n" "n < 1000"
    using assms by linarith
  then show ?thesis
  proof cases
    case 1
    then show ?thesis by (intro exI [of _ 1]) (simp add: dec_digits_small)
  next
    case 2
    then have "n div 10 < 10" "n div 10 \<noteq> 0" "n div 10 * 10 + n mod 10 = n" "n div 10 \<le> 255"
      by auto
    with 2 assms show ?thesis by (intro exI [of _ 2]) (simp add: dec_digits_small numeral_2_eq_2)
  next
    case 3
    then have d: "n div 100 < 10" "n div 100 \<noteq> 0" "n div 100 * 10 + n div 10 mod 10 = n div 10"
      "n div 10 * 10 + n mod 10 = n" "n div 10 \<le> 255"
      using assms by (auto simp: div_mult2_eq [of n 10 10, simplified])
    with 3 assms show ?thesis by (intro exI [of _ 3]) (simp add: dec_digits_small numeral_3_eq_3)
  qed
qed

definition ipv4_text :: "nat \<Rightarrow> nat \<Rightarrow> nat \<Rightarrow> nat \<Rightarrow> string" where
  "ipv4_text a b c d = dec_digits a @ ''.'' @ dec_digits b @ ''.'' @ dec_digits c @ ''.'' @ dec_digits d"

lemma ipv4_dot:
  "cs \<noteq> [] \<Longrightarrow> length fs < 3 \<Longrightarrow>
   ipv4_loop (CHR ''.'' # cs) False val k fs = ipv4_loop cs True 0 0 (fs @ [val])"
  by (simp add: is_digit_def)

lemma parse_ipv4_text:
  assumes "a < 256" "b < 256" "c < 256" "d < 256"
  shows "parse_ipv4 (ipv4_text a b c d) = Some [a, b, c, d]"
proof -
  obtain k where k: "ipv4_loop (ipv4_text a b c d) True 0 0 [] =
      ipv4_loop (''.'' @ dec_digits b @ ''.'' @ dec_digits c @ ''.'' @ dec_digits d) False a k []"
    using ipv4_octet [OF assms(1)] unfolding ipv4_text_def by blast
  obtain l where l: "ipv4_loop (dec_digits b @ ''.'' @ dec_digits c @ ''.'' @ dec_digits d) True 0 0 [a] =
      ipv4_loop (''.'' @ dec_digits c @ ''.'' @ dec_digits d) False b l [a]"
    using ipv4_octet [OF assms(2)] by blast
  obtain m where m: "ipv4_loop (dec_digits c @ ''.'' @ dec_digits d) True 0 0 [a, b] =
      ipv4_loop (''.'' @ dec_digits d) False c m [a, b]"
    using ipv4_octet [OF assms(3)] by blast
  obtain j where j: "ipv4_loop (dec_digits d @ []) True 0 0 [a, b, c] = ipv4_loop [] False d j [a, b, c]"
    using ipv4_octet [OF assms(4)] by blast
  show ?thesis
    using k l m j by (simp add: parse_ipv4_def ipv4_dot del: ipv4_loop.simps(2))
qed

lemma ipv4_text_chars: "x \<in> set (ipv4_text a b c d) \<Longrightarrow> is_digit x \<or> x = CHR ''.''"
  by (auto simp: ipv4_text_def dest: dec_digits_digits)

lemma parse_ip_text:
  assumes "a < 256" "b < 256" "c < 256" "d < 256"
  shows "parse_ip (ipv4_text a b c d) = Some (replicate 10 0 @ [255, 255, a, b, c, d])"
proof -
  have "filter (\<lambda>x. x \<in> {CHR ''.'', CHR '':'', CHR ''%''}) (dec_digits n) = []" for n
    by (auto simp: filter_empty_conv is_digit_def dest: dec_digits_digits)
  then have "\<exists>r. filter (\<lambda>x. x \<in> {CHR ''.'', CHR '':'', CHR ''%''}) (ipv4_text a b c d) = CHR ''.'' # r"
    by (simp add: ipv4_text_def)
  then show ?thesis
    using parse_ipv4_text [OF assms] by (auto simp: parse_ip_def)
qed


end
