(* ===== verification/GoFlag.thy ===== *)
theory GoFlag
  imports GoNet
begin

text \<open>
  Go's \<open>flag\<close> package as \<open>config.Parse\<close> uses it: string and integer flags of a flag set with
  \<open>ContinueOnError\<close>, and \<open>strconv.ParseInt\<close> with base 0, which the integer flags read their
  value with.
\<close>

subsection \<open>strconv.ParseInt with base 0\<close>

definition alnum_val :: "char \<Rightarrow> int option" where
  "alnum_val c = (if is_digit c then Some (int (chr_code c) - 48)
     else if is_lower c then Some (int (chr_code c) - 87)
     else if is_upper c then Some (int (chr_code c) - 55) else None)"

fun parse_digits :: "int \<Rightarrow> string \<Rightarrow> int \<Rightarrow> int option" where
  "parse_digits base [] n = Some n"
| "parse_digits base (c # cs) n =
     (if c = CHR ''_'' then parse_digits base cs n
      else (case alnum_val c of None \<Rightarrow> None
            | Some d \<Rightarrow> if d \<ge> base then None
                        else if n * base + d \<ge> 2 ^ 64 then None
                        else parse_digits base cs (n * base + d)))"

text \<open>Underscores have to separate digits; the flags say whether the previous character was a
  digit (a base prefix counts) or an underscore.\<close>

fun underscores_ok :: "bool \<Rightarrow> bool \<Rightarrow> string \<Rightarrow> bool" where
  "underscores_ok digit us [] = (\<not> us)"
| "underscores_ok digit us (c # cs) =
     (if c = CHR ''_'' then digit \<and> underscores_ok False True cs
      else underscores_ok True False cs)"

definition base_prefix :: "string \<Rightarrow> int \<times> bool \<times> string" where
  "base_prefix s =
     (case s of
        a # b # c # rest \<Rightarrow>
          if a = CHR ''0'' \<and> lower_char b = CHR ''b'' then (2, True, c # rest)
          else if a = CHR ''0'' \<and> lower_char b = CHR ''o'' then (8, True, c # rest)
          else if a = CHR ''0'' \<and> lower_char b = CHR ''x'' then (16, True, c # rest)
          else if a = CHR ''0'' then (8, True, b # c # rest)
          else (10, False, s)
      | a # rest \<Rightarrow> if a = CHR ''0'' then (8, True, rest) else (10, False, s)
      | [] \<Rightarrow> (10, False, s))"

definition parse_uint0 :: "string \<Rightarrow> int option" where
  "parse_uint0 s =
     (if s = [] then None
      else case base_prefix s of (base, prefixed, body) \<Rightarrow>
        if underscores_ok prefixed False body then parse_digits base body 0 else None)"

definition parse_int0 :: "string \<Rightarrow> int option" where
  "parse_int0 s =
     (case s of [] \<Rightarrow> None
      | c # cs \<Rightarrow>
          let neg = (c = CHR ''-''); body = (if c = CHR ''-'' \<or> c = CHR ''+'' then cs else s) in
          (case parse_uint0 body of None \<Rightarrow> None
           | Some u \<Rightarrow>
               if \<not> neg \<and> u \<ge> 2 ^ 63 \<or> neg \<and> u > 2 ^ 63 then None
               else Some (if neg then - u else u)))"

lemma alnum_val_nonneg: "alnum_val c = Some d \<Longrightarrow> 0 \<le> d"
  by (auto simp: alnum_val_def is_digit_def is_lower_def is_upper_def split: if_splits)

lemma parse_digits_nonneg: "parse_digits b cs n = Some k \<Longrightarrow> 0 \<le> b \<Longrightarrow> 0 \<le> n \<Longrightarrow> 0 \<le> k"
  by (induction b cs n rule: parse_digits.induct)
    (auto split: if_splits option.splits dest: alnum_val_nonneg)

lemma base_prefix_nonneg: "base_prefix s = (b, p, body) \<Longrightarrow> 0 \<le> b"
  by (auto simp: base_prefix_def split: list.splits if_splits)

lemma parse_uint0_nonneg: "parse_uint0 s = Some k \<Longrightarrow> 0 \<le> k"
  by (auto simp: parse_uint0_def split: if_splits prod.splits
      dest!: parse_digits_nonneg dest: base_prefix_nonneg)

lemma parse_int0_range: "parse_int0 s = Some i \<Longrightarrow> int64_range i"
  by (auto dest!: parse_uint0_nonneg simp: parse_int0_def int64_range_def Let_def split: list.splits option.splits if_splits)

text \<open>What \<open>strconv.Itoa\<close> prints is read back.\<close>

lemma alnum_val_digit_char: "d < 10 \<Longrightarrow> alnum_val (digit_char d) = Some (int d)"
  by (simp add: alnum_val_def is_digit_digit_char code_digit_char)

lemma digit_char_not_underscore: "d < 10 \<Longrightarrow> digit_char d \<noteq> CHR ''_''"
  using is_digit_digit_char [of d] by (auto simp: is_digit_def)

lemma parse_digits_append:
  "parse_digits b (xs @ ys) n =
     (case parse_digits b xs n of None \<Rightarrow> None | Some k \<Rightarrow> parse_digits b ys k)"
  by (induction b xs n rule: parse_digits.induct) (auto split: option.splits)

lemma parse_dec_digits: "n < 2 ^ 64 \<Longrightarrow> parse_digits 10 (dec_digits n) 0 = Some (int n)"
proof (induction n rule: dec_digits.induct)
  case (1 n)
  have n: "int (n div 10) * 10 + int (n mod 10) = int n"
    by (simp add: zdiv_int zmod_int)
  have d: "int (n mod 10) < 10" "(int n :: int) < 2 ^ 64"
    using "1.prems" by simp_all
  show ?case
  proof (cases "n < 10")
    case True
    then show ?thesis
      by (simp add: dec_digits.simps [of n] alnum_val_digit_char digit_char_not_underscore)
  next
    case False
    with "1.IH" "1.prems" have "parse_digits 10 (dec_digits (n div 10)) 0 = Some (int (n div 10))"
      by simp
    with False n d show ?thesis
      by (simp add: dec_digits.simps [of n] parse_digits_append alnum_val_digit_char
          digit_char_not_underscore)
  qed
qed

lemma underscores_ok_digits: "\<forall>c \<in> set s. is_digit c \<Longrightarrow> underscores_ok d False s"
  by (induction s arbitrary: d) (auto simp: is_digit_def)

lemma dec_digits_hd: "hd (dec_digits n) = CHR ''0'' \<longleftrightarrow> n = 0"
proof (induction n rule: dec_digits.induct)
  case (1 n)
  have "digit_char n = CHR ''0'' \<longleftrightarrow> n = 0" if "n < 10"
    using that code_digit_char [of n]
    by (cases "n = 0") (auto simp: digit_char_def [of 0] char_of_eq_iff)
  with 1 show ?case
    by (cases "n < 10") (auto simp: dec_digits.simps [of n])
qed

lemma parse_uint0_dec_digits: "n < 2 ^ 64 \<Longrightarrow> parse_uint0 (dec_digits n) = Some (int n)"
proof (cases "n = 0")
  case True
  then show ?thesis
    by (simp add: parse_uint0_def dec_digits.simps [of 0] base_prefix_def digit_char_def char_of_eq_iff)
next
  case False
  assume n: "n < 2 ^ 64"
  from False have "base_prefix (dec_digits n) = (10, False, dec_digits n)"
    using dec_digits_hd [of n]
    by (auto simp: base_prefix_def split: list.splits)
  with n show ?thesis
    by (simp add: parse_uint0_def parse_dec_digits underscores_ok_digits dec_digits_digits)
qed

lemma parse_int0_itoa: "int64_range i \<Longrightarrow> parse_int0 (strconv_itoa i) = Some i"
proof -
  assume i: "int64_range i"
  have hd: "hd (dec_digits n) \<noteq> CHR ''-'' \<and> hd (dec_digits n) \<noteq> CHR ''+''" for n
    using dec_digits_digits [of "hd (dec_digits n)" n] by (auto simp: is_digit_def)
  show ?thesis
  proof (cases "i < 0")
    case True
    with i show ?thesis
      by (simp add: strconv_itoa_def parse_int0_def parse_uint0_dec_digits int64_range_def
          nat_less_iff)
  next
    case False
    with i have "parse_uint0 (dec_digits (nat i)) = Some i"
      by (simp add: parse_uint0_dec_digits int64_range_def nat_less_iff)
    with False i hd [of "nat i"] show ?thesis
      by (cases "dec_digits (nat i)") (auto simp: strconv_itoa_def parse_int0_def int64_range_def)
  qed
qed

subsection \<open>FlagSet.Parse\<close>

datatype flag_error =
  ErrHelp | BadSyntax string | NotDefined string | NeedsArgument string | InvalidValue string string

text \<open>\<open>set\<close> stores a value under a flag name: \<open>Inl\<close> tells an unknown flag from a value the
  flag refuses, which is \<open>Inr None\<close>.\<close>

type_synonym 'f flag_set = "string \<Rightarrow> string \<Rightarrow> 'f \<Rightarrow> unit + 'f option"

definition flag_name :: "string \<Rightarrow> string" where
  "flag_name s = (if take 2 s = ''--'' then drop 2 s else drop 1 s)"

definition cut_equals :: "string \<Rightarrow> string \<times> string option" where
  "cut_equals name =
     (case index_byte CHR ''='' (drop 1 name) of
        None \<Rightarrow> (name, None)
      | Some i \<Rightarrow> (take (Suc i) name, Some (drop (Suc (Suc i)) name)))"

definition flag_set_one :: "'f flag_set \<Rightarrow> string \<Rightarrow> string \<Rightarrow> 'f \<Rightarrow> flag_error + 'f" where
  "flag_set_one st name v f =
     (case st name v f of
        Inl _ \<Rightarrow> Inl (if name = ''help'' \<or> name = ''h'' then ErrHelp else NotDefined name)
      | Inr None \<Rightarrow> Inl (InvalidValue name v)
      | Inr (Some f') \<Rightarrow> Inr f')"

text \<open>A flag without a value takes the next argument; an unknown name is an error before that.\<close>

fun flag_parse :: "'f flag_set \<Rightarrow> string list \<Rightarrow> 'f \<Rightarrow> flag_error + 'f" where
  "flag_parse st [] f = Inr f"
| "flag_parse st (s # rest) f =
     (if length s < 2 \<or> hd s \<noteq> CHR ''-'' then Inr f
      else if s = ''--'' then Inr f
      else let name = flag_name s in
        if name = [] \<or> hd name = CHR ''-'' \<or> hd name = CHR ''='' then Inl (BadSyntax s)
        else (case cut_equals name of
          (nm, Some v) \<Rightarrow>
            (case flag_set_one st nm v f of Inl e \<Rightarrow> Inl e | Inr f' \<Rightarrow> flag_parse st rest f')
        | (nm, None) \<Rightarrow>
            (case rest of
               [] \<Rightarrow> Inl (case st nm [] f of
                            Inl _ \<Rightarrow> if nm = ''help'' \<or> nm = ''h'' then ErrHelp else NotDefined nm
                          | Inr _ \<Rightarrow> NeedsArgument nm)
             | v # rest' \<Rightarrow>
                 (case flag_set_one st nm v f of Inl e \<Rightarrow> Inl e | Inr f' \<Rightarrow> flag_parse st rest' f'))))"

text \<open>An invariant of the flag values that every store keeps holds after parsing.\<close>

lemma flag_parse_keeps:
  assumes "flag_parse st args f = Inr f'" and "P f"
    and "\<And>n v f f'. P f \<Longrightarrow> st n v f = Inr (Some f') \<Longrightarrow> P f'"
  shows "P f'"
  using assms
proof (induction st args f rule: flag_parse.induct)
  case (2 st s rest f)
  have one: "P g" if "flag_set_one st n v f = Inr g" for n v g
    using that "2.prems"(3) [OF "2.prems"(2), of n v g]
    by (auto simp: flag_set_one_def split: sum.splits option.splits)
  show ?case
  proof (cases "length s < 2 \<or> hd s \<noteq> CHR ''-'' \<or> s = ''--''")
    case True
    with "2.prems" show ?thesis by auto
  next
    case False
    obtain nm v where cut: "cut_equals (flag_name s) = (nm, v)" by (cases "cut_equals (flag_name s)")
    have IHs: "flag_parse st rest g = Inr f' \<Longrightarrow> P f'" if "flag_set_one st nm w f = Inr g" "v = Some w" for w g
      using "2.IH"(2) [of "flag_name s" nm v] False cut that one "2.prems" by (auto simp: Let_def split: if_splits)
    have IHn: "flag_parse st rest' g = Inr f' \<Longrightarrow> P f'"
      if "flag_set_one st nm w f = Inr g" "v = None" "rest = w # rest'" for w rest' g
      using "2.IH"(1) [of "flag_name s" nm v] False cut that one "2.prems" by (auto simp: Let_def split: if_splits)
    from False cut "2.prems"(1) IHs IHn show ?thesis
      by (auto simp: Let_def split: if_splits list.splits sum.splits option.splits)
  qed
qed simp

end
