(* ===== verification/Config.thy ===== *)
theory Config
  imports GoFlag
begin

text \<open>
  \<open>internal/config/config.go\<close>: command line to validated configuration.  \<open>hostname\<close> is the
  result of \<open>os.Hostname()\<close> (\<^const>\<open>None\<close> for an error).  Errors are values.
\<close>

datatype mode = ModeController | ModeAgentJoin | ModeAgentHolding

fun mode_String :: "mode \<Rightarrow> string" where
  "mode_String ModeController = ''controller''"
| "mode_String ModeAgentJoin = ''agent-join''"
| "mode_String ModeAgentHolding = ''agent-holding''"

definition DefaultPort :: int where
  "DefaultPort = 5999"

record config =
  cf_Mode :: mode
  cf_Port :: int
  cf_MasterAddr :: string
  cf_AuthEnabled :: bool
  cf_AdminUser :: string
  cf_AdminPass :: string
  cf_AgentID :: string
  cf_Token :: string
  cf_DataPort :: int

record raw_flags =
  rf_master :: string
  rf_admin :: string
  rf_port :: int
  rf_dataPort :: int
  rf_id :: string
  rf_token :: string

datatype config_error =
  FlagError flag_error
| BadPort int | BadDataPort int
| EmptyHost string | EmptyMaster
| AdminOnAgent | AdminForm | AdminEmpty

subsection \<open>normaliseMaster and parseAdmin\<close>

definition strip_schemes :: "string \<Rightarrow> string" where
  "strip_schemes s = trim_prefix ''http://'' (trim_prefix ''ws://'' (trim_space s))"

definition normaliseMaster :: "string \<Rightarrow> int \<Rightarrow> config_error + string" where
  "normaliseMaster m defaultPort =
     (let master = strip_schemes m in
      case split_host_port master of
        Some (host, port) \<Rightarrow>
          if host = [] then Inl (EmptyHost master) else Inr (join_host_port host port)
      | None \<Rightarrow>
          if master = [] then Inl EmptyMaster
          else Inr (join_host_port master (strconv_itoa defaultPort)))"

definition parseAdmin :: "string \<Rightarrow> config_error + string \<times> string" where
  "parseAdmin s =
     (case index_byte CHR '':'' s of
        None \<Rightarrow> Inl AdminForm
      | Some i \<Rightarrow>
          let user = take i s; pass = drop (i + 1) s in
          if user = [] \<or> pass = [] then Inl AdminEmpty else Inr (user, pass))"

subsection \<open>build\<close>

definition resolve_data_port :: "raw_flags \<Rightarrow> int" where
  "resolve_data_port rf =
     (if rf_dataPort rf = 0 then
        (if rf_port rf + 1 > 65535 then rf_port rf - 1 else rf_port rf + 1)
      else rf_dataPort rf)"

definition agent_id :: "string option \<Rightarrow> raw_flags \<Rightarrow> string" where
  "agent_id hostname rf =
     (if rf_id rf = [] then
        (case hostname of
           Some hn \<Rightarrow> if hn \<noteq> [] then hn else ''agent-'' @ strconv_itoa (rf_port rf)
         | None \<Rightarrow> ''agent-'' @ strconv_itoa (rf_port rf))
      else rf_id rf)"

definition resolve_mode :: "raw_flags \<Rightarrow> config_error + mode \<times> string" where
  "resolve_mode rf =
     (let m = trim_space (to_lower (rf_master rf)) in
      if m = ''self'' then Inr (ModeController, [])
      else if m = [] then Inr (ModeAgentHolding, [])
      else (case normaliseMaster (rf_master rf) (rf_port rf) of
              Inl e \<Rightarrow> Inl e | Inr addr \<Rightarrow> Inr (ModeAgentJoin, addr)))"

definition build :: "string option \<Rightarrow> raw_flags \<Rightarrow> config_error + config" where
  "build hostname rf =
     (if rf_port rf < 1 \<or> rf_port rf > 65535 then Inl (BadPort (rf_port rf))
      else let dataPort = resolve_data_port rf in
      if dataPort < 1 \<or> dataPort > 65535 then Inl (BadDataPort dataPort)
      else case resolve_mode rf of Inl e \<Rightarrow> Inl e
      | Inr (m, addr) \<Rightarrow>
          let cfg = \<lparr>cf_Mode = m, cf_Port = rf_port rf, cf_MasterAddr = addr,
                cf_AuthEnabled = False, cf_AdminUser = [], cf_AdminPass = [],
                cf_AgentID = agent_id hostname rf, cf_Token = rf_token rf, cf_DataPort = dataPort\<rparr> in
          if rf_admin rf \<noteq> [] then
            (if m \<noteq> ModeController then Inl AdminOnAgent
             else case parseAdmin (rf_admin rf) of Inl e \<Rightarrow> Inl e
                  | Inr (user, pass) \<Rightarrow>
                      Inr (cfg\<lparr>cf_AuthEnabled := True, cf_AdminUser := user, cf_AdminPass := pass\<rparr>))
          else Inr cfg)"

subsection \<open>Parse\<close>

text \<open>The six flags and their defaults.\<close>

definition default_flags :: raw_flags where
  "default_flags = \<lparr>rf_master = [], rf_admin = [], rf_port = DefaultPort, rf_dataPort = 0,
     rf_id = [], rf_token = []\<rparr>"

definition set_flag :: "raw_flags flag_set" where
  "set_flag name v rf =
     (if name = ''master'' then Inr (Some (rf\<lparr>rf_master := v\<rparr>))
      else if name = ''admin'' then Inr (Some (rf\<lparr>rf_admin := v\<rparr>))
      else if name = ''port'' then Inr (map_option (\<lambda>i. rf\<lparr>rf_port := i\<rparr>) (parse_int0 v))
      else if name = ''data-port'' then Inr (map_option (\<lambda>i. rf\<lparr>rf_dataPort := i\<rparr>) (parse_int0 v))
      else if name = ''id'' then Inr (Some (rf\<lparr>rf_id := v\<rparr>))
      else if name = ''token'' then Inr (Some (rf\<lparr>rf_token := v\<rparr>))
      else Inl ())"

definition Parse :: "string option \<Rightarrow> string list \<Rightarrow> config_error + config" where
  "Parse hostname args =
     (case flag_parse set_flag args default_flags of
        Inl e \<Rightarrow> Inl (FlagError e) | Inr rf \<Rightarrow> build hostname rf)"

definition ListenAddr :: "config \<Rightarrow> string" where
  "ListenAddr c = '':'' @ strconv_itoa (cf_Port c)"

subsection \<open>What a configuration satisfies\<close>

text \<open>The range of the flags, the identity, and the credentials the rest of the program relies on.\<close>

definition config_ok :: "config \<Rightarrow> bool" where
  "config_ok c \<longleftrightarrow>
     1 \<le> cf_Port c \<and> cf_Port c \<le> 65535 \<and> 1 \<le> cf_DataPort c \<and> cf_DataPort c \<le> 65535 \<and>
     cf_AgentID c \<noteq> [] \<and>
     (cf_MasterAddr c \<noteq> [] \<longleftrightarrow> cf_Mode c = ModeAgentJoin) \<and>
     (if cf_AuthEnabled c
      then cf_Mode c = ModeController \<and> cf_AdminUser c \<noteq> [] \<and> cf_AdminPass c \<noteq> [] \<and>
           CHR '':'' \<notin> set (cf_AdminUser c)
      else cf_AdminUser c = [] \<and> cf_AdminPass c = [])"

lemma parseAdmin_iff:
  "parseAdmin s = Inr (u, p) \<longleftrightarrow> s = u @ '':'' @ p \<and> CHR '':'' \<notin> set u \<and> u \<noteq> [] \<and> p \<noteq> []"
proof
  assume "parseAdmin s = Inr (u, p)"
  then obtain i where "index_byte CHR '':'' s = Some i" "u = take i s" "p = drop (i + 1) s"
    "u \<noteq> []" "p \<noteq> []"
    by (auto simp: parseAdmin_def Let_def split: option.splits if_splits)
  then show "s = u @ '':'' @ p \<and> CHR '':'' \<notin> set u \<and> u \<noteq> [] \<and> p \<noteq> []"
    using index_byte_SomeD [of "CHR '':''" s i] index_byte_split [of "CHR '':''" s i] by simp
qed (auto simp: parseAdmin_def index_byte_append Let_def)

lemma agent_id_nonempty: "agent_id hn rf \<noteq> []"
  by (simp add: agent_id_def split: option.splits)

lemma join_host_port_nonempty [simp]: "join_host_port h p \<noteq> []"
  by (simp add: join_host_port_def)

lemma normaliseMaster_nonempty: "normaliseMaster m d = Inr a \<Longrightarrow> a \<noteq> []"
  by (auto simp: normaliseMaster_def Let_def split: option.splits if_splits prod.splits)

lemma resolve_mode_addr: "resolve_mode rf = Inr (m, a) \<Longrightarrow> a \<noteq> [] \<longleftrightarrow> m = ModeAgentJoin"
  by (auto simp: resolve_mode_def Let_def dest: normaliseMaster_nonempty split: if_splits sum.splits)

lemma build_ok: "build hn rf = Inr c \<Longrightarrow> config_ok c"
  by (auto simp: build_def config_ok_def Let_def agent_id_nonempty parseAdmin_iff
      dest: resolve_mode_addr split: if_splits sum.splits prod.splits)

text \<open>
  C40: Every configuration \<open>Parse\<close> returns is valid, whatever the command line and the
  host: both ports are in 1..65535, the agent ID is not empty, an address to join is present exactly in
  joining mode, and credentials are present, complete and free of a colon in the user name
  exactly on a controller with \<open>-admin\<close>.
\<close>

theorem parse_config_valid: "Parse hostname args = Inr c \<Longrightarrow> config_ok c"
  by (auto simp: Parse_def build_ok split: sum.splits)

theorem parse_config_valid_witness:
  "\<exists>c. Parse (Some ''n1'') [''-master'', ''self'', ''-admin=ops:a:b''] = Inr c \<and> config_ok c \<and>
     cf_AdminPass c = ''a:b''"
proof -
  have "case Parse (Some ''n1'') [''-master'', ''self'', ''-admin=ops:a:b''] of
      Inl _ \<Rightarrow> False | Inr c \<Rightarrow> cf_AdminPass c = ''a:b''"
    by code_simp
  then obtain c where "Parse (Some ''n1'') [''-master'', ''self'', ''-admin=ops:a:b''] = Inr c"
    "cf_AdminPass c = ''a:b''"
    by (cases "Parse (Some ''n1'') [''-master'', ''self'', ''-admin=ops:a:b'']") simp_all
  then show ?thesis
    using parse_config_valid by blast
qed

text \<open>The flags in the form \<open>-name=value\<close>.\<close>

definition flag_args :: "raw_flags \<Rightarrow> string list" where
  "flag_args rf = [''-master='' @ rf_master rf, ''-admin='' @ rf_admin rf,
     ''-port='' @ strconv_itoa (rf_port rf), ''-data-port='' @ strconv_itoa (rf_dataPort rf),
     ''-id='' @ rf_id rf, ''-token='' @ rf_token rf]"

lemma flag_parse_equals:
  assumes "st nm v f = Inr (Some f')" and "nm \<noteq> []" and "CHR ''='' \<notin> set nm" and "hd nm \<noteq> CHR ''-''"
  shows "flag_parse st ((CHR ''-'' # nm @ CHR ''='' # v) # rest) f = flag_parse st rest f'"
proof -
  obtain a nm' where nm: "nm = a # nm'"
    using assms(2) by (cases nm) auto
  have "flag_name (CHR ''-'' # nm @ CHR ''='' # v) = nm @ CHR ''='' # v"
    using assms nm by (simp add: flag_name_def numeral_2_eq_2)
  moreover have "cut_equals (nm @ CHR ''='' # v) = (nm, Some v)"
    using index_byte_append [of "CHR ''=''" nm' v] assms nm by (simp add: cut_equals_def)
  ultimately show ?thesis
    using assms nm by (auto simp: Let_def flag_set_one_def)
qed

lemma flag_args_step:
  "flag_parse set_flag ((''-master='' @ v) # rest) f = flag_parse set_flag rest (f\<lparr>rf_master := v\<rparr>)"
  "flag_parse set_flag ((''-admin='' @ v) # rest) f = flag_parse set_flag rest (f\<lparr>rf_admin := v\<rparr>)"
  "flag_parse set_flag ((''-id='' @ v) # rest) f = flag_parse set_flag rest (f\<lparr>rf_id := v\<rparr>)"
  "flag_parse set_flag ((''-token='' @ v) # rest) f = flag_parse set_flag rest (f\<lparr>rf_token := v\<rparr>)"
  "int64_range i \<Longrightarrow> flag_parse set_flag ((''-port='' @ strconv_itoa i) # rest) f =
     flag_parse set_flag rest (f\<lparr>rf_port := i\<rparr>)"
  "int64_range i \<Longrightarrow> flag_parse set_flag ((''-data-port='' @ strconv_itoa i) # rest) f =
     flag_parse set_flag rest (f\<lparr>rf_dataPort := i\<rparr>)"
  using flag_parse_equals [of set_flag "''master''" v f "f\<lparr>rf_master := v\<rparr>" rest]
    flag_parse_equals [of set_flag "''admin''" v f "f\<lparr>rf_admin := v\<rparr>" rest]
    flag_parse_equals [of set_flag "''id''" v f "f\<lparr>rf_id := v\<rparr>" rest]
    flag_parse_equals [of set_flag "''token''" v f "f\<lparr>rf_token := v\<rparr>" rest]
    flag_parse_equals [of set_flag "''port''" "strconv_itoa i" f "f\<lparr>rf_port := i\<rparr>" rest]
    flag_parse_equals [of set_flag "''data-port''" "strconv_itoa i" f "f\<lparr>rf_dataPort := i\<rparr>" rest]
  by (simp_all add: set_flag_def parse_int0_itoa del: flag_parse.simps)

text \<open>
  The command line carries every flag faithfully: given in the form \<open>-name=value\<close>, any six
  values (also values with spaces, dashes and equals signs) reach \<open>build\<close> as they are.
\<close>

theorem flags_roundtrip:
  assumes "int64_range (rf_port rf)" and "int64_range (rf_dataPort rf)"
  shows "Parse hostname (flag_args rf) = build hostname rf"
  using assms
  by (cases rf) (simp add: Parse_def flag_args_def flag_args_step default_flags_def
      del: flag_parse.simps(2) append.simps)

theorem flags_roundtrip_witness:
  "Parse None (flag_args (default_flags\<lparr>rf_token := ''a=-b''\<rparr>)) =
     build None (default_flags\<lparr>rf_token := ''a=-b''\<rparr>)"
  using flags_roundtrip [of "default_flags\<lparr>rf_token := ''a=-b''\<rparr>" None]
  by (simp add: default_flags_def DefaultPort_def int64_range_def)

subsection \<open>The address to dial\<close>

lemma drop_Suc_split: "s ! i = c \<Longrightarrow> i < length s \<Longrightarrow> drop i s = c # drop (Suc i) s"
  by (metis Cons_nth_drop_Suc)

lemma last_index_byte_SomeD:
  assumes "last_index_byte c s = Some i"
  shows "i < length s \<and> s ! i = c \<and> c \<notin> set (drop (Suc i) s)"
proof -
  obtain j where j: "index_byte c (rev s) = Some j" "i = length s - 1 - j"
    using assms by (auto simp: last_index_byte_def)
  with index_byte_SomeD [of c "rev s" j] have "j < length s" "rev s ! j = c" "c \<notin> set (take j (rev s))"
    by simp_all
  with j show ?thesis
    by (auto simp: rev_nth take_rev Suc_diff_Suc)
qed

text \<open>Both parts of a split are free of brackets, and the port is free of colons.\<close>

lemma split_host_port_plain:
  assumes "split_host_port s = Some (h, p)"
  shows "plain_host h \<and> plain_port p"
proof -
  obtain i where i: "last_index_byte CHR '':'' s = Some i"
    using assms by (auto simp: split_host_port_def split: option.splits)
  note last = last_index_byte_SomeD [OF i]
  show ?thesis
  proof (cases "hd s = CHR ''[''")
    case True
    with assms i obtain e where e: "index_byte CHR '']'' s = Some e" "i = e + 1"
      "CHR ''['' \<notin> set (drop 1 s)" "CHR '']'' \<notin> set (drop (e + 1) s)"
      "h = drop 1 (take e s)" "p = drop (i + 1) s"
      by (auto simp: split_host_port_def split: option.splits if_splits)
    have sub: "set h \<subseteq> set (take e s)" "set h \<subseteq> set (drop 1 s)"
      using e(5) set_drop_subset [of 1 "take e s"] set_take_subset [of "e - 1" "drop 1 s"]
      by (simp_all add: drop_take)
    have subp: "set p \<subseteq> set (drop 1 s)" "set p \<subseteq> set (drop (e + 1) s)"
      using e(2,6) set_drop_subset_set_drop [of 1 "i + 1" s] set_drop_subset_set_drop [of "e + 1" "i + 1" s]
      by auto
    with sub e last index_byte_SomeD [OF e(1)] show ?thesis
      by (auto simp: plain_host_def plain_port_def)
  next
    case False
    with assms i have "CHR ''['' \<notin> set s" "CHR '']'' \<notin> set s" "h = take i s" "p = drop (i + 1) s"
      by (auto simp: split_host_port_def split: if_splits)
    with last show ?thesis
      by (auto simp: plain_host_def plain_port_def dest: in_set_takeD in_set_dropD)
  qed
qed

lemma split_bracketed_bad:
  assumes "CHR '':'' \<in> set h" and "\<not> plain_host h" and "plain_port p"
  shows "split_host_port (join_host_port h p) = None"
proof -
  let ?s = "''['' @ h @ '']:'' @ p"
  have l: "last_index_byte CHR '':'' ?s = Some (length h + 2)"
    using last_index_byte_append [of "CHR '':''" p "''['' @ h @ '']''"] assms
    by (simp add: plain_port_def)
  obtain e where e: "index_byte CHR '']'' ?s = Some e"
    using index_byte_None [of "CHR '']''" ?s] by (cases "index_byte CHR '']'' ?s") auto
  have "CHR ''['' \<in> set h \<or> e \<noteq> length h + 1"
  proof (rule disjCI)
    assume "\<not> e \<noteq> length h + 1"
    with index_byte_SomeD [OF e] have "CHR '']'' \<notin> set h"
      by simp
    with assms show "CHR ''['' \<in> set h"
      by (simp add: plain_host_def)
  qed
  then show ?thesis
  proof
    assume "CHR ''['' \<in> set h"
    with l e assms(1) show ?thesis
      by (simp add: split_host_port_def join_host_port_def del: index_byte.simps)
  next
    assume "e \<noteq> length h + 1"
    with l e assms(1) show ?thesis
      by (simp add: split_host_port_def join_host_port_def del: index_byte.simps)
  qed
qed

lemma plain_host_no_host: "split_host_port s = None \<Longrightarrow> plain_host s \<Longrightarrow>
   split_host_port (join_host_port s (strconv_itoa d)) = Some (s, strconv_itoa d)"
  by (simp add: split_join_host_port plain_port_itoa)

text \<open>
  The address \<open>normaliseMaster\<close> returns can be split again by the dialler whenever the
  operator gave \<open>host:port\<close> or a bare host or address: the host is not empty and is the given one,
  and the port is the given one or the default.  The one way to fail is a bare IPv6 address
  that the operator already put in brackets: it is bracketed a second time, and no dialler splits the
  result.
\<close>

theorem master_dialable:
  assumes "normaliseMaster m d = Inr a"
  defines "s \<equiv> strip_schemes m"
  shows "(split_host_port s \<noteq> None \<or> plain_host s \<longrightarrow>
           (\<exists>h p. h \<noteq> [] \<and> split_host_port a = Some (h, p) \<and>
             (split_host_port s = Some (h, p) \<or> h = s \<and> p = strconv_itoa d))) \<and>
         (split_host_port s = None \<and> CHR '':'' \<in> set s \<and> \<not> plain_host s \<longrightarrow>
           split_host_port a = None)"
proof (cases "split_host_port s")
  case None
  with assms have "a = join_host_port s (strconv_itoa d)" "s \<noteq> []"
    by (auto simp: normaliseMaster_def Let_def split: if_splits)
  with None show ?thesis
    by (auto simp: plain_host_no_host split_bracketed_bad plain_port_itoa)
next
  case (Some hp)
  then obtain h p where hp: "split_host_port s = Some (h, p)"
    by (cases hp) simp
  with assms have "a = join_host_port h p" "h \<noteq> []"
    by (auto simp: normaliseMaster_def Let_def split: if_splits)
  with hp split_host_port_plain [OF hp] show ?thesis
    by (simp add: split_join_host_port)
qed

theorem master_dialable_witness:
  "split_host_port ''fd00::7'' = None \<and>
   (\<exists>h p. h \<noteq> [] \<and> split_host_port ''[fd00::7]:5999'' = Some (h, p)) \<and>
   split_host_port ''[[::1]]:5999'' = None"
proof -
  have c: "strconv_itoa 5999 = ''5999''"
    by (simp add: strconv_itoa_def dec_digits.simps digit_char_def char_of_eq_iff)
  have 1: "strip_schemes ''fd00::7'' = ''fd00::7''" "split_host_port ''fd00::7'' = None"
    "plain_host ''fd00::7''"
    by code_simp+
  have 2: "strip_schemes ''[::1]'' = ''[::1]''" "split_host_port ''[::1]'' = None"
    "\<not> plain_host ''[::1]''"
    by code_simp+
  have "normaliseMaster ''fd00::7'' 5999 = Inr ''[fd00::7]:5999''"
    "normaliseMaster ''[::1]'' 5999 = Inr ''[[::1]]:5999''"
    using 1 2 c by (simp_all add: normaliseMaster_def join_host_port_def)
  from this [THEN master_dialable] 1 2 show ?thesis
    by auto
qed

end
