(* ===== verification/Json.thy ===== *)
theory Json
  imports GoStd "HOL-Library.Monad_Syntax"
begin

text \<open>
  What the program uses of \<open>encoding/json\<close>, at the level of JSON values: a struct is
  written as an object with its tagged members in field order (\<open>omitempty\<close> members left out
  when zero), and read member by member into a zero struct.  An absent member or a
  \<open>null\<close> leaves the zero value, an unknown member is skipped, a member of the wrong shape or
  an integer out of range is an error (\<^const>\<open>None\<close>), and names are matched up to ASCII case.
  When several members name one field, the last one counts.  The text form of a value is the
  library's affair; a frame that is no JSON text is \<^const>\<open>None\<close> where frames are read.
\<close>

text \<open>\<open>JInt\<close> is a number literal without fraction and exponent, the only kind an integer
  field accepts; \<open>JFrac\<close> is any other number literal.\<close>

datatype json =
  JNull | JBool bool | JInt int | JFrac rat | JStr string
| JArr "json list" | JObj "(string \<times> json) list"

type_synonym members = "(string \<times> json) list"

subsection \<open>Reading\<close>

definition fold_name :: "string \<Rightarrow> string" where
  "fold_name = map lower_char"

fun jlookup :: "string \<Rightarrow> members \<Rightarrow> json option" where
  "jlookup n [] = None"
| "jlookup n ((k, j) # ms) =
     (case jlookup n ms of Some j' \<Rightarrow> Some j'
      | None \<Rightarrow> if fold_name k = fold_name n then Some j else None)"

definition fld :: "members \<Rightarrow> string \<Rightarrow> (json \<Rightarrow> 'a option) \<Rightarrow> 'a \<Rightarrow> 'a option" where
  "fld ms n dec zero = (case jlookup n ms of None \<Rightarrow> Some zero | Some j \<Rightarrow> dec j)"

definition dec_struct :: "(members \<Rightarrow> 'a option) \<Rightarrow> 'a \<Rightarrow> json \<Rightarrow> 'a option" where
  "dec_struct f zero j = (case j of JNull \<Rightarrow> Some zero | JObj ms \<Rightarrow> f ms | _ \<Rightarrow> None)"

definition dec_string :: "json \<Rightarrow> string option" where
  "dec_string j = (case j of JNull \<Rightarrow> Some '''' | JStr s \<Rightarrow> Some s | _ \<Rightarrow> None)"

definition dec_bool :: "json \<Rightarrow> bool option" where
  "dec_bool j = (case j of JNull \<Rightarrow> Some False | JBool b \<Rightarrow> Some b | _ \<Rightarrow> None)"

definition dec_int :: "json \<Rightarrow> int option" where
  "dec_int j = (case j of JNull \<Rightarrow> Some 0
     | JInt i \<Rightarrow> if int64_range i then Some i else None | _ \<Rightarrow> None)"

definition dec_u64 :: "json \<Rightarrow> u64 option" where
  "dec_u64 j = (case j of JNull \<Rightarrow> Some 0
     | JInt i \<Rightarrow> if 0 \<le> i \<and> i < 2 ^ 64 then Some (word_of_int i) else None | _ \<Rightarrow> None)"

definition dec_float :: "json \<Rightarrow> rat option" where
  "dec_float j = (case j of JNull \<Rightarrow> Some 0 | JInt i \<Rightarrow> Some (of_int i)
     | JFrac q \<Rightarrow> Some q | _ \<Rightarrow> None)"

definition dec_list :: "(json \<Rightarrow> 'a option) \<Rightarrow> json \<Rightarrow> 'a list option" where
  "dec_list dec j = (case j of JNull \<Rightarrow> Some [] | JArr js \<Rightarrow> opt_map dec js | _ \<Rightarrow> None)"

text \<open>A pointer field: \<open>null\<close> or an absent member is the nil pointer.\<close>

definition dec_ptr :: "(json \<Rightarrow> 'a option) \<Rightarrow> json \<Rightarrow> 'a option option" where
  "dec_ptr dec j = (case j of JNull \<Rightarrow> Some None | _ \<Rightarrow> map_option Some (dec j))"

definition dec_raw :: "json \<Rightarrow> json option option" where
  "dec_raw j = Some (Some j)"

subsection \<open>Writing\<close>

definition enc_u64 :: "u64 \<Rightarrow> json" where
  "enc_u64 w = JInt (uint w)"

definition enc_float :: "rat \<Rightarrow> json" where
  "enc_float q = (if of_int \<lfloor>q\<rfloor> = q then JInt \<lfloor>q\<rfloor> else JFrac q)"

text \<open>A nil slice is written \<open>null\<close> and an empty one \<open>[]\<close>; lists do not tell the two
  apart, and every reader takes both for the empty list, so \<open>null\<close> stands for both.\<close>

definition enc_list :: "('a \<Rightarrow> json) \<Rightarrow> 'a list \<Rightarrow> json" where
  "enc_list enc xs = (if xs = [] then JNull else JArr (map enc xs))"

definition omit_if :: "bool \<Rightarrow> string \<Rightarrow> json \<Rightarrow> members" where
  "omit_if zero k j = (if zero then [] else [(k, j)])"

subsection \<open>Round trips of the member codecs\<close>

lemma jlookup_append [simp]:
  "jlookup n (xs @ ys) = (case jlookup n ys of Some j \<Rightarrow> Some j | None \<Rightarrow> jlookup n xs)"
  by (induction xs) (auto split: option.splits)

lemma jlookup_omit [simp]:
  "jlookup n (omit_if z k j) = (if \<not> z \<and> fold_name k = fold_name n then Some j else None)"
  by (simp add: omit_if_def)

lemma fld_here: "jlookup n ms = Some j \<Longrightarrow> fld ms n dec zero = dec j"
  by (simp add: fld_def)

lemma fld_optional:
  "jlookup n ms = (if P then Some j else None) \<Longrightarrow> (P \<Longrightarrow> dec j = Some v) \<Longrightarrow> (\<not> P \<Longrightarrow> zero = v)
   \<Longrightarrow> fld ms n dec zero = Some v"
  by (cases P) (simp_all add: fld_def)

lemma fld_Nil [simp]: "fld [] n dec zero = Some zero"
  by (simp add: fld_def)

lemma fld_Cons:
  "fld ((k, j) # ms) n dec zero =
   (if fold_name k = fold_name n \<and> jlookup n ms = None then dec j else fld ms n dec zero)"
  by (simp add: fld_def split: option.splits)

lemma dec_enc_string [simp]: "dec_string (JStr s) = Some s"
  by (simp add: dec_string_def)

lemma dec_enc_bool [simp]: "dec_bool (JBool b) = Some b"
  by (simp add: dec_bool_def)

lemma dec_enc_int [simp]: "int64_range i \<Longrightarrow> dec_int (JInt i) = Some i"
  by (simp add: dec_int_def)

lemma dec_enc_u64 [simp]: "dec_u64 (enc_u64 w) = Some w"
  using uint_bounded [of w] by (simp add: dec_u64_def enc_u64_def)

lemma dec_enc_float [simp]: "dec_float (enc_float q) = Some q"
  by (simp add: dec_float_def enc_float_def)

lemma dec_int_zero [simp]: "dec_int (JInt 0) = Some 0"
  by (simp add: dec_int_def int64_range_def)

lemma dec_enc_list:
  "(\<And>x. x \<in> set xs \<Longrightarrow> dec (enc x) = Some x) \<Longrightarrow> dec_list dec (enc_list enc xs) = Some xs"
  by (simp add: dec_list_def enc_list_def opt_map_all)

lemma dec_enc_strings [simp]: "dec_list dec_string (enc_list JStr xs) = Some xs"
  by (rule dec_enc_list) simp

lemma dec_struct_obj [simp]: "dec_struct f zero (JObj ms) = f ms"
  by (simp add: dec_struct_def)

lemma dec_raw_Some [simp]: "dec_raw j = Some (Some j)"
  by (simp add: dec_raw_def)

end
