(* ===== verification/Protocol.thy ===== *)
theory Protocol
  imports Json
begin

text \<open>
  \<open>internal/protocol\<close>: the wire contract.  Every struct of \<open>messages.go\<close> and
  \<open>telemetry.go\<close> is a record with the struct's fields in order (prefixed by a short tag),
  each with its JSON writer \<open>enc_...\<close> and reader \<open>dec_...\<close> as the struct tags say.  The
  locale \<open>payload_codec\<close> is the contract between the code that builds a frame
  (\<open>NewEnvelope\<close>) and the code that opens it (\<open>DecodePayload\<close>); every message type
  interprets it.
\<close>

subsection \<open>telemetry.go\<close>

type_synonym profile = string

definition UDP :: profile where "UDP = ''udp''"
definition TCP :: profile where "TCP = ''tcp''"
definition ICMP :: profile where "ICMP = ''icmp''"

definition AllProfiles :: "profile list" where
  "AllProfiles = [UDP, TCP, ICMP]"

definition profile_Valid :: "profile \<Rightarrow> bool" where
  "profile_Valid p \<longleftrightarrow> p = UDP \<or> p = TCP \<or> p = ICMP"

definition profile_HasPorts :: "profile \<Rightarrow> bool" where
  "profile_HasPorts p \<longleftrightarrow> p = UDP \<or> p = TCP"

lemmas profile_defs = UDP_def TCP_def ICMP_def

lemma profiles_distinct [simp]:
  "UDP \<noteq> TCP" "TCP \<noteq> UDP" "UDP \<noteq> ICMP" "ICMP \<noteq> UDP" "TCP \<noteq> ICMP" "ICMP \<noteq> TCP"
  by (simp_all add: profile_defs)

record metric =
  m_Seq :: u64
  m_AgentID :: string
  m_PeerID :: string
  m_FlowID :: string
  m_Profile :: profile
  m_Target :: string
  m_TS :: int
  m_Success :: bool
  m_RTTMicros :: int
  m_PacketLoss :: rat
  m_TTL :: int
  m_LocalAddr :: string
  m_RemoteAddr :: string
  m_Err :: string

definition zero_metric :: metric where
  "zero_metric = \<lparr>m_Seq = 0, m_AgentID = '''', m_PeerID = '''', m_FlowID = '''', m_Profile = '''',
     m_Target = '''', m_TS = 0, m_Success = False, m_RTTMicros = 0, m_PacketLoss = 0, m_TTL = 0,
     m_LocalAddr = '''', m_RemoteAddr = '''', m_Err = ''''\<rparr>"

record telemetry_batch =
  tb_Metrics :: "metric list"
  tb_Replay :: bool

subsection \<open>messages.go: message types and the envelope\<close>

definition TypeRegister :: string where "TypeRegister = ''REGISTER''"
definition TypeTelemetry :: string where "TypeTelemetry = ''TELEMETRY''"
definition TypeDiagChunk :: string where "TypeDiagChunk = ''DIAG_CHUNK''"
definition TypeEvent :: string where "TypeEvent = ''EVENT''"
definition TypePortStatus :: string where "TypePortStatus = ''PORT_STATUS''"
definition TypeRegisterAck :: string where "TypeRegisterAck = ''REGISTER_ACK''"
definition TypeFlowPlan :: string where "TypeFlowPlan = ''FLOW_PLAN''"
definition TypeTestStart :: string where "TypeTestStart = ''TEST_START''"
definition TypeTestStop :: string where "TypeTestStop = ''TEST_STOP''"
definition TypeDiagRequest :: string where "TypeDiagRequest = ''DIAG_REQUEST''"
definition TypePing :: string where "TypePing = ''PING''"
definition TypePong :: string where "TypePong = ''PONG''"

lemmas message_type_defs =
  TypeRegister_def TypeTelemetry_def TypeDiagChunk_def TypeEvent_def TypePortStatus_def
  TypeRegisterAck_def TypeFlowPlan_def TypeTestStart_def TypeTestStop_def TypeDiagRequest_def
  TypePing_def TypePong_def

record envelope =
  en_Type :: string
  en_Seq :: u64
  en_AgentID :: string
  en_SentMS :: int
  en_Payload :: "json option"

text \<open>\<open>NewEnvelope\<close>: marshalling the structs below never fails, so the error return is not
  reachable; a nil value gives no payload.\<close>

definition NewEnvelope :: "string \<Rightarrow> string \<Rightarrow> u64 \<Rightarrow> int \<Rightarrow> json option \<Rightarrow> envelope" where
  "NewEnvelope t agent seq sent v =
     \<lparr>en_Type = t, en_Seq = seq, en_AgentID = agent, en_SentMS = sent, en_Payload = v\<rparr>"

definition DecodePayload :: "(json \<Rightarrow> 'a option) \<Rightarrow> envelope \<Rightarrow> 'a option" where
  "DecodePayload dec e = (case en_Payload e of None \<Rightarrow> None | Some j \<Rightarrow> dec j)"

definition zero_envelope :: envelope where
  "zero_envelope = \<lparr>en_Type = '''', en_Seq = 0, en_AgentID = '''', en_SentMS = 0, en_Payload = None\<rparr>"

definition enc_envelope :: "envelope \<Rightarrow> json" where
  "enc_envelope e = JObj
     ([(''type'', JStr (en_Type e)), (''seq'', enc_u64 (en_Seq e)),
       (''agentId'', JStr (en_AgentID e)), (''sentMs'', JInt (en_SentMS e))]
      @ (case en_Payload e of None \<Rightarrow> [] | Some j \<Rightarrow> [(''payload'', j)]))"

definition dec_envelope :: "json \<Rightarrow> envelope option" where
  "dec_envelope = dec_struct (\<lambda>ms. do {
     t \<leftarrow> fld ms ''type'' dec_string '''';
     s \<leftarrow> fld ms ''seq'' dec_u64 0;
     a \<leftarrow> fld ms ''agentId'' dec_string '''';
     i \<leftarrow> fld ms ''sentMs'' dec_int 0;
     p \<leftarrow> fld ms ''payload'' dec_raw None;
     Some \<lparr>en_Type = t, en_Seq = s, en_AgentID = a, en_SentMS = i, en_Payload = p\<rparr>}) zero_envelope"

text \<open>The member names up to case, evaluated once for all codecs.\<close>

lemma member_names [simp]:
  "fold_name ''seq'' = ''seq''" "fold_name ''agentId'' = ''agentid''" "fold_name ''peerId'' = ''peerid''"
  "fold_name ''flowId'' = ''flowid''" "fold_name ''profile'' = ''profile''"
  "fold_name ''target'' = ''target''" "fold_name ''ts'' = ''ts''" "fold_name ''success'' = ''success''"
  "fold_name ''rttUs'' = ''rttus''" "fold_name ''lossPct'' = ''losspct''" "fold_name ''ttl'' = ''ttl''"
  "fold_name ''localAddr'' = ''localaddr''" "fold_name ''remoteAddr'' = ''remoteaddr''"
  "fold_name ''err'' = ''err''" "fold_name ''type'' = ''type''" "fold_name ''sentMs'' = ''sentms''"
  "fold_name ''payload'' = ''payload''" "fold_name ''metrics'' = ''metrics''"
  "fold_name ''replay'' = ''replay''" "fold_name ''hostname'' = ''hostname''"
  "fold_name ''version'' = ''version''" "fold_name ''dataPort'' = ''dataport''"
  "fold_name ''resumeSeq'' = ''resumeseq''" "fold_name ''accepted'' = ''accepted''"
  "fold_name ''reason'' = ''reason''" "fold_name ''port'' = ''port''" "fold_name ''udp'' = ''udp''"
  "fold_name ''tcp'' = ''tcp''" "fold_name ''id'' = ''id''" "fold_name ''srcPort'' = ''srcport''"
  "fold_name ''protocol'' = ''protocol''" "fold_name ''dstAgent'' = ''dstagent''"
  "fold_name ''dstAddr'' = ''dstaddr''" "fold_name ''dstPort'' = ''dstport''"
  "fold_name ''epoch'' = ''epoch''" "fold_name ''listenPorts'' = ''listenports''"
  "fold_name ''flows'' = ''flows''" "fold_name ''runId'' = ''runid''"
  "fold_name ''intervalMs'' = ''intervalms''" "fold_name ''payloadSize'' = ''payloadsize''"
  "fold_name ''count'' = ''count''" "fold_name ''ports'' = ''ports''"
  "fold_name ''requestId'' = ''requestid''" "fold_name ''command'' = ''command''"
  "fold_name ''args'' = ''args''" "fold_name ''stream'' = ''stream''" "fold_name ''data'' = ''data''"
  "fold_name ''eof'' = ''eof''" "fold_name ''exitCode'' = ''exitcode''"
  by (simp_all add: fold_name_def)

lemma dec_enc_envelope:
  "int64_range (en_SentMS e) \<Longrightarrow> dec_envelope (enc_envelope e) = Some e"
  by (cases "en_Payload e") (simp_all add: dec_envelope_def enc_envelope_def fld_def)

lemma NewEnvelope_sel [simp]:
  "en_Type (NewEnvelope t a s i v) = t" "en_Seq (NewEnvelope t a s i v) = s"
  "en_AgentID (NewEnvelope t a s i v) = a" "en_SentMS (NewEnvelope t a s i v) = i"
  "en_Payload (NewEnvelope t a s i v) = v"
  by (simp_all add: NewEnvelope_def)

subsection \<open>The codec contract\<close>

locale payload_codec =
  fixes enc :: "'a \<Rightarrow> json" and dec :: "json \<Rightarrow> 'a option" and ok :: "'a \<Rightarrow> bool"
  assumes dec_enc: "ok x \<Longrightarrow> dec (enc x) = Some x"
begin

lemma open_new: "ok x \<Longrightarrow> DecodePayload dec (NewEnvelope t a s i (Some (enc x))) = Some x"
  by (simp add: DecodePayload_def dec_enc)

text \<open>What one side packs, the other side unpacks, through the framing.\<close>

lemma over_the_wire:
  assumes "ok x" and "int64_range i"
  shows "Option.bind (dec_envelope (enc_envelope (NewEnvelope t a s i (Some (enc x)))))
           (DecodePayload dec) = Some x"
  using assms by (simp add: dec_enc_envelope open_new)

lemma list_roundtrip: "(\<forall>x \<in> set xs. ok x) \<Longrightarrow> dec_list dec (enc_list enc xs) = Some xs"
  by (rule dec_enc_list) (simp add: dec_enc)

end

subsection \<open>messages.go: the payload structs\<close>

record register =
  rg_AgentID :: string
  rg_Hostname :: string
  rg_Version :: string
  rg_DataPort :: int
  rg_ResumeSeq :: u64

record register_ack =
  ra_AgentID :: string
  ra_Accepted :: bool
  ra_Reason :: string

record listen_port =
  lp_Port :: int
  lp_UDP :: bool
  lp_TCP :: bool

record agent_flow =
  af_ID :: string
  af_SrcPort :: int
  af_Protocol :: profile
  af_DstAgent :: string
  af_DstAddr :: string
  af_DstPort :: int

record flow_plan =
  fp_Epoch :: u64
  fp_ListenPorts :: "listen_port list"
  fp_Flows :: "agent_flow list"

record test_spec =
  ts_RunID :: string
  ts_IntervalMS :: int
  ts_PayloadSize :: int
  ts_Count :: int

record port_status =
  ps_Port :: int
  ps_UDP :: bool
  ps_TCP :: bool
  ps_Err :: string

record port_report =
  pr_AgentID :: string
  pr_Ports :: "port_status list"

record diag_request =
  dr_RequestID :: string
  dr_Command :: string
  dr_Args :: "string list"

record diag_chunk =
  dc_RequestID :: string
  dc_Stream :: string
  dc_Data :: string
  dc_EOF :: bool
  dc_ExitCode :: int
  dc_Err :: string

subsection \<open>Their JSON form\<close>

definition enc_metric :: "metric \<Rightarrow> json" where
  "enc_metric m = JObj
     ([(''seq'', enc_u64 (m_Seq m)), (''agentId'', JStr (m_AgentID m)), (''peerId'', JStr (m_PeerID m))]
      @ omit_if (m_FlowID m = '''') ''flowId'' (JStr (m_FlowID m))
      @ [(''profile'', JStr (m_Profile m)), (''target'', JStr (m_Target m)), (''ts'', JInt (m_TS m)),
         (''success'', JBool (m_Success m)), (''rttUs'', JInt (m_RTTMicros m)),
         (''lossPct'', enc_float (m_PacketLoss m))]
      @ omit_if (m_TTL m = 0) ''ttl'' (JInt (m_TTL m))
      @ omit_if (m_LocalAddr m = '''') ''localAddr'' (JStr (m_LocalAddr m))
      @ omit_if (m_RemoteAddr m = '''') ''remoteAddr'' (JStr (m_RemoteAddr m))
      @ omit_if (m_Err m = '''') ''err'' (JStr (m_Err m)))"

definition dec_metric :: "json \<Rightarrow> metric option" where
  "dec_metric = dec_struct (\<lambda>ms. do {
     sq \<leftarrow> fld ms ''seq'' dec_u64 0;
     ag \<leftarrow> fld ms ''agentId'' dec_string '''';
     pe \<leftarrow> fld ms ''peerId'' dec_string '''';
     fl \<leftarrow> fld ms ''flowId'' dec_string '''';
     pf \<leftarrow> fld ms ''profile'' dec_string '''';
     tg \<leftarrow> fld ms ''target'' dec_string '''';
     t \<leftarrow> fld ms ''ts'' dec_int 0;
     sc \<leftarrow> fld ms ''success'' dec_bool False;
     rt \<leftarrow> fld ms ''rttUs'' dec_int 0;
     ls \<leftarrow> fld ms ''lossPct'' dec_float 0;
     tl \<leftarrow> fld ms ''ttl'' dec_int 0;
     la \<leftarrow> fld ms ''localAddr'' dec_string '''';
     ra \<leftarrow> fld ms ''remoteAddr'' dec_string '''';
     er \<leftarrow> fld ms ''err'' dec_string '''';
     Some \<lparr>m_Seq = sq, m_AgentID = ag, m_PeerID = pe, m_FlowID = fl, m_Profile = pf,
       m_Target = tg, m_TS = t, m_Success = sc, m_RTTMicros = rt, m_PacketLoss = ls, m_TTL = tl,
       m_LocalAddr = la, m_RemoteAddr = ra, m_Err = er\<rparr>}) zero_metric"

definition metric_ok :: "metric \<Rightarrow> bool" where
  "metric_ok m \<longleftrightarrow> int64_range (m_TS m) \<and> int64_range (m_RTTMicros m) \<and> int64_range (m_TTL m)"

interpretation metric_wire: payload_codec enc_metric dec_metric metric_ok
proof
  fix m assume "metric_ok m"
  then show "dec_metric (enc_metric m) = Some m"
    by (simp add: metric_ok_def dec_metric_def enc_metric_def fld_def)
qed

definition zero_batch :: telemetry_batch where
  "zero_batch = \<lparr>tb_Metrics = [], tb_Replay = False\<rparr>"

definition enc_batch :: "telemetry_batch \<Rightarrow> json" where
  "enc_batch b = JObj [(''metrics'', enc_list enc_metric (tb_Metrics b)), (''replay'', JBool (tb_Replay b))]"

definition dec_batch :: "json \<Rightarrow> telemetry_batch option" where
  "dec_batch = dec_struct (\<lambda>ms. do {
     mt \<leftarrow> fld ms ''metrics'' (dec_list dec_metric) [];
     rp \<leftarrow> fld ms ''replay'' dec_bool False;
     Some \<lparr>tb_Metrics = mt, tb_Replay = rp\<rparr>}) zero_batch"

definition batch_ok :: "telemetry_batch \<Rightarrow> bool" where
  "batch_ok b \<longleftrightarrow> (\<forall>m \<in> set (tb_Metrics b). metric_ok m)"

interpretation batch_wire: payload_codec enc_batch dec_batch batch_ok
  by unfold_locales (simp add: batch_ok_def dec_batch_def enc_batch_def fld_def metric_wire.list_roundtrip)

definition zero_register :: register where
  "zero_register = \<lparr>rg_AgentID = '''', rg_Hostname = '''', rg_Version = '''', rg_DataPort = 0, rg_ResumeSeq = 0\<rparr>"

definition enc_register :: "register \<Rightarrow> json" where
  "enc_register r = JObj [(''agentId'', JStr (rg_AgentID r)), (''hostname'', JStr (rg_Hostname r)),
     (''version'', JStr (rg_Version r)), (''dataPort'', JInt (rg_DataPort r)),
     (''resumeSeq'', enc_u64 (rg_ResumeSeq r))]"

definition dec_register :: "json \<Rightarrow> register option" where
  "dec_register = dec_struct (\<lambda>ms. do {
     a \<leftarrow> fld ms ''agentId'' dec_string '''';
     h \<leftarrow> fld ms ''hostname'' dec_string '''';
     v \<leftarrow> fld ms ''version'' dec_string '''';
     d \<leftarrow> fld ms ''dataPort'' dec_int 0;
     s \<leftarrow> fld ms ''resumeSeq'' dec_u64 0;
     Some \<lparr>rg_AgentID = a, rg_Hostname = h, rg_Version = v, rg_DataPort = d, rg_ResumeSeq = s\<rparr>}) zero_register"

definition register_ok :: "register \<Rightarrow> bool" where
  "register_ok r \<longleftrightarrow> int64_range (rg_DataPort r)"

interpretation register_wire: payload_codec enc_register dec_register register_ok
  by unfold_locales (simp add: register_ok_def dec_register_def enc_register_def fld_def)

definition zero_register_ack :: register_ack where
  "zero_register_ack = \<lparr>ra_AgentID = '''', ra_Accepted = False, ra_Reason = ''''\<rparr>"

definition enc_register_ack :: "register_ack \<Rightarrow> json" where
  "enc_register_ack r = JObj ([(''agentId'', JStr (ra_AgentID r)), (''accepted'', JBool (ra_Accepted r))]
     @ omit_if (ra_Reason r = '''') ''reason'' (JStr (ra_Reason r)))"

definition dec_register_ack :: "json \<Rightarrow> register_ack option" where
  "dec_register_ack = dec_struct (\<lambda>ms. do {
     a \<leftarrow> fld ms ''agentId'' dec_string '''';
     c \<leftarrow> fld ms ''accepted'' dec_bool False;
     r \<leftarrow> fld ms ''reason'' dec_string '''';
     Some \<lparr>ra_AgentID = a, ra_Accepted = c, ra_Reason = r\<rparr>}) zero_register_ack"

interpretation register_ack_wire: payload_codec enc_register_ack dec_register_ack "\<lambda>_. True"
  by unfold_locales (simp add: dec_register_ack_def enc_register_ack_def fld_def)

definition zero_listen_port :: listen_port where
  "zero_listen_port = \<lparr>lp_Port = 0, lp_UDP = False, lp_TCP = False\<rparr>"

definition enc_listen_port :: "listen_port \<Rightarrow> json" where
  "enc_listen_port p = JObj [(''port'', JInt (lp_Port p)), (''udp'', JBool (lp_UDP p)), (''tcp'', JBool (lp_TCP p))]"

definition dec_listen_port :: "json \<Rightarrow> listen_port option" where
  "dec_listen_port = dec_struct (\<lambda>ms. do {
     p \<leftarrow> fld ms ''port'' dec_int 0;
     u \<leftarrow> fld ms ''udp'' dec_bool False;
     t \<leftarrow> fld ms ''tcp'' dec_bool False;
     Some \<lparr>lp_Port = p, lp_UDP = u, lp_TCP = t\<rparr>}) zero_listen_port"

definition listen_port_ok :: "listen_port \<Rightarrow> bool" where
  "listen_port_ok p \<longleftrightarrow> int64_range (lp_Port p)"

interpretation listen_port_wire: payload_codec enc_listen_port dec_listen_port listen_port_ok
  by unfold_locales (simp add: listen_port_ok_def dec_listen_port_def enc_listen_port_def fld_def)

definition zero_agent_flow :: agent_flow where
  "zero_agent_flow = \<lparr>af_ID = '''', af_SrcPort = 0, af_Protocol = '''', af_DstAgent = '''',
     af_DstAddr = '''', af_DstPort = 0\<rparr>"

definition enc_agent_flow :: "agent_flow \<Rightarrow> json" where
  "enc_agent_flow f = JObj [(''id'', JStr (af_ID f)), (''srcPort'', JInt (af_SrcPort f)),
     (''protocol'', JStr (af_Protocol f)), (''dstAgent'', JStr (af_DstAgent f)),
     (''dstAddr'', JStr (af_DstAddr f)), (''dstPort'', JInt (af_DstPort f))]"

definition dec_agent_flow :: "json \<Rightarrow> agent_flow option" where
  "dec_agent_flow = dec_struct (\<lambda>ms. do {
     i \<leftarrow> fld ms ''id'' dec_string '''';
     s \<leftarrow> fld ms ''srcPort'' dec_int 0;
     p \<leftarrow> fld ms ''protocol'' dec_string '''';
     a \<leftarrow> fld ms ''dstAgent'' dec_string '''';
     d \<leftarrow> fld ms ''dstAddr'' dec_string '''';
     q \<leftarrow> fld ms ''dstPort'' dec_int 0;
     Some \<lparr>af_ID = i, af_SrcPort = s, af_Protocol = p, af_DstAgent = a, af_DstAddr = d, af_DstPort = q\<rparr>})
     zero_agent_flow"

definition agent_flow_ok :: "agent_flow \<Rightarrow> bool" where
  "agent_flow_ok f \<longleftrightarrow> int64_range (af_SrcPort f) \<and> int64_range (af_DstPort f)"

interpretation agent_flow_wire: payload_codec enc_agent_flow dec_agent_flow agent_flow_ok
  by unfold_locales (simp add: agent_flow_ok_def dec_agent_flow_def enc_agent_flow_def fld_def)

definition zero_flow_plan :: flow_plan where
  "zero_flow_plan = \<lparr>fp_Epoch = 0, fp_ListenPorts = [], fp_Flows = []\<rparr>"

definition enc_flow_plan :: "flow_plan \<Rightarrow> json" where
  "enc_flow_plan p = JObj [(''epoch'', enc_u64 (fp_Epoch p)),
     (''listenPorts'', enc_list enc_listen_port (fp_ListenPorts p)),
     (''flows'', enc_list enc_agent_flow (fp_Flows p))]"

definition dec_flow_plan :: "json \<Rightarrow> flow_plan option" where
  "dec_flow_plan = dec_struct (\<lambda>ms. do {
     e \<leftarrow> fld ms ''epoch'' dec_u64 0;
     l \<leftarrow> fld ms ''listenPorts'' (dec_list dec_listen_port) [];
     f \<leftarrow> fld ms ''flows'' (dec_list dec_agent_flow) [];
     Some \<lparr>fp_Epoch = e, fp_ListenPorts = l, fp_Flows = f\<rparr>}) zero_flow_plan"

definition flow_plan_ok :: "flow_plan \<Rightarrow> bool" where
  "flow_plan_ok p \<longleftrightarrow> (\<forall>l \<in> set (fp_ListenPorts p). listen_port_ok l) \<and> (\<forall>f \<in> set (fp_Flows p). agent_flow_ok f)"

interpretation flow_plan_wire: payload_codec enc_flow_plan dec_flow_plan flow_plan_ok
  by unfold_locales (simp add: flow_plan_ok_def dec_flow_plan_def enc_flow_plan_def fld_def
      listen_port_wire.list_roundtrip agent_flow_wire.list_roundtrip)

definition zero_test_spec :: test_spec where
  "zero_test_spec = \<lparr>ts_RunID = '''', ts_IntervalMS = 0, ts_PayloadSize = 0, ts_Count = 0\<rparr>"

definition enc_test_spec :: "test_spec \<Rightarrow> json" where
  "enc_test_spec s = JObj [(''runId'', JStr (ts_RunID s)), (''intervalMs'', JInt (ts_IntervalMS s)),
     (''payloadSize'', JInt (ts_PayloadSize s)), (''count'', JInt (ts_Count s))]"

definition dec_test_spec :: "json \<Rightarrow> test_spec option" where
  "dec_test_spec = dec_struct (\<lambda>ms. do {
     r \<leftarrow> fld ms ''runId'' dec_string '''';
     i \<leftarrow> fld ms ''intervalMs'' dec_int 0;
     p \<leftarrow> fld ms ''payloadSize'' dec_int 0;
     c \<leftarrow> fld ms ''count'' dec_int 0;
     Some \<lparr>ts_RunID = r, ts_IntervalMS = i, ts_PayloadSize = p, ts_Count = c\<rparr>}) zero_test_spec"

definition test_spec_ok :: "test_spec \<Rightarrow> bool" where
  "test_spec_ok s \<longleftrightarrow> int64_range (ts_IntervalMS s) \<and> int64_range (ts_PayloadSize s) \<and> int64_range (ts_Count s)"

interpretation test_spec_wire: payload_codec enc_test_spec dec_test_spec test_spec_ok
  by unfold_locales (simp add: test_spec_ok_def dec_test_spec_def enc_test_spec_def fld_def)

definition zero_port_status :: port_status where
  "zero_port_status = \<lparr>ps_Port = 0, ps_UDP = False, ps_TCP = False, ps_Err = ''''\<rparr>"

definition enc_port_status :: "port_status \<Rightarrow> json" where
  "enc_port_status p = JObj ([(''port'', JInt (ps_Port p)), (''udp'', JBool (ps_UDP p)), (''tcp'', JBool (ps_TCP p))]
     @ omit_if (ps_Err p = '''') ''err'' (JStr (ps_Err p)))"

definition dec_port_status :: "json \<Rightarrow> port_status option" where
  "dec_port_status = dec_struct (\<lambda>ms. do {
     p \<leftarrow> fld ms ''port'' dec_int 0;
     u \<leftarrow> fld ms ''udp'' dec_bool False;
     t \<leftarrow> fld ms ''tcp'' dec_bool False;
     e \<leftarrow> fld ms ''err'' dec_string '''';
     Some \<lparr>ps_Port = p, ps_UDP = u, ps_TCP = t, ps_Err = e\<rparr>}) zero_port_status"

definition port_status_ok :: "port_status \<Rightarrow> bool" where
  "port_status_ok p \<longleftrightarrow> int64_range (ps_Port p)"

interpretation port_status_wire: payload_codec enc_port_status dec_port_status port_status_ok
  by unfold_locales (simp add: port_status_ok_def dec_port_status_def enc_port_status_def fld_def)

definition zero_port_report :: port_report where
  "zero_port_report = \<lparr>pr_AgentID = '''', pr_Ports = []\<rparr>"

definition enc_port_report :: "port_report \<Rightarrow> json" where
  "enc_port_report r = JObj [(''agentId'', JStr (pr_AgentID r)), (''ports'', enc_list enc_port_status (pr_Ports r))]"

definition dec_port_report :: "json \<Rightarrow> port_report option" where
  "dec_port_report = dec_struct (\<lambda>ms. do {
     a \<leftarrow> fld ms ''agentId'' dec_string '''';
     p \<leftarrow> fld ms ''ports'' (dec_list dec_port_status) [];
     Some \<lparr>pr_AgentID = a, pr_Ports = p\<rparr>}) zero_port_report"

definition port_report_ok :: "port_report \<Rightarrow> bool" where
  "port_report_ok r \<longleftrightarrow> (\<forall>p \<in> set (pr_Ports r). port_status_ok p)"

interpretation port_report_wire: payload_codec enc_port_report dec_port_report port_report_ok
  by unfold_locales (simp add: port_report_ok_def dec_port_report_def enc_port_report_def fld_def
      port_status_wire.list_roundtrip)

definition zero_diag_request :: diag_request where
  "zero_diag_request = \<lparr>dr_RequestID = '''', dr_Command = '''', dr_Args = []\<rparr>"

definition enc_diag_request :: "diag_request \<Rightarrow> json" where
  "enc_diag_request r = JObj [(''requestId'', JStr (dr_RequestID r)), (''command'', JStr (dr_Command r)),
     (''args'', enc_list JStr (dr_Args r))]"

definition dec_diag_request :: "json \<Rightarrow> diag_request option" where
  "dec_diag_request = dec_struct (\<lambda>ms. do {
     i \<leftarrow> fld ms ''requestId'' dec_string '''';
     c \<leftarrow> fld ms ''command'' dec_string '''';
     a \<leftarrow> fld ms ''args'' (dec_list dec_string) [];
     Some \<lparr>dr_RequestID = i, dr_Command = c, dr_Args = a\<rparr>}) zero_diag_request"

interpretation diag_request_wire: payload_codec enc_diag_request dec_diag_request "\<lambda>_. True"
  by unfold_locales (simp add: dec_diag_request_def enc_diag_request_def fld_def)

definition zero_diag_chunk :: diag_chunk where
  "zero_diag_chunk = \<lparr>dc_RequestID = '''', dc_Stream = '''', dc_Data = '''', dc_EOF = False,
     dc_ExitCode = 0, dc_Err = ''''\<rparr>"

definition enc_diag_chunk :: "diag_chunk \<Rightarrow> json" where
  "enc_diag_chunk c = JObj ([(''requestId'', JStr (dc_RequestID c)), (''stream'', JStr (dc_Stream c)),
     (''data'', JStr (dc_Data c)), (''eof'', JBool (dc_EOF c))]
     @ omit_if (dc_ExitCode c = 0) ''exitCode'' (JInt (dc_ExitCode c))
     @ omit_if (dc_Err c = '''') ''err'' (JStr (dc_Err c)))"

definition dec_diag_chunk :: "json \<Rightarrow> diag_chunk option" where
  "dec_diag_chunk = dec_struct (\<lambda>ms. do {
     i \<leftarrow> fld ms ''requestId'' dec_string '''';
     s \<leftarrow> fld ms ''stream'' dec_string '''';
     d \<leftarrow> fld ms ''data'' dec_string '''';
     e \<leftarrow> fld ms ''eof'' dec_bool False;
     x \<leftarrow> fld ms ''exitCode'' dec_int 0;
     r \<leftarrow> fld ms ''err'' dec_string '''';
     Some \<lparr>dc_RequestID = i, dc_Stream = s, dc_Data = d, dc_EOF = e, dc_ExitCode = x, dc_Err = r\<rparr>})
     zero_diag_chunk"

definition diag_chunk_ok :: "diag_chunk \<Rightarrow> bool" where
  "diag_chunk_ok c \<longleftrightarrow> int64_range (dc_ExitCode c)"

interpretation diag_chunk_wire: payload_codec enc_diag_chunk dec_diag_chunk diag_chunk_ok
  by unfold_locales (simp add: diag_chunk_ok_def dec_diag_chunk_def enc_diag_chunk_def fld_def)

subsection \<open>Frames survive the wire\<close>

definition small_plan :: flow_plan where
  "small_plan = \<lparr>fp_Epoch = 7,
     fp_ListenPorts = [\<lparr>lp_Port = 4400, lp_UDP = True, lp_TCP = False\<rparr>],
     fp_Flows = [\<lparr>af_ID = ''f1'', af_SrcPort = 4400, af_Protocol = UDP, af_DstAgent = ''b'',
       af_DstAddr = ''10.0.0.2:4400'', af_DstPort = 4400\<rparr>]\<rparr>"

text \<open>
  A flow plan that NewEnvelope packs into a FLOW_PLAN frame with any sequence number, sender
  and send time is what DecodePayload gives after the frame has been written to JSON and read
  back: no port, flow, address or epoch is lost or changed by the struct tags of either side.
\<close>

theorem flow_plan_roundtrip:
  assumes "flow_plan_ok p" and "int64_range sent"
  shows "Option.bind (dec_envelope (enc_envelope
           (NewEnvelope TypeFlowPlan agent seq sent (Some (enc_flow_plan p)))))
         (DecodePayload dec_flow_plan) = Some p"
  using assms by (rule flow_plan_wire.over_the_wire)

theorem flow_plan_roundtrip_witness:
  "Option.bind (dec_envelope (enc_envelope
     (NewEnvelope TypeFlowPlan ''ctrl'' 42 1700000000000 (Some (enc_flow_plan small_plan)))))
   (DecodePayload dec_flow_plan) = Some small_plan"
  by (rule flow_plan_roundtrip)
    (simp_all add: flow_plan_ok_def listen_port_ok_def agent_flow_ok_def small_plan_def int64_range_def)

text \<open>
  A telemetry batch survives the same trip, replay flag included: every metric comes back
  with its sequence number, identity, measurements and the optional fields that omitempty left
  out when they were zero.
\<close>

theorem telemetry_roundtrip:
  assumes "batch_ok b" and "int64_range sent"
  shows "Option.bind (dec_envelope (enc_envelope
           (NewEnvelope TypeTelemetry agent seq sent (Some (enc_batch b)))))
         (DecodePayload dec_batch) = Some b"
  using assms by (rule batch_wire.over_the_wire)

theorem telemetry_roundtrip_witness:
  "Option.bind (dec_envelope (enc_envelope (NewEnvelope TypeTelemetry ''a'' 9 5 (Some (enc_batch
     \<lparr>tb_Metrics = [zero_metric\<lparr>m_Seq := 3, m_PacketLoss := 5/2\<rparr>], tb_Replay = True\<rparr>)))))
   (DecodePayload dec_batch) =
   Some \<lparr>tb_Metrics = [zero_metric\<lparr>m_Seq := 3, m_PacketLoss := 5/2\<rparr>], tb_Replay = True\<rparr>"
  by (rule telemetry_roundtrip) (simp_all add: batch_ok_def metric_ok_def zero_metric_def int64_range_def)

end
