(* ===== verification/Pump.thy ===== *)
theory Pump
  imports Protocol "HOL-Library.Multiset"
begin

text \<open>
  \<open>internal/transport/pump.go\<close>: one websocket connection with its read pump and write pump.
  The peer is a record; every stretch of code between two blocking points is one function on it,
  and \<open>pump_step\<close> lets the goroutines take these steps in any order.  Beside the
  fields of the Go struct the record holds the senders blocked in \<open>Send\<close>, whether each pump
  runs, whether \<open>conn.Close()\<close> has been called, the frames written to the connection and the
  envelopes handed to \<open>onMessage\<close>, which is taken to return.
  The network's answers (a frame, malformed data, an error) and the clock are inputs.
\<close>

definition sendBuffer :: nat where
  "sendBuffer = 256"

definition pingPeriod :: int where
  "pingPeriod = 10 * 10 ^ 9"

definition pongWait :: int where
  "pongWait = 15 * 10 ^ 9"

datatype pump_state = NotStarted | Running | Exited

record peer =
  pe_localID :: string
  pe_send :: "json list"
  pe_done :: bool
  pe_seq :: u64
  pe_lastPingNS :: int
  pe_rttMicros :: int
  pe_framesRx :: u64
  pe_framesTx :: u64
  pe_cause :: "string option"
  pe_blocked :: "json list"
  pe_pong :: "json option"
  pe_writer :: pump_state
  pe_reader :: pump_state
  pe_connClosed :: bool
  pe_wire :: "json list"
  pe_inbox :: "envelope list"

definition NewPeer :: "string \<Rightarrow> peer" where
  "NewPeer local = \<lparr>pe_localID = local, pe_send = [], pe_done = False, pe_seq = 0, pe_lastPingNS = 0,
     pe_rttMicros = 0, pe_framesRx = 0, pe_framesTx = 0, pe_cause = None, pe_blocked = [],
     pe_pong = None, pe_writer = NotStarted, pe_reader = Running, pe_connClosed = False, pe_wire = [],
     pe_inbox = []\<rparr>"

text \<open>Times are Unix nanoseconds; \<open>UnixMilli\<close> is an \<open>int64\<close>.\<close>

definition unix_ms :: "int \<Rightarrow> int" where
  "unix_ms now = wrap64 (now div 1000000)"

subsection \<open>shutdown\<close>

definition shutdown :: "string option \<Rightarrow> peer \<Rightarrow> peer" where
  "shutdown cause p =
     (if pe_done p then p
      else case cause of None \<Rightarrow> p\<lparr>pe_done := True\<rparr>
           | Some e \<Rightarrow> p\<lparr>pe_cause := Some e, pe_done := True\<rparr>)"

definition peer_Close :: "peer \<Rightarrow> peer" where
  "peer_Close p = shutdown None p"

definition Cause :: "peer \<Rightarrow> string option" where
  "Cause p = pe_cause p"

definition causeString :: "string option \<Rightarrow> string" where
  "causeString c = (case c of None \<Rightarrow> ''clean close'' | Some e \<Rightarrow> e)"

subsection \<open>Send\<close>

text \<open>The part of \<open>Send\<close> before the \<open>select\<close>: the next number and the frame.\<close>

definition stamp :: "int \<Rightarrow> string \<Rightarrow> json option \<Rightarrow> peer \<Rightarrow> json \<times> peer" where
  "stamp now t v p =
     (let n = pe_seq p + 1 in
      (enc_envelope (NewEnvelope t (pe_localID p) n (unix_ms now) v), p\<lparr>pe_seq := n\<rparr>))"

datatype send_result = SendOk | SendClosed | SendBlocked

text \<open>\<open>pick\<close> is the choice of the \<open>select\<close> when the peer is closing and the queue has room.\<close>

definition enqueue :: "bool \<Rightarrow> json \<Rightarrow> peer \<Rightarrow> send_result \<times> peer" where
  "enqueue pick b p =
     (if pe_done p \<and> (pick \<or> sendBuffer \<le> length (pe_send p)) then (SendClosed, p)
      else if length (pe_send p) < sendBuffer then (SendOk, p\<lparr>pe_send := pe_send p @ [b]\<rparr>)
      else (SendBlocked, p))"

definition Send :: "bool \<Rightarrow> int \<Rightarrow> string \<Rightarrow> json option \<Rightarrow> peer \<Rightarrow> send_result \<times> peer" where
  "Send pick now t v p =
     (case stamp now t v p of (b, p1) \<Rightarrow>
        case enqueue pick b p1 of
          (SendBlocked, p2) \<Rightarrow> (SendBlocked, p2\<lparr>pe_blocked := b # pe_blocked p2\<rparr>)
        | r \<Rightarrow> r)"

text \<open>A blocked sender is woken by room in the queue or by the closing peer.\<close>

definition retry :: "bool \<Rightarrow> json \<Rightarrow> peer \<Rightarrow> send_result \<times> peer" where
  "retry pick b p =
     (case enqueue pick b p of
        (SendBlocked, p1) \<Rightarrow> (SendBlocked, p1)
      | (r, p1) \<Rightarrow> (r, p1\<lparr>pe_blocked := remove1 b (pe_blocked p1)\<rparr>))"

subsection \<open>writePump\<close>

definition pingFrame :: "int \<Rightarrow> peer \<Rightarrow> json \<times> peer" where
  "pingFrame now p = stamp now TypePing None p"

text \<open>\<open>werr\<close> is the error of the connection's write, if any.\<close>

definition writeFrame :: "string option \<Rightarrow> json \<Rightarrow> peer \<Rightarrow> string option \<times> peer" where
  "writeFrame werr b p =
     (case werr of Some e \<Rightarrow> (Some e, p)
      | None \<Rightarrow> (None, p\<lparr>pe_wire := pe_wire p @ [b], pe_framesTx := pe_framesTx p + 1\<rparr>))"

definition sendPing :: "int \<Rightarrow> string option \<Rightarrow> peer \<Rightarrow> string option \<times> peer" where
  "sendPing now werr p =
     (case pingFrame now p of (b, p1) \<Rightarrow> writeFrame werr b (p1\<lparr>pe_lastPingNS := now\<rparr>))"

text \<open>Whenever the pump returns, the deferred \<open>conn.Close()\<close> runs.\<close>

definition writer_returns :: "peer \<Rightarrow> peer" where
  "writer_returns p = p\<lparr>pe_writer := Exited, pe_connClosed := True\<rparr>"

text \<open>An error ends the pump: \<open>shutdown(err)\<close>.\<close>

definition write_result :: "string option \<times> peer \<Rightarrow> peer" where
  "write_result r =
     (case r of (None, p) \<Rightarrow> p\<lparr>pe_writer := Running\<rparr>
      | (Some e, p) \<Rightarrow> writer_returns (shutdown (Some e) p))"

definition write_ping :: "int \<Rightarrow> string option \<Rightarrow> peer \<Rightarrow> peer" where
  "write_ping now werr p = write_result (sendPing now werr p)"

definition write_next :: "string option \<Rightarrow> peer \<Rightarrow> peer" where
  "write_next werr p =
     (case pe_send p of [] \<Rightarrow> p
      | b # bs \<Rightarrow> write_result (writeFrame werr b (p\<lparr>pe_send := bs\<rparr>)))"

definition write_done :: "peer \<Rightarrow> peer" where
  "write_done p = (if pe_done p then writer_returns p else p)"

subsection \<open>readPump and Run\<close>

text \<open>When \<open>readPump\<close> returns, \<open>Run\<close> calls \<open>shutdown(nil)\<close>.\<close>

definition reader_exit :: "peer \<Rightarrow> peer" where
  "reader_exit p = shutdown None (p\<lparr>pe_reader := Exited\<rparr>)"

definition read_error :: "string \<Rightarrow> peer \<Rightarrow> peer" where
  "read_error e p = reader_exit (shutdown (Some e) p)"

text \<open>The reply to a PING, by the reader itself: it may have to wait for room in the queue.\<close>

definition reply_result :: "send_result \<times> peer \<Rightarrow> json \<Rightarrow> peer" where
  "reply_result r b =
     (case r of (SendOk, p) \<Rightarrow> p\<lparr>pe_pong := None\<rparr>
      | (SendClosed, p) \<Rightarrow> reader_exit (p\<lparr>pe_pong := None\<rparr>)
      | (SendBlocked, p) \<Rightarrow> p\<lparr>pe_pong := Some b\<rparr>)"

definition dispatch :: "bool \<Rightarrow> int \<Rightarrow> envelope \<Rightarrow> peer \<Rightarrow> peer" where
  "dispatch pick now env p =
     (if en_Type env = TypePing then
        (case stamp now TypePong None p of (b, p1) \<Rightarrow> reply_result (enqueue pick b p1) b)
      else if en_Type env = TypePong then
        (if pe_lastPingNS p \<noteq> 0
         then p\<lparr>pe_rttMicros := go_div (now - pe_lastPingNS p) 1000\<rparr> else p)
      else p\<lparr>pe_inbox := pe_inbox p @ [env]\<rparr>)"

text \<open>\<open>data\<close> is the received text as JSON, \<^const>\<open>None\<close> when it is no JSON at all.\<close>

definition read_frame :: "bool \<Rightarrow> int \<Rightarrow> json option \<Rightarrow> peer \<Rightarrow> peer" where
  "read_frame pick now data p =
     (let p1 = p\<lparr>pe_framesRx := pe_framesRx p + 1\<rparr> in
      case Option.bind data dec_envelope of None \<Rightarrow> p1 | Some env \<Rightarrow> dispatch pick now env p1)"

definition read_resume :: "bool \<Rightarrow> peer \<Rightarrow> peer" where
  "read_resume pick p =
     (case pe_pong p of None \<Rightarrow> p | Some b \<Rightarrow> reply_result (enqueue pick b p) b)"

definition run_returned :: "peer \<Rightarrow> bool" where
  "run_returned p \<longleftrightarrow> pe_writer p = Exited \<and> pe_reader p = Exited"

subsection \<open>The goroutines\<close>

text \<open>A step carries the frames that enter the send queue in it.\<close>

inductive pump_step :: "peer \<Rightarrow> json list \<Rightarrow> peer \<Rightarrow> bool" where
  send: "t \<noteq> TypePing \<Longrightarrow> Send pick now t v p = (r, p') \<Longrightarrow>
    pump_step p (drop (length (pe_send p)) (pe_send p')) p'"
| retry: "b \<in> set (pe_blocked p) \<Longrightarrow> retry pick b p = (r, p') \<Longrightarrow>
    pump_step p (drop (length (pe_send p)) (pe_send p')) p'"
| close: "pump_step p [] (peer_Close p)"
| start: "pe_writer p = NotStarted \<Longrightarrow> pump_step p [] (write_ping now werr p)"
| tick: "pe_writer p = Running \<Longrightarrow> pump_step p [] (write_ping now werr p)"
| next_frame: "pe_writer p = Running \<Longrightarrow> pump_step p [] (write_next werr p)"
| writer_done: "pe_writer p = Running \<Longrightarrow> pump_step p [] (write_done p)"
| read: "pe_reader p = Running \<Longrightarrow> pe_pong p = None \<Longrightarrow> p' = read_frame pick now data p \<Longrightarrow>
    pump_step p (drop (length (pe_send p)) (pe_send p')) p'"
| resume: "pe_reader p = Running \<Longrightarrow> p' = read_resume pick p \<Longrightarrow>
    pump_step p (drop (length (pe_send p)) (pe_send p')) p'"
| read_fails: "pe_reader p = Running \<Longrightarrow> pe_pong p = None \<Longrightarrow> pump_step p [] (read_error e p)"

text \<open>A run of \<open>n\<close> steps from a new peer, with the frames enqueued in their order.\<close>

inductive pump_run :: "string \<Rightarrow> nat \<Rightarrow> json list \<Rightarrow> peer \<Rightarrow> bool" for local where
  new: "pump_run local 0 [] (NewPeer local)"
| step: "pump_run local n fs p \<Longrightarrow> pump_step p gs p' \<Longrightarrow> pump_run local (Suc n) (fs @ gs) p'"

inductive_cases pump_stepE: "pump_step p gs p'"

subsection \<open>Frames in order\<close>

lemma writer_returns_sel [simp]:
  "pe_send (writer_returns p) = pe_send p" "pe_wire (writer_returns p) = pe_wire p"
  "pe_blocked (writer_returns p) = pe_blocked p" "pe_pong (writer_returns p) = pe_pong p"
  "pe_seq (writer_returns p) = pe_seq p" "pe_writer (writer_returns p) = Exited"
  "pe_reader (writer_returns p) = pe_reader p" "pe_localID (writer_returns p) = pe_localID p"
  "pe_done (writer_returns p) = pe_done p" "pe_inbox (writer_returns p) = pe_inbox p"
  "pe_cause (writer_returns p) = pe_cause p" "pe_connClosed (writer_returns p)"
  by (simp_all add: writer_returns_def)

lemma shutdown_sel [simp]:
  "pe_send (shutdown c p) = pe_send p" "pe_wire (shutdown c p) = pe_wire p"
  "pe_blocked (shutdown c p) = pe_blocked p" "pe_pong (shutdown c p) = pe_pong p"
  "pe_seq (shutdown c p) = pe_seq p" "pe_writer (shutdown c p) = pe_writer p"
  "pe_reader (shutdown c p) = pe_reader p" "pe_localID (shutdown c p) = pe_localID p"
  "pe_done (shutdown c p)" "pe_inbox (shutdown c p) = pe_inbox p" "pe_connClosed (shutdown c p) = pe_connClosed p"
  by (simp_all add: shutdown_def split: option.splits)

definition frame_env :: "json \<Rightarrow> envelope" where
  "frame_env b = (case dec_envelope b of Some e \<Rightarrow> e | None \<Rightarrow> zero_envelope)"

definition is_ping :: "json \<Rightarrow> bool" where
  "is_ping b \<longleftrightarrow> en_Type (frame_env b) = TypePing"

definition frame_seq :: "json \<Rightarrow> u64" where
  "frame_seq b = en_Seq (frame_env b)"

lemma frame_env_new [simp]:
  "frame_env (enc_envelope (NewEnvelope t a n (unix_ms now) v)) = NewEnvelope t a n (unix_ms now) v"
  by (simp add: frame_env_def dec_enc_envelope unix_ms_def wrap64_range)

text \<open>What a queued frame says.\<close>

definition frame_content :: "json \<Rightarrow> string \<times> json option" where
  "frame_content b = (en_Type (frame_env b), en_Payload (frame_env b))"

lemma Send_effect:
  assumes "Send pick now t v p = (r, p')"
  shows "(r = SendOk \<longrightarrow> map frame_content (pe_send p') = map frame_content (pe_send p) @ [(t, v)]) \<and>
     (r \<noteq> SendOk \<longrightarrow> pe_send p' = pe_send p) \<and> pe_done p' = pe_done p \<and>
     length (pe_send p') = length (pe_send p) + (if r = SendOk then 1 else 0)"
  using assms
  by (auto simp: Send_def stamp_def Let_def enqueue_def frame_content_def split: if_splits)

lemma Send_room:
  "\<not> pe_done p \<Longrightarrow> length (pe_send p) < sendBuffer \<Longrightarrow> \<exists>p'. Send pick now t v p = (SendOk, p')"
  by (simp add: Send_def stamp_def Let_def enqueue_def)

lemma pong_not_ping: "TypePong \<noteq> TypePing"
  by (simp add: message_type_defs)

lemma stampD:
  "stamp now t v p = (b, p1) \<Longrightarrow>
   p1 = p\<lparr>pe_seq := pe_seq p + 1\<rparr> \<and> frame_seq b = pe_seq p + 1 \<and> (is_ping b \<longleftrightarrow> t = TypePing)"
  by (auto simp: stamp_def Let_def frame_seq_def is_ping_def)

lemma enqueueD:
  "enqueue pick b p = (r, p') \<Longrightarrow>
   (r = SendOk \<and> p' = p\<lparr>pe_send := pe_send p @ [b]\<rparr> \<and> length (pe_send p) < sendBuffer) \<or>
   (r \<noteq> SendOk \<and> p' = p)"
  by (auto simp: enqueue_def split: if_splits)

text \<open>The queue and the wire agree with the log of enqueued frames; the heartbeat of the
  write pump is the only traffic that bypasses the queue.\<close>

definition in_order :: "json list \<Rightarrow> peer \<Rightarrow> bool" where
  "in_order fs p \<longleftrightarrow>
     (\<exists>lost. filter (\<lambda>b. \<not> is_ping b) (pe_wire p) @ lost @ pe_send p = fs \<and>
        length lost \<le> 1 \<and> (pe_writer p \<noteq> Exited \<longrightarrow> lost = [])) \<and>
     length (pe_send p) \<le> sendBuffer \<and>
     (\<forall>b \<in> set (pe_send p) \<union> set (pe_blocked p) \<union> set_option (pe_pong p). \<not> is_ping b)"

lemma in_order_fields [simp]:
  "in_order fs (shutdown c p) = in_order fs p"
  "in_order fs (p\<lparr>pe_reader := x\<rparr>) = in_order fs p"
  by (simp_all add: in_order_def)

lemma in_order_same:
  "in_order fs p \<Longrightarrow> pe_wire p' = pe_wire p \<Longrightarrow> pe_send p' = pe_send p \<Longrightarrow> pe_writer p' = pe_writer p \<Longrightarrow>
   (\<forall>b \<in> set (pe_blocked p') \<union> set_option (pe_pong p'). \<not> is_ping b) \<Longrightarrow> in_order fs p'"
  by (auto simp: in_order_def)

lemma in_order_append:
  "in_order fs p \<Longrightarrow> pe_wire p' = pe_wire p \<Longrightarrow> pe_send p' = pe_send p @ [b] \<Longrightarrow>
   length (pe_send p) < sendBuffer \<Longrightarrow> \<not> is_ping b \<Longrightarrow> pe_writer p' = pe_writer p \<Longrightarrow>
   (\<forall>b \<in> set (pe_blocked p') \<union> set_option (pe_pong p'). \<not> is_ping b) \<Longrightarrow> in_order (fs @ [b]) p'"
  by (auto simp: in_order_def)

lemma in_order_blocked:
  "in_order fs p \<Longrightarrow> b \<in> set (pe_blocked p) \<union> set_option (pe_pong p) \<Longrightarrow> \<not> is_ping b"
  by (auto simp: in_order_def)

lemma in_order_send:
  assumes "in_order fs p" and "t \<noteq> TypePing" and "Send pick now t v p = (r, p')"
  shows "in_order (fs @ drop (length (pe_send p)) (pe_send p')) p'"
proof -
  obtain b p1 where s: "stamp now t v p = (b, p1)"
    by (cases "stamp now t v p")
  obtain r2 p2 where e: "enqueue pick b p1 = (r2, p2)"
    by (cases "enqueue pick b p1")
  note stampD [OF s] enqueueD [OF e]
  with assms s e in_order_blocked [OF assms(1)] show ?thesis
    by (cases r2) (auto simp: Send_def intro!: in_order_same [OF assms(1)] in_order_append [OF assms(1)])
qed

lemma in_order_retry:
  assumes "in_order fs p" and "b \<in> set (pe_blocked p)" and "retry pick b p = (r, p')"
  shows "in_order (fs @ drop (length (pe_send p)) (pe_send p')) p'"
proof -
  obtain r2 p2 where e: "enqueue pick b p = (r2, p2)"
    by (cases "enqueue pick b p")
  have "\<forall>c \<in> set (remove1 b (pe_blocked p)) \<union> set_option (pe_pong p). \<not> is_ping c"
    using in_order_blocked [OF assms(1)] set_remove1_subset [of b "pe_blocked p"] by auto
  with enqueueD [OF e] assms e in_order_blocked [OF assms(1)] show ?thesis
    by (cases r2) (auto simp: retry_def intro!: in_order_same [OF assms(1)] in_order_append [OF assms(1)])
qed

lemma in_order_reply:
  assumes "in_order fs p" and "\<not> is_ping b"
  shows "in_order (fs @ drop (length (pe_send p)) (pe_send (reply_result (enqueue pick b p) b)))
           (reply_result (enqueue pick b p) b)"
proof -
  obtain r p' where e: "enqueue pick b p = (r, p')"
    by (cases "enqueue pick b p")
  with enqueueD [OF e] assms in_order_blocked [OF assms(1)] show ?thesis
    by (cases r) (auto simp: reply_result_def reader_exit_def intro!: in_order_same [OF assms(1)] in_order_append [OF assms(1)])
qed

lemma in_order_ping:
  assumes "in_order fs p" and "pe_writer p \<noteq> Exited"
  shows "in_order fs (write_ping now werr p)"
proof -
  obtain b p1 where s: "stamp now TypePing None p = (b, p1)"
    by (cases "stamp now TypePing None p")
  with stampD [OF s] assms show ?thesis
    by (auto simp: write_ping_def sendPing_def pingFrame_def write_result_def writeFrame_def in_order_def
        split: option.splits)
qed

lemma in_order_next:
  "in_order fs p \<Longrightarrow> pe_writer p = Running \<Longrightarrow> in_order fs (write_next werr p)"
  by (auto simp: write_next_def write_result_def writeFrame_def in_order_def split: list.splits option.splits
      intro!: exI [of _ "[_]"])

lemma in_order_read:
  assumes "in_order fs p" and "pe_pong p = None"
  shows "in_order (fs @ drop (length (pe_send p)) (pe_send (read_frame pick now data p)))
           (read_frame pick now data p)"
proof (cases "Option.bind data dec_envelope")
  case None
  with assms show ?thesis
    by (auto simp: read_frame_def intro!: in_order_same [OF assms(1)] dest: in_order_blocked)
next
  case (Some env)
  let ?p = "p\<lparr>pe_framesRx := pe_framesRx p + 1\<rparr>"
  have io: "in_order fs ?p"
    using assms by (auto intro!: in_order_same [OF assms(1)] dest: in_order_blocked)
  obtain b p1 where s: "stamp now TypePong None ?p = (b, p1)"
    by (cases "stamp now TypePong None ?p")
  have io1: "in_order fs p1" "\<not> is_ping b" "pe_send p1 = pe_send p"
    using stampD [OF s] io pong_not_ping by (auto simp: in_order_def)
  show ?thesis
    using in_order_reply [OF io1(1,2), of pick] io io1(3) Some s
    by (auto simp: read_frame_def dispatch_def Let_def intro!: in_order_same [OF io] dest: in_order_blocked)
qed

lemma in_order_step:
  assumes "pump_step p gs p'" and "in_order fs p"
  shows "in_order (fs @ gs) p'"
  using assms
proof (cases rule: pump_step.cases)
  case (resume pick)
  show ?thesis
  proof (cases "pe_pong p")
    case None
    with resume assms(2) show ?thesis by (simp add: read_resume_def)
  next
    case (Some b)
    with in_order_reply [OF assms(2), of b pick] in_order_blocked [OF assms(2)] resume show ?thesis
      by (simp add: read_resume_def)
  qed
next
  case writer_done
  with assms(2) show ?thesis
    by (auto simp: write_done_def in_order_def)
qed (use assms(2) in \<open>auto intro: in_order_send in_order_retry in_order_ping in_order_next in_order_read
    simp: peer_Close_def read_error_def reader_exit_def\<close>)

text \<open>
  C11: One connection keeps the order: whatever the goroutines' interleaving, the frames on the wire
  other than the write pump's PINGs are the enqueued frames in the order they entered the
  queue, without duplicates or gaps.  The only frame that can vanish is the one whose write failed, after
  which the write pump has ended; and the queue never exceeds its 256 slots.
\<close>

theorem frames_in_order:
  assumes "pump_run local n fs p"
  shows "\<exists>lost. filter (\<lambda>b. \<not> is_ping b) (pe_wire p) @ lost @ pe_send p = fs \<and>
     length lost \<le> 1 \<and> (pe_writer p \<noteq> Exited \<longrightarrow> lost = []) \<and> length (pe_send p) \<le> 256"
proof -
  have "in_order fs p"
    using assms
  proof (induction rule: pump_run.induct)
    case new
    show ?case by (simp add: in_order_def NewPeer_def)
  next
    case (step n fs p gs p')
    then show ?case by (blast intro: in_order_step)
  qed
  then show ?thesis
    by (auto simp: in_order_def sendBuffer_def)
qed

subsection \<open>Frame numbers\<close>

text \<open>Every frame there is: written, queued, or held by a blocked sender.\<close>

definition frames :: "peer \<Rightarrow> json multiset" where
  "frames p = mset (pe_wire p) + mset (pe_send p) + mset (pe_blocked p)
     + (case pe_pong p of None \<Rightarrow> {#} | Some b \<Rightarrow> {#b#})"

definition uniq :: "'a multiset \<Rightarrow> bool" where
  "uniq M \<longleftrightarrow> (\<forall>x. count M x \<le> 1)"

lemma uniq_mono: "uniq N \<Longrightarrow> M \<subseteq># N \<Longrightarrow> uniq M"
  unfolding uniq_def using mset_subset_eq_count order_trans by metis

lemma uniq_add: "uniq M \<Longrightarrow> x \<notin># M \<Longrightarrow> uniq (add_mset x M)"
  by (auto simp: uniq_def not_in_iff)

lemma uniq_distinct: "uniq (mset xs) \<Longrightarrow> distinct xs"
proof (induction xs)
  case (Cons x xs)
  have "count (mset xs) x = 0"
    using Cons.prems [unfolded uniq_def, rule_format, of x] by simp
  moreover have "uniq (mset xs)"
    using Cons.prems by (rule uniq_mono) simp
  ultimately show ?case
    using Cons.IH by (simp add: count_mset_0_iff)
qed simp

definition numbered :: "nat \<Rightarrow> peer \<Rightarrow> bool" where
  "numbered n p \<longleftrightarrow> uniq (image_mset frame_seq (frames p)) \<and>
     (\<forall>b \<in># frames p. unat (frame_seq b) \<le> unat (pe_seq p)) \<and> unat (pe_seq p) \<le> n"

lemma numbered_sub:
  assumes "numbered n p" and "frames p' \<subseteq># frames p" and "pe_seq p' = pe_seq p"
  shows "numbered (Suc n) p'"
  using assms mset_subset_eqD [OF assms(2)]
  by (auto simp: numbered_def intro: uniq_mono image_mset_subseteq_mono)

lemma unat_succ: "unat x \<le> n \<Longrightarrow> Suc n < 2 ^ 64 \<Longrightarrow> unat (x + 1 :: u64) = Suc (unat x)"
  by (subst unat_plus_if') (auto simp: unsigned_1)

lemma numbered_new:
  assumes "numbered n p" and "Suc n < 2 ^ 64" and "pe_seq p' = pe_seq p + 1"
    and "frame_seq b = pe_seq p + 1" and "frames p' \<subseteq># add_mset b (frames p)"
  shows "numbered (Suc n) p'"
proof -
  have u: "unat (pe_seq p + 1) = Suc (unat (pe_seq p))"
    using assms(1,2) by (auto simp: numbered_def intro: unat_succ)
  have "frame_seq b \<notin> frame_seq ` set_mset (frames p)"
    using assms(1,4) u by (fastforce simp: numbered_def)
  then have "uniq (image_mset frame_seq (add_mset b (frames p)))"
    using assms(1) by (auto simp: numbered_def intro: uniq_add)
  then have 1: "uniq (image_mset frame_seq (frames p'))"
    using image_mset_subseteq_mono [OF assms(5)] by (rule uniq_mono)
  have "unat (frame_seq c) \<le> unat (pe_seq p')" if "c \<in># frames p'" for c
    using mset_subset_eqD [OF assms(5) that] assms(1,3,4) u by (auto simp: numbered_def)
  with 1 assms(1,3) u show ?thesis
    by (simp add: numbered_def)
qed

lemma frames_returns [simp]: "frames (writer_returns p) = frames p"
  by (simp add: frames_def)

lemma frames_fields [simp]:
  "frames (shutdown c p) = frames p" "frames (p\<lparr>pe_reader := x\<rparr>) = frames p"
  "frames (p\<lparr>pe_writer := y\<rparr>) = frames p"
  by (simp_all add: frames_def)

lemma frames_Send:
  assumes "Send pick now t v p = (r, p')"
  shows "\<exists>b. frame_seq b = pe_seq p + 1 \<and> pe_seq p' = pe_seq p + 1 \<and> frames p' \<subseteq># add_mset b (frames p)"
proof -
  obtain b p1 where s: "stamp now t v p = (b, p1)"
    by (cases "stamp now t v p")
  obtain r2 p2 where e: "enqueue pick b p1 = (r2, p2)"
    by (cases "enqueue pick b p1")
  from stampD [OF s] enqueueD [OF e] assms s e show ?thesis
    by (cases r2) (auto simp: Send_def frames_def intro!: exI [of _ b])
qed

lemma frames_retry:
  assumes "b \<in> set (pe_blocked p)" and "retry pick b p = (r, p')"
  shows "frames p' \<subseteq># frames p \<and> pe_seq p' = pe_seq p"
proof -
  obtain r2 p2 where e: "enqueue pick b p = (r2, p2)"
    by (cases "enqueue pick b p")
  from enqueueD [OF e] assms e show ?thesis
    by (cases r2) (auto simp: retry_def frames_def)
qed

lemma frames_reply:
  assumes "pe_pong p = None \<or> pe_pong p = Some b"
  shows "frames (reply_result (enqueue pick b p) b) \<subseteq># add_mset b (frames (p\<lparr>pe_pong := None\<rparr>))
     \<and> pe_seq (reply_result (enqueue pick b p) b) = pe_seq p"
proof -
  obtain r p' where e: "enqueue pick b p = (r, p')"
    by (cases "enqueue pick b p")
  from enqueueD [OF e] assms e show ?thesis
    by (cases r) (auto simp: reply_result_def reader_exit_def frames_def)
qed

lemma frames_ping:
  "\<exists>b. frame_seq b = pe_seq p + 1 \<and> pe_seq (write_ping now werr p) = pe_seq p + 1 \<and>
     frames (write_ping now werr p) \<subseteq># add_mset b (frames p)"
proof -
  obtain b p1 where s: "stamp now TypePing None p = (b, p1)"
    by (cases "stamp now TypePing None p")
  from stampD [OF s] s show ?thesis
    by (auto simp: write_ping_def sendPing_def pingFrame_def write_result_def writeFrame_def frames_def
        intro!: exI [of _ b] split: option.splits)
qed

lemma frames_next: "frames (write_next werr p) \<subseteq># frames p \<and> pe_seq (write_next werr p) = pe_seq p"
  by (auto simp: write_next_def write_result_def writeFrame_def frames_def split: list.splits option.splits)

lemma frames_read:
  assumes "pe_pong p = None"
  shows "(frames (read_frame pick now data p) = frames p \<and> pe_seq (read_frame pick now data p) = pe_seq p) \<or>
     (\<exists>b. frame_seq b = pe_seq p + 1 \<and> pe_seq (read_frame pick now data p) = pe_seq p + 1 \<and>
       frames (read_frame pick now data p) \<subseteq># add_mset b (frames p))"
proof -
  let ?p = "p\<lparr>pe_framesRx := pe_framesRx p + 1\<rparr>"
  obtain b p1 where s: "stamp now TypePong None ?p = (b, p1)"
    by (cases "stamp now TypePong None ?p")
  from stampD [OF s] frames_reply [of p1 b pick] assms s show ?thesis
    by (auto simp: read_frame_def dispatch_def Let_def frames_def split: option.splits)
qed

lemma numbered_step:
  assumes "pump_step p gs p'" and "numbered n p" and "Suc n < 2 ^ 64"
  shows "numbered (Suc n) p'"
  using assms(1)
proof (cases rule: pump_step.cases)
  case (send t pick now v r)
  with frames_Send [OF send(3)] assms(2,3) show ?thesis by (blast intro: numbered_new)
next
  case (retry b pick r)
  with frames_retry [of b p pick r p'] assms(2) show ?thesis by (blast intro: numbered_sub)
next
  case (start now werr)
  with frames_ping [of p now werr] assms(2,3) show ?thesis by (blast intro: numbered_new)
next
  case (tick now werr)
  with frames_ping [of p now werr] assms(2,3) show ?thesis by (blast intro: numbered_new)
next
  case (next_frame werr)
  with frames_next [of werr p] assms(2) show ?thesis by (blast intro: numbered_sub)
next
  case (read pick now data)
  then have "p' = read_frame pick now data p" "pe_pong p = None"
    by simp_all
  with frames_read [of p pick now data] assms(2,3) show ?thesis
    by (auto intro: numbered_new numbered_sub)
next
  case (resume pick)
  show ?thesis
  proof (cases "pe_pong p")
    case None
    with resume assms(2) show ?thesis by (simp add: read_resume_def numbered_sub [of n p])
  next
    case (Some b)
    with frames_reply [of p b pick] resume assms(2) show ?thesis
      by (intro numbered_sub [of n p]) (auto simp: read_resume_def frames_def)
  qed
qed (use assms(2) in \<open>auto intro!: numbered_sub [of n p]
    simp: peer_Close_def read_error_def reader_exit_def write_done_def\<close>)

text \<open>
  Frame numbers identify frames: among all frames of one connection (written, queued or still
  held by a blocked sender), replies and heartbeats included, no two carry the same sequence number,
  and none exceeds the counter.  The bound on the number of steps keeps the 64-bit counter from
  wrapping.
\<close>

theorem frame_numbers_unique:
  assumes "pump_run local n fs p" and "n < 2 ^ 64"
  shows "distinct (map frame_seq (pe_wire p @ pe_send p)) \<and>
     (\<forall>b \<in> set (pe_wire p @ pe_send p). unat (frame_seq b) \<le> unat (pe_seq p))"
proof -
  have "numbered n p"
    using assms
  proof (induction rule: pump_run.induct)
    case new
    show ?case by (simp add: numbered_def frames_def NewPeer_def uniq_def)
  next
    case (step n fs p gs p')
    then show ?case by (simp add: numbered_step)
  qed
  moreover have "mset (pe_wire p @ pe_send p) \<subseteq># frames p"
    by (simp add: frames_def)
  ultimately have "uniq (mset (map frame_seq (pe_wire p @ pe_send p)))"
    by (auto simp: numbered_def simp del: mset_append map_append
        intro: uniq_mono image_mset_subseteq_mono)
  then have "distinct (map frame_seq (pe_wire p @ pe_send p))"
    by (rule uniq_distinct)
  with \<open>numbered n p\<close> show ?thesis
    by (simp add: numbered_def frames_def)
qed

subsection \<open>The first frames of a connection\<close>

text \<open>The client enqueues its REGISTER before \<open>Run\<close> starts the write pump; the pump's first
  action is the immediate heartbeat.\<close>

definition first_frames :: "string \<Rightarrow> int \<Rightarrow> json \<Rightarrow> peer" where
  "first_frames local now reg =
     write_next None (write_ping now None (snd (Send False now TypeRegister (Some reg) (NewPeer local))))"

definition register_frame :: "string \<Rightarrow> int \<Rightarrow> json \<Rightarrow> json" where
  "register_frame local now reg =
     enc_envelope (NewEnvelope TypeRegister local 1 (unix_ms now) (Some reg))"

lemma first_frames_run:
  "pump_run local 3 [register_frame local now reg] (first_frames local now reg)"
proof -
  let ?p0 = "NewPeer local"
  let ?p1 = "snd (Send False now TypeRegister (Some reg) ?p0)"
  have s: "Send False now TypeRegister (Some reg) ?p0 = (SendOk, ?p1)"
    "pe_send ?p1 = [register_frame local now reg]" "pe_writer ?p1 = NotStarted" "pe_send ?p0 = []"
    by (simp_all add: Send_def stamp_def enqueue_def NewPeer_def sendBuffer_def register_frame_def)
  have 1: "pump_run local 1 [register_frame local now reg] ?p1"
    using pump_run.step [OF pump_run.new pump_step.send [OF _ s(1)]] s
    by (simp add: message_type_defs)
  have 2: "pump_run local 2 [register_frame local now reg] (write_ping now None ?p1)"
    using pump_run.step [OF 1 pump_step.start [OF s(3)]] by (simp add: numeral_2_eq_2)
  have "pe_writer (write_ping now None ?p1) = Running"
    by (simp add: write_ping_def write_result_def sendPing_def pingFrame_def stamp_def Let_def writeFrame_def)
  with pump_run.step [OF 2 pump_step.next_frame] show ?thesis
    by (simp add: first_frames_def numeral_3_eq_3 numeral_2_eq_2)
qed

lemma first_frames_wire:
  "pe_wire (first_frames local now reg) =
     [enc_envelope (NewEnvelope TypePing local 2 (unix_ms now) None), register_frame local now reg]
   \<and> pe_send (first_frames local now reg) = [] \<and> pe_writer (first_frames local now reg) = Running"
  by (simp add: first_frames_def Send_def stamp_def enqueue_def NewPeer_def sendBuffer_def
      write_ping_def write_result_def sendPing_def pingFrame_def Let_def writeFrame_def write_next_def
      register_frame_def)

theorem frames_in_order_witness:
  "\<exists>lost. filter (\<lambda>b. \<not> is_ping b) (pe_wire (first_frames ''a'' 5 JNull)) @ lost @ [] =
      [register_frame ''a'' 5 JNull] \<and> lost = []"
  using frames_in_order [OF first_frames_run [of "''a''" 5 JNull]] first_frames_wire [of "''a''" 5 JNull]
  by auto

theorem frame_numbers_unique_witness:
  "distinct (map frame_seq (pe_wire (first_frames ''a'' 5 JNull)))"
  using frame_numbers_unique [OF first_frames_run [of "''a''" 5 JNull]]
    first_frames_wire [of "''a''" 5 JNull]
  by simp

text \<open>
  The numbers on the wire are not in order: on every connection a client opens, the first
  frame written is the immediate PING with number 2 and the second is the REGISTER with number 1,
  because the heartbeat is numbered when it is written and the queued frame when it is enqueued.
  The receiver sees a sequence that is unique but not monotonic.
\<close>

theorem register_follows_ping:
  "map (\<lambda>b. (en_Type (frame_env b), frame_seq b)) (pe_wire (first_frames local now reg)) =
     [(TypePing, 2), (TypeRegister, 1)]"
  by (simp add: first_frames_wire register_frame_def frame_seq_def)

subsection \<open>Closing\<close>

definition closing_ok :: "peer \<Rightarrow> bool" where
  "closing_ok p \<longleftrightarrow> (pe_cause p \<noteq> None \<or> pe_writer p = Exited \<or> pe_reader p = Exited \<longrightarrow> pe_done p)"

lemma shutdown_done: "pe_done p \<Longrightarrow> shutdown c p = p"
  by (simp add: shutdown_def)

lemma Send_done_cause:
  "Send pick now t v p = (r, p') \<Longrightarrow> pe_done p' = pe_done p \<and> pe_cause p' = pe_cause p \<and>
   pe_writer p' = pe_writer p \<and> pe_reader p' = pe_reader p"
  by (auto simp: Send_def stamp_def Let_def enqueue_def split: if_splits)

lemma retry_done_cause:
  "retry pick b p = (r, p') \<Longrightarrow> pe_done p' = pe_done p \<and> pe_cause p' = pe_cause p \<and>
   pe_writer p' = pe_writer p \<and> pe_reader p' = pe_reader p"
  by (auto simp: retry_def enqueue_def split: if_splits)

lemma reply_done_cause:
  "pe_cause (reply_result (enqueue pick b p) b) = pe_cause p \<and>
   (pe_done p \<longrightarrow> pe_done (reply_result (enqueue pick b p) b)) \<and>
   pe_writer (reply_result (enqueue pick b p) b) = pe_writer p \<and>
   (pe_reader (reply_result (enqueue pick b p) b) \<noteq> pe_reader p \<longrightarrow>
      pe_done (reply_result (enqueue pick b p) b))"
  by (auto simp: reply_result_def enqueue_def reader_exit_def shutdown_def)

lemma read_done_cause:
  "pe_cause (read_frame pick now data p) = pe_cause p \<and>
   (pe_done p \<longrightarrow> pe_done (read_frame pick now data p)) \<and>
   pe_writer (read_frame pick now data p) = pe_writer p \<and>
   (pe_reader (read_frame pick now data p) \<noteq> pe_reader p \<longrightarrow> pe_done (read_frame pick now data p))"
  using reply_done_cause
  by (auto simp: read_frame_def dispatch_def stamp_def Let_def split: option.splits)

lemma write_result_done:
  "closing_ok p \<Longrightarrow> closing_ok (write_result (e, p)) \<and>
   (pe_done p \<longrightarrow> pe_done (write_result (e, p)) \<and> pe_cause (write_result (e, p)) = pe_cause p)"
  by (auto simp: write_result_def closing_ok_def shutdown_done split: option.splits)

lemma write_ping_closing:
  "closing_ok p \<Longrightarrow> closing_ok (write_ping now werr p) \<and>
   (pe_done p \<longrightarrow> pe_done (write_ping now werr p) \<and> pe_cause (write_ping now werr p) = pe_cause p)"
  by (auto simp: write_ping_def sendPing_def pingFrame_def stamp_def Let_def writeFrame_def
      write_result_def closing_ok_def shutdown_done split: option.splits)

lemma write_next_closing:
  "closing_ok p \<Longrightarrow> closing_ok (write_next werr p) \<and>
   (pe_done p \<longrightarrow> pe_done (write_next werr p) \<and> pe_cause (write_next werr p) = pe_cause p)"
  by (auto simp: write_next_def writeFrame_def write_result_def closing_ok_def shutdown_done
      split: option.splits list.splits)

lemma closing_step:
  assumes "pump_step p gs p'" and "closing_ok p"
  shows "closing_ok p' \<and> (pe_done p \<longrightarrow> pe_done p' \<and> Cause p' = Cause p)"
  using assms(1)
proof (cases rule: pump_step.cases)
  case (send t pick now v r)
  with Send_done_cause [OF send(3)] assms(2) show ?thesis by (auto simp: closing_ok_def Cause_def)
next
  case (retry b pick r)
  with retry_done_cause [of pick b p r p'] assms(2) show ?thesis by (auto simp: closing_ok_def Cause_def)
next
  case (read pick now data)
  with read_done_cause [of pick now data p] assms(2) show ?thesis by (auto simp: closing_ok_def Cause_def)
next
  case (resume pick)
  show ?thesis
  proof (cases "pe_pong p")
    case (Some b)
    with reply_done_cause [of pick b p] resume assms(2) show ?thesis
      by (auto simp: closing_ok_def Cause_def read_resume_def)
  qed (use resume assms(2) in \<open>simp add: read_resume_def\<close>)
qed (use assms(2) write_ping_closing write_next_closing in
    \<open>auto simp: Cause_def peer_Close_def read_error_def reader_exit_def write_done_def
      closing_ok_def shutdown_def split: option.splits\<close>)

lemma pump_run_closing: "pump_run local n fs p \<Longrightarrow> closing_ok p"
proof (induction rule: pump_run.induct)
  case new
  show ?case by (simp add: closing_ok_def NewPeer_def)
qed (simp add: closing_step)

text \<open>
  The first shutdown decides: in every reachable state a pump that has ended, or a recorded
  cause, means the peer is closed; and once it is closed it stays closed and the cause \<open>Run\<close>
  returns never changes, whatever errors the pumps meet while they wind down.
\<close>

theorem first_cause_wins:
  assumes "pump_run local n fs p"
  shows "(pe_cause p \<noteq> None \<or> pe_writer p = Exited \<or> pe_reader p = Exited \<longrightarrow> pe_done p) \<and>
     (\<forall>gs p'. pe_done p \<and> pump_step p gs p' \<longrightarrow> pe_done p' \<and> Cause p' = Cause p)"
  using pump_run_closing [OF assms] closing_step by (auto simp: closing_ok_def)

theorem first_cause_wins_witness:
  "Cause (write_ping 6 (Some ''broken pipe'') (read_error ''reset'' (first_frames ''a'' 5 JNull))) = Some ''reset''"
proof -
  let ?p = "first_frames ''a'' 5 JNull"
  let ?q = "read_error ''reset'' ?p"
  note eval = first_frames_def Send_def stamp_def enqueue_def NewPeer_def sendBuffer_def
      write_ping_def write_result_def sendPing_def pingFrame_def Let_def writeFrame_def write_next_def
  have r: "pe_reader ?p = Running" "pe_pong ?p = None" "\<not> pe_done ?p"
    by (simp_all add: eval)
  have run: "pump_run ''a'' 4 ([register_frame ''a'' 5 JNull] @ []) ?q"
    using pump_run.step [OF first_frames_run pump_step.read_fails [OF r(1,2)]] by simp
  have q: "pe_writer ?q = Running" "pe_done ?q" "Cause ?q = Some ''reset''"
    using r(3) by (simp_all add: read_error_def reader_exit_def first_frames_wire shutdown_def Cause_def)
  from first_cause_wins [OF run] pump_step.tick [OF q(1), of 6 "Some ''broken pipe''"] q(2,3)
  show ?thesis by metis
qed

subsection \<open>The end of a connection\<close>

text \<open>On a closed peer no sender waits.\<close>

lemma closed_never_blocks:
  assumes "pe_done p"
  shows "fst (Send pick now t v p) \<noteq> SendBlocked" and "fst (retry pick b p) \<noteq> SendBlocked"
  using assms by (auto simp: Send_def stamp_def Let_def retry_def enqueue_def)

text \<open>The turns the goroutines of a connection take by themselves, with nothing from the network and
  no new \<open>Send\<close>: the writer sends its first PING, writes a queued frame or sees that the
  peer is closing; a blocked sender or the blocked PONG finds room or the closing peer; and a
  read fails once the connection has been closed on this side.\<close>

inductive wind_step :: "peer \<Rightarrow> peer \<Rightarrow> bool" where
  begins: "pe_writer p = NotStarted \<Longrightarrow> wind_step p (write_ping now werr p)"
| writes: "pe_writer p = Running \<Longrightarrow> pe_send p \<noteq> [] \<Longrightarrow> wind_step p (write_next werr p)"
| stops: "pe_writer p = Running \<Longrightarrow> pe_done p \<Longrightarrow> wind_step p (write_done p)"
| sender: "b \<in> set (pe_blocked p) \<Longrightarrow> retry pick b p = (r, p') \<Longrightarrow> r \<noteq> SendBlocked \<Longrightarrow> wind_step p p'"
| replies: "pe_reader p = Running \<Longrightarrow> pe_pong p \<noteq> None \<Longrightarrow> wind_step p (read_resume pick p)"
| reads: "pe_reader p = Running \<Longrightarrow> pe_pong p = None \<Longrightarrow> pe_connClosed p \<Longrightarrow> wind_step p (read_error e p)"

lemma wind_pump: "wind_step p p' \<Longrightarrow> \<exists>fs. pump_step p fs p'"
  by (induction rule: wind_step.induct) (blast intro: pump_step.intros)+

fun pump_turns :: "pump_state \<Rightarrow> nat" where
  "pump_turns NotStarted = 2"
| "pump_turns Running = 1"
| "pump_turns Exited = 0"

definition wind_work :: "peer \<Rightarrow> nat" where
  "wind_work p = length (pe_send p) + 2 * length (pe_blocked p) + (if pe_pong p = None then 0 else 2)
     + pump_turns (pe_writer p) + pump_turns (pe_reader p)"

lemma pump_turns_bound: "pump_turns s \<le> 2"
  by (cases s) simp_all

lemma closed_cases:
  "pe_done p \<Longrightarrow> enqueue pick b p = (SendClosed, p) \<or> enqueue pick b p = (SendOk, p\<lparr>pe_send := pe_send p @ [b]\<rparr>)"
  by (auto simp: enqueue_def)

lemma wind_step_work:
  assumes "wind_step p p'" and "pe_done p"
  shows "wind_work p' < wind_work p \<and> pe_done p'"
  using assms(1)
proof (cases rule: wind_step.cases)
  case (begins now werr)
  with assms(2) show ?thesis
    by (simp add: write_ping_def sendPing_def pingFrame_def stamp_def Let_def writeFrame_def write_result_def
        wind_work_def shutdown_done split: option.splits)
next
  case (writes werr)
  then obtain b bs where "pe_send p = b # bs"
    by (cases "pe_send p") auto
  with writes assms(2) show ?thesis
    by (simp add: write_next_def writeFrame_def write_result_def wind_work_def shutdown_done split: option.splits)
next
  case stops
  with assms(2) show ?thesis
    by (simp add: write_done_def wind_work_def)
next
  case (sender b pick r)
  then have "length (remove1 b (pe_blocked p)) < length (pe_blocked p)"
    by (simp add: length_remove1) (use length_pos_if_in_set in fastforce)
  with sender closed_cases [OF assms(2), of pick b] assms(2) show ?thesis
    by (auto simp: retry_def wind_work_def)
next
  case (replies pick)
  then obtain b where "pe_pong p = Some b" by blast
  with replies closed_cases [OF assms(2), of pick b] assms(2) show ?thesis
    by (auto simp: read_resume_def reply_result_def reader_exit_def wind_work_def)
next
  case (reads e)
  with assms(2) show ?thesis
    by (simp add: read_error_def reader_exit_def wind_work_def)
qed

lemma wind_run_work:
  "(wind_step ^^ k) p p' \<Longrightarrow> pe_done p \<Longrightarrow> k + wind_work p' \<le> wind_work p \<and> pe_done p'"
proof (induction k arbitrary: p')
  case (Suc k)
  then obtain q where q: "(wind_step ^^ k) p q" "wind_step q p'" by auto
  with Suc.IH [OF q(1) Suc.prems(2)] wind_step_work [OF q(2)] show ?case by simp
qed simp

text \<open>The reader runs from the start, and the connection is closed exactly when the writer has ended.\<close>

definition conn_ok :: "peer \<Rightarrow> bool" where
  "conn_ok p \<longleftrightarrow> pe_reader p \<noteq> NotStarted \<and> (pe_connClosed p \<longleftrightarrow> pe_writer p = Exited)"

lemma conn_ok_step:
  assumes "pump_step p gs p'" and "conn_ok p"
  shows "conn_ok p'"
  using assms
  by (cases rule: pump_step.cases)
    (auto simp: conn_ok_def Send_def retry_def enqueue_def stamp_def Let_def peer_Close_def write_ping_def sendPing_def
      pingFrame_def writeFrame_def write_result_def write_next_def write_done_def read_frame_def dispatch_def
      read_resume_def reply_result_def reader_exit_def read_error_def split: if_splits option.splits list.splits)

lemma pump_run_conn: "pump_run local n fs p \<Longrightarrow> conn_ok p"
  by (induction rule: pump_run.induct) (simp add: conn_ok_def NewPeer_def, blast intro: conn_ok_step)

lemma wind_run_conn: "(wind_step ^^ k) p p' \<Longrightarrow> conn_ok p \<Longrightarrow> conn_ok p'"
  by (induction k arbitrary: p') (auto dest!: wind_pump conn_ok_step)

text \<open>As long as somebody has not come back, one of them can take a turn.\<close>

lemma wind_progress:
  assumes "conn_ok p" and "pe_done p" and "\<not> (run_returned p \<and> pe_blocked p = [])"
  shows "\<exists>p'. wind_step p p'"
proof (cases "pe_blocked p")
  case (Cons b bs)
  obtain r p' where r: "retry False b p = (r, p')"
    by (cases "retry False b p")
  with closed_never_blocks(2) [OF assms(2), of False b] Cons show ?thesis
    by (intro exI [of _ p'] wind_step.sender [OF _ r]) auto
next
  case Nil
  show ?thesis
  proof (cases "pe_writer p")
    case Exited
    with Nil assms have "pe_reader p = Running" "pe_connClosed p"
      by (cases "pe_reader p"; simp add: run_returned_def conn_ok_def)+
    then show ?thesis
      by (cases "pe_pong p") (blast intro: wind_step.intros)+
  qed (use assms(2) in \<open>blast intro: wind_step.intros\<close>)+
qed

text \<open>
  C12: Nobody hangs on a dead connection.  In every history, once a peer is closing, no Send on it blocks; and
  whatever turns its goroutines take by themselves, in whatever order, with no help from the network and
  whether their writes succeed or fail, they take at most one per queued frame, two per blocked
  sender and five more; and when none of them can take another one every blocked sender has returned, both pumps
  have ended and Run returns.  The reader ends because the writer closes the connection.
\<close>

theorem dead_connection_releases:
  assumes "pump_run local n fs p" and "pe_done p"
  shows "(\<forall>pick now t v. fst (Send pick now t v p) \<noteq> SendBlocked) \<and>
     (\<forall>k p'. (wind_step ^^ k) p p' \<longrightarrow>
        k \<le> length (pe_send p) + 2 * length (pe_blocked p) + 5 \<and>
        ((\<exists>p''. wind_step p' p'') \<or> run_returned p' \<and> pe_blocked p' = []))"
proof -
  have "wind_work p \<le> length (pe_send p) + 2 * length (pe_blocked p) + 5"
    using pump_turns_bound [of "pe_writer p"] pump_run_conn [OF assms(1)]
    by (cases "pe_reader p") (auto simp: wind_work_def conn_ok_def)
  moreover have "k \<le> wind_work p \<and> ((\<exists>p''. wind_step p' p'') \<or> run_returned p' \<and> pe_blocked p' = [])"
    if "(wind_step ^^ k) p p'" for k p'
    using wind_run_work [OF that assms(2)] wind_progress [OF wind_run_conn [OF that pump_run_conn [OF assms(1)]]]
    by auto
  ultimately show ?thesis
    using closed_never_blocks(1) [OF assms(2)] by (meson order_trans)
qed

text \<open>A connection whose read fails right after its first frames.\<close>

theorem dead_connection_releases_witness:
  "\<exists>p p'. pump_run ''a'' 4 [register_frame ''a'' 5 JNull] p \<and> pe_done p \<and> pe_writer p = Running \<and>
     wind_step p p' \<and> run_returned p' \<and> fst (Send False 7 TypeTestStop None p) \<noteq> SendBlocked \<and>
     ((\<exists>p''. wind_step p' p'') \<or> run_returned p' \<and> pe_blocked p' = [])"
proof -
  let ?p = "first_frames ''a'' 5 JNull"
  let ?q = "read_error ''reset'' ?p"
  have r: "pe_reader ?p = Running" "pe_pong ?p = None" "\<not> pe_done ?p"
    by (simp_all add: first_frames_def Send_def stamp_def enqueue_def NewPeer_def sendBuffer_def
      write_ping_def write_result_def sendPing_def pingFrame_def Let_def writeFrame_def write_next_def)
  have run: "pump_run ''a'' 4 [register_frame ''a'' 5 JNull] ?q"
    using pump_run.step [OF first_frames_run pump_step.read_fails [OF r(1,2)]] by simp
  have q: "pe_writer ?q = Running" "pe_done ?q" "pe_reader ?q = Exited"
    using r(3) by (simp_all add: read_error_def reader_exit_def first_frames_wire)
  let ?e = "write_done ?q"
  have st: "wind_step ?q ?e"
    by (rule wind_step.stops [OF q(1,2)])
  then have "(wind_step ^^ 1) ?q ?e" by (simp only: relpowp_1)
  with dead_connection_releases [OF run q(2)]
  have "fst (Send False 7 TypeTestStop None ?q) \<noteq> SendBlocked"
    "(\<exists>p''. wind_step ?e p'') \<or> run_returned ?e \<and> pe_blocked ?e = []"
    by blast+
  moreover have "run_returned ?e"
    using q by (simp add: run_returned_def write_done_def)
  ultimately show ?thesis
    using run q st by blast
qed

end
