(* ===== verification/Channels.thy ===== *)
theory Channels
  imports Prelude
begin

text \<open>
  Buffered Go channels as the program uses them, and the contract of a non-blocking fan-out:
  an object that owns a set of subscriber channels and offers every published item to each of
  them with \<open>select { case ch <- m: default: }\<close>.  Both the event bus
  (\<open>logging.EventBus\<close>) and the browser hub (\<open>uistream.Hub\<close>) are such objects; what a
  subscriber sees is proved once, in the locale.  Sending on a closed channel and closing a
  closed channel panic: \<^const>\<open>None\<close>.
\<close>

record 'm chan =
  ch_buf :: "'m list"
  ch_cap :: nat
  ch_closed :: bool

definition make_chan :: "nat \<Rightarrow> 'm chan" where
  "make_chan cap = \<lparr>ch_buf = [], ch_cap = cap, ch_closed = False\<rparr>"

text \<open>The buffer after a send that gives up when the channel is full.\<close>

definition offer :: "'m \<Rightarrow> 'm chan \<Rightarrow> 'm chan" where
  "offer m c = (if length (ch_buf c) < ch_cap c then c\<lparr>ch_buf := ch_buf c @ [m]\<rparr> else c)"

definition try_send :: "'m \<Rightarrow> 'm chan \<Rightarrow> 'm chan option" where
  "try_send m c = (if ch_closed c then None else Some (offer m c))"

definition close_chan :: "'m chan \<Rightarrow> 'm chan option" where
  "close_chan c = (if ch_closed c then None else Some (c\<lparr>ch_closed := True\<rparr>))"

lemma offer_sel [simp]: "ch_cap (offer m c) = ch_cap c" "ch_closed (offer m c) = ch_closed c"
  by (simp_all add: offer_def)

lemma make_chan_sel [simp]:
  "ch_buf (make_chan n) = []" "ch_cap (make_chan n) = n" "ch_closed (make_chan n) = False"
  by (simp_all add: make_chan_def)

definition offer_all :: "'m list \<Rightarrow> 'm chan \<Rightarrow> 'm chan" where
  "offer_all ms c = fold offer ms c"

text \<open>Offering a sequence keeps the longest prefix that fits: a slow reader loses the newest
  items, never the order.\<close>

lemma offer_all_buf:
  "length (ch_buf c) \<le> ch_cap c \<Longrightarrow>
   ch_buf (offer_all ms c) = take (ch_cap c) (ch_buf c @ ms)
   \<and> ch_cap (offer_all ms c) = ch_cap c \<and> ch_closed (offer_all ms c) = ch_closed c"
proof (induction ms arbitrary: c)
  case (Cons m ms)
  have "length (ch_buf (offer m c)) \<le> ch_cap (offer m c)"
    using Cons.prems by (simp add: offer_def)
  from Cons.IH [OF this] show ?case
    using Cons.prems by (simp add: offer_all_def offer_def take_Cons')
qed (simp add: offer_all_def)

text \<open>Sending one item to each of a list of channels, at addresses of a heap of channels.\<close>

fun send_each :: "'m \<Rightarrow> nat list \<Rightarrow> (nat \<Rightarrow> 'm chan) \<Rightarrow> (nat \<Rightarrow> 'm chan) option" where
  "send_each m [] h = Some h"
| "send_each m (i # is) h =
     (case try_send m (h i) of None \<Rightarrow> None | Some c \<Rightarrow> send_each m is (h(i := c)))"

lemma send_each_open:
  "distinct is \<Longrightarrow> (\<forall>i \<in> set is. \<not> ch_closed (h i)) \<Longrightarrow>
   send_each m is h = Some (\<lambda>i. if i \<in> set is then offer m (h i) else h i)"
proof (induction "is" arbitrary: h)
  case (Cons i "is")
  then have "send_each m is (h(i := offer m (h i)))
      = Some (\<lambda>j. if j \<in> set is then offer m ((h(i := offer m (h i))) j) else (h(i := offer m (h i))) j)"
    by (intro Cons.IH) auto
  with Cons.prems show ?case
    by (auto simp: try_send_def fun_eq_iff)
qed simp

subsection \<open>The fan-out contract\<close>

locale fanout =
  fixes ok :: "'s \<Rightarrow> bool"
    and subs :: "'s \<Rightarrow> nat set"
    and chan_at :: "'s \<Rightarrow> nat \<Rightarrow> 'm chan"
    and wants :: "'s \<Rightarrow> 'a \<Rightarrow> nat \<Rightarrow> bool"
    and item :: "'a \<Rightarrow> 'm"
    and publish :: "'a \<Rightarrow> 's \<Rightarrow> 's option"
  assumes publish_some: "ok s \<Longrightarrow> \<exists>s'. publish a s = Some s'"
    and publish_ok: "ok s \<Longrightarrow> publish a s = Some s' \<Longrightarrow> ok s'"
    and publish_subs: "ok s \<Longrightarrow> publish a s = Some s' \<Longrightarrow> subs s' = subs s"
    and publish_wants: "ok s \<Longrightarrow> publish a s = Some s' \<Longrightarrow> wants s' = wants s"
    and publish_chan: "ok s \<Longrightarrow> publish a s = Some s' \<Longrightarrow>
      chan_at s' i = (if i \<in> subs s \<and> wants s a i then offer (item a) (chan_at s i) else chan_at s i)"
begin

fun publish_all :: "'a list \<Rightarrow> 's \<Rightarrow> 's option" where
  "publish_all [] s = Some s"
| "publish_all (a # as) s = (case publish a s of None \<Rightarrow> None | Some s' \<Rightarrow> publish_all as s')"

text \<open>Publishing never panics, and every subscriber's channel is offered exactly the items it
  wants, in order.\<close>

lemma publish_all_chan:
  "ok s \<Longrightarrow> \<exists>s'. publish_all as s = Some s' \<and> ok s' \<and> subs s' = subs s \<and> wants s' = wants s \<and>
     (\<forall>i. chan_at s' i =
        (if i \<in> subs s then offer_all (map item (filter (\<lambda>a. wants s a i) as)) (chan_at s i)
         else chan_at s i))"
proof (induction as arbitrary: s)
  case Nil
  then show ?case by (simp add: offer_all_def)
next
  case (Cons a as)
  obtain s1 where s1: "publish a s = Some s1"
    using publish_some [OF Cons.prems] by blast
  note step = publish_ok [OF Cons.prems s1] publish_subs [OF Cons.prems s1]
    publish_wants [OF Cons.prems s1] publish_chan [OF Cons.prems s1]
  from Cons.IH [OF step(1)] obtain s' where s': "publish_all as s1 = Some s'" "ok s'"
    "subs s' = subs s1" "wants s' = wants s1"
    "\<forall>i. chan_at s' i = (if i \<in> subs s1
        then offer_all (map item (filter (\<lambda>a. wants s1 a i) as)) (chan_at s1 i) else chan_at s1 i)"
    by blast
  then show ?case
    using s1 step by (auto simp: offer_all_def)
qed

lemma publish_all_buf:
  assumes "ok s" and "i \<in> subs s" and "length (ch_buf (chan_at s i)) \<le> ch_cap (chan_at s i)"
  shows "\<exists>s'. publish_all as s = Some s' \<and> ch_buf (chan_at s' i) =
     take (ch_cap (chan_at s i)) (ch_buf (chan_at s i) @ map item (filter (\<lambda>a. wants s a i) as))"
  using publish_all_chan [OF assms(1), of as] assms(2) offer_all_buf [OF assms(3)] by auto

end

end
