(* ===== verification/Logging.thy ===== *)
theory Logging
  imports Channels Json
begin

text \<open>
  \<open>internal/logging/events.go\<close>: the structured event, the attribute list written to the
  process log, and the event bus.  The bus keeps its subscriber channels in a map from
  subscription number to channel; a channel outlives its subscription (the subscriber may
  still drain it), so the model keeps all channels in one heap and the map's keys in
  \<open>bus_subs\<close>.  The bus interprets \<open>fanout\<close>.
\<close>

text \<open>An \<open>any\<close> value of \<open>Event.Fields\<close>: the kinds the program stores, and what a field
  decoded from a frame holds.\<close>

datatype any_val = AInt int | AU64 u64 | ABool bool | AStr string | AStrs "string list" | AJson json

text \<open>Times are nanoseconds; 0 stands for the zero \<open>time.Time\<close>.\<close>

record event =
  ev_Type :: string
  ev_Time :: int
  ev_AgentID :: string
  ev_PeerID :: string
  ev_Seq :: u64
  ev_Detail :: string
  ev_Fields :: "(string \<times> any_val) list"

definition event0 :: "string \<Rightarrow> event" where
  "event0 t = \<lparr>ev_Type = t, ev_Time = 0, ev_AgentID = '''', ev_PeerID = '''', ev_Seq = 0,
     ev_Detail = '''', ev_Fields = []\<rparr>"

definition ControllerStarted :: string where "ControllerStarted = ''CONTROLLER_STARTED''"
definition AgentStarted :: string where "AgentStarted = ''AGENT_STARTED''"
definition AgentJoined :: string where "AgentJoined = ''AGENT_JOINED''"
definition AgentRegistered :: string where "AgentRegistered = ''AGENT_REGISTERED''"
definition AgentDropped :: string where "AgentDropped = ''AGENT_DROPPED''"
definition AgentConfigUpdated :: string where "AgentConfigUpdated = ''AGENT_CONFIG_UPDATED''"
definition AgentEvicted :: string where "AgentEvicted = ''AGENT_EVICTED''"
definition WSConnected :: string where "WSConnected = ''WS_CONNECTED''"
definition WSDisconnected :: string where "WSDisconnected = ''WS_DISCONNECTED''"
definition WSReconnecting :: string where "WSReconnecting = ''WS_RECONNECTING''"
definition TestStarted :: string where "TestStarted = ''TEST_STARTED''"
definition TestStopped :: string where "TestStopped = ''TEST_STOPPED''"
definition PortBound :: string where "PortBound = ''PORT_BOUND''"
definition PortUnavailable :: string where "PortUnavailable = ''PORT_UNAVAILABLE''"
definition RoutingUpdated :: string where "RoutingUpdated = ''ROUTING_UPDATED''"
definition MeshSummary :: string where "MeshSummary = ''MESH_SUMMARY''"
definition FlowDegraded :: string where "FlowDegraded = ''FLOW_DEGRADED''"
definition FlowCritical :: string where "FlowCritical = ''FLOW_CRITICAL''"
definition FlowRecovered :: string where "FlowRecovered = ''FLOW_RECOVERED''"
definition PacketSequenceMissed :: string where "PacketSequenceMissed = ''PACKET_SEQUENCE_MISSED''"
definition TelemetrySpooled :: string where "TelemetrySpooled = ''TELEMETRY_SPOOLED''"
definition TelemetryFlushed :: string where "TelemetryFlushed = ''TELEMETRY_FLUSHED''"
definition DiagRequested :: string where "DiagRequested = ''DIAG_REQUESTED''"
definition DiagRejected :: string where "DiagRejected = ''DIAG_REJECTED''"
definition DiagCompleted :: string where "DiagCompleted = ''DIAG_COMPLETED''"
definition AuthRejected :: string where "AuthRejected = ''AUTH_REJECTED''"

subsection \<open>Emit\<close>

text \<open>The attributes handed to the structured log, in order.\<close>

definition log_attrs :: "event \<Rightarrow> (string \<times> any_val) list" where
  "log_attrs e =
     [(''event'', AStr (ev_Type e))]
     @ (if ev_AgentID e \<noteq> '''' then [(''agentId'', AStr (ev_AgentID e))] else [])
     @ (if ev_PeerID e \<noteq> '''' then [(''peerId'', AStr (ev_PeerID e))] else [])
     @ (if ev_Seq e \<noteq> 0 then [(''seq'', AU64 (ev_Seq e))] else [])
     @ (if ev_Detail e \<noteq> '''' then [(''detail'', AStr (ev_Detail e))] else [])
     @ ev_Fields e"

record event_bus =
  bus_next :: nat
  bus_subs :: "nat list"
  bus_heap :: "nat \<Rightarrow> event chan"

definition NewEventBus :: event_bus where
  "NewEventBus = \<lparr>bus_next = 0, bus_subs = [], bus_heap = (\<lambda>_. make_chan 0)\<rparr>"

definition Subscribe :: "int \<Rightarrow> event_bus \<Rightarrow> nat \<times> event_bus" where
  "Subscribe buffer b =
     (let buffer' = (if buffer \<le> 0 then 64 else buffer); i = bus_next b in
      (i, b\<lparr>bus_next := Suc i, bus_subs := bus_subs b @ [i],
             bus_heap := (bus_heap b)(i := make_chan (nat buffer'))\<rparr>))"

definition Unsubscribe :: "nat \<Rightarrow> event_bus \<Rightarrow> event_bus option" where
  "Unsubscribe i b =
     (if i \<in> set (bus_subs b) then
        (case close_chan (bus_heap b i) of None \<Rightarrow> None
         | Some c \<Rightarrow> Some (b\<lparr>bus_subs := removeAll i (bus_subs b), bus_heap := (bus_heap b)(i := c)\<rparr>))
      else Some b)"

definition Publish :: "event \<Rightarrow> event_bus \<Rightarrow> event_bus option" where
  "Publish e b = map_option (\<lambda>h. b\<lparr>bus_heap := h\<rparr>) (send_each e (bus_subs b) (bus_heap b))"

text \<open>\<open>Logger.Emit\<close>: the log record written and the bus after publishing.\<close>

definition Emit :: "int \<Rightarrow> event \<Rightarrow> event_bus \<Rightarrow> (string \<times> any_val) list \<times> event_bus option" where
  "Emit now e b =
     (let e' = (if ev_Time e = 0 then e\<lparr>ev_Time := now\<rparr> else e) in (log_attrs e', Publish e' b))"

subsection \<open>The bus never panics and keeps its subscriptions open\<close>

definition bus_ok :: "event_bus \<Rightarrow> bool" where
  "bus_ok b \<longleftrightarrow> distinct (bus_subs b) \<and> (\<forall>i \<in> set (bus_subs b). i < bus_next b)
     \<and> (\<forall>i \<in> set (bus_subs b). \<not> ch_closed (bus_heap b i))"

lemma bus_ok_new [keeps]: "bus_ok NewEventBus"
  by (simp add: bus_ok_def NewEventBus_def)

lemma bus_ok_subscribe [keeps]: "bus_ok b \<Longrightarrow> bus_ok (snd (Subscribe n b))"
  by (auto simp: bus_ok_def Subscribe_def Let_def)

lemma bus_ok_unsubscribe [keeps]:
  "bus_ok b \<Longrightarrow> \<exists>b'. Unsubscribe i b = Some b' \<and> bus_ok b' \<and> i \<notin> set (bus_subs b')"
  by (auto simp: bus_ok_def Unsubscribe_def close_chan_def distinct_removeAll)

lemma Publish_open:
  "bus_ok b \<Longrightarrow> Publish e b =
   Some (b\<lparr>bus_heap := \<lambda>i. if i \<in> set (bus_subs b) then offer e (bus_heap b i) else bus_heap b i\<rparr>)"
  by (simp add: bus_ok_def Publish_def send_each_open)

interpretation event_fanout: fanout bus_ok "\<lambda>b. set (bus_subs b)" bus_heap "\<lambda>_ _ _. True" "\<lambda>e. e" Publish
  by unfold_locales (auto simp: Publish_open bus_ok_def)

end
