(* ===== verification/Spooler.thy ===== *)
theory Spooler
  imports Protocol
begin

text \<open>
  \<open>internal/spooler/spooler.go\<close>: the bounded ring of metrics an agent fills while it is
  disconnected.  The abstract view is the list of buffered metrics, oldest first, and the
  contract is the locale \<open>spool_queue\<close>: a push appends and drops the oldest entry when the
  queue is full, a drain returns everything in order.  The ring interprets it; the agent
  client works against the contract only.
\<close>

definition DefaultCapacity :: int where
  "DefaultCapacity = 1000"

record spooler =
  sp_buf :: "metric list"
  sp_head :: nat
  sp_size :: nat
  sp_overflow :: u64

text \<open>\<open>New\<close>.\<close>

definition sp_New :: "int \<Rightarrow> spooler" where
  "sp_New capacity =
     (let cap = (if capacity \<le> 0 then DefaultCapacity else capacity) in
      \<lparr>sp_buf = replicate (nat cap) zero_metric, sp_head = 0, sp_size = 0, sp_overflow = 0\<rparr>)"

definition Push :: "metric \<Rightarrow> spooler \<Rightarrow> spooler" where
  "Push m s =
     (let n = length (sp_buf s); tail = (sp_head s + sp_size s) mod n in
      if sp_size s = n then
        s\<lparr>sp_buf := (sp_buf s)[tail := m], sp_head := (sp_head s + 1) mod n,
          sp_overflow := sp_overflow s + 1\<rparr>
      else s\<lparr>sp_buf := (sp_buf s)[tail := m], sp_size := sp_size s + 1\<rparr>)"

text \<open>\<open>Drain\<close>: the loop that copies the entries out, and the reset of the indices.\<close>

definition Drain :: "spooler \<Rightarrow> metric list \<times> spooler" where
  "Drain s =
     (if sp_size s = 0 then ([], s)
      else (map (\<lambda>i. sp_buf s ! ((sp_head s + i) mod length (sp_buf s))) [0..<sp_size s],
            s\<lparr>sp_head := 0, sp_size := 0\<rparr>))"

definition Len :: "spooler \<Rightarrow> nat" where
  "Len s = sp_size s"

definition Cap :: "spooler \<Rightarrow> nat" where
  "Cap s = length (sp_buf s)"

definition OverflowDropped :: "spooler \<Rightarrow> u64" where
  "OverflowDropped s = sp_overflow s"

subsection \<open>Abstract view and invariant\<close>

definition sp_ok :: "spooler \<Rightarrow> bool" where
  "sp_ok s \<longleftrightarrow> 0 < length (sp_buf s) \<and> sp_head s < length (sp_buf s) \<and> sp_size s \<le> length (sp_buf s)"

definition contents :: "spooler \<Rightarrow> metric list" where
  "contents s = map (\<lambda>i. sp_buf s ! ((sp_head s + i) mod length (sp_buf s))) [0..<sp_size s]"

lemma length_contents [simp]: "length (contents s) = sp_size s"
  by (simp add: contents_def)

lemma sp_ok_New [keeps]: "sp_ok (sp_New c)"
  by (simp add: sp_ok_def sp_New_def DefaultCapacity_def)

lemma contents_New [observe]: "contents (sp_New c) = []"
  by (simp add: contents_def sp_New_def Let_def)

lemma Cap_New: "Cap (sp_New c) = nat (if c \<le> 0 then 1000 else c)"
  by (simp add: Cap_def sp_New_def DefaultCapacity_def)

lemma sp_ok_Push [keeps]: "sp_ok s \<Longrightarrow> sp_ok (Push m s)"
  by (auto simp: sp_ok_def Push_def Let_def)

lemma Cap_Push [simp]: "Cap (Push m s) = Cap s"
  by (simp add: Cap_def Push_def Let_def)

lemma mod_index_inject:
  assumes "i < n" and "j < n" and "(h + i) mod n = (h + j) mod (n :: nat)"
  shows "i = j"
proof -
  have le: "a = b" if "a \<le> b" "b < n" "(h + b) mod n = (h + a) mod n" for a b
  proof -
    have "n dvd (h + b) - (h + a)"
      using that mod_eq_dvd_iff_nat [of "h + a" "h + b" n] by simp
    with that show ?thesis by (auto dest!: dvd_imp_le)
  qed
  show ?thesis
    using le [of i j] le [of j i] assms by (cases "i \<le> j") auto
qed

text \<open>A push at a free slot appends; a push into a full ring replaces the oldest entry.\<close>

lemma contents_Push_free:
  assumes "sp_ok s" and "sp_size s < length (sp_buf s)"
  shows "contents (Push m s) = contents s @ [m]"
proof (rule nth_equalityI)
  let ?n = "length (sp_buf s)"
  fix i assume "i < length (contents (Push m s))"
  with assms have i: "i < Suc (sp_size s)" by (simp add: Push_def Let_def)
  have "(sp_buf s)[(sp_head s + sp_size s) mod ?n := m] ! ((sp_head s + i) mod ?n) = sp_buf s ! ((sp_head s + i) mod ?n)"
    if "i < sp_size s"
    using that assms mod_index_inject [of i ?n "sp_size s" "sp_head s"]
    by (intro nth_list_update_neq) auto
  with assms i show "contents (Push m s) ! i = (contents s @ [m]) ! i"
    by (auto simp: contents_def Push_def Let_def nth_append less_Suc_eq sp_ok_def)
qed (use assms in \<open>simp add: Push_def Let_def\<close>)

lemma contents_Push_full:
  assumes "sp_ok s" and "sp_size s = length (sp_buf s)"
  shows "contents (Push m s) = tl (contents s) @ [m]"
proof (rule nth_equalityI)
  let ?n = "length (sp_buf s)"
  have n: "0 < ?n" using assms by (simp add: sp_ok_def)
  fix i assume "i < length (contents (Push m s))"
  with assms have i: "i < ?n" by (simp add: Push_def Let_def)
  have ix: "((sp_head s + 1) mod ?n + i) mod ?n = (sp_head s + Suc i) mod ?n"
    by (simp add: mod_simps)
  show "contents (Push m s) ! i = (tl (contents s) @ [m]) ! i"
  proof (cases "Suc i < ?n")
    case True
    have "(sp_head s + Suc i) mod ?n \<noteq> (sp_head s + 0) mod ?n"
      using mod_index_inject [of "Suc i" ?n 0 "sp_head s"] True n by auto
    with True assms ix show ?thesis
      by (simp add: contents_def Push_def Let_def nth_append nth_tl nth_list_update_neq)
  next
    case False
    with i have "Suc i = ?n" by simp
    then have "((sp_head s + 1) mod ?n + i) mod ?n = (sp_head s + ?n) mod ?n"
      using ix by simp
    with assms \<open>Suc i = ?n\<close> n show ?thesis
      by (simp add: contents_def Push_def Let_def nth_append)
  qed
qed (use assms in \<open>auto simp: Push_def Let_def sp_ok_def\<close>)

definition push_bounded :: "nat \<Rightarrow> 'a \<Rightarrow> 'a list \<Rightarrow> 'a list" where
  "push_bounded cap x xs = (if length xs < cap then xs @ [x] else tl xs @ [x])"

lemma contents_Push [observe]: "sp_ok s \<Longrightarrow> contents (Push m s) = push_bounded (Cap s) m (contents s)"
  using contents_Push_free contents_Push_full
  by (auto simp: push_bounded_def Cap_def sp_ok_def le_less)

lemma overflow_Push:
  "sp_ok s \<Longrightarrow> OverflowDropped (Push m s) =
   OverflowDropped s + (if length (contents s) < Cap s then 0 else 1)"
  by (auto simp: OverflowDropped_def Push_def Let_def Cap_def sp_ok_def)

lemma Drain_result [observe]: "fst (Drain s) = contents s"
  by (simp add: Drain_def contents_def)

lemma sp_ok_Drain [keeps]: "sp_ok s \<Longrightarrow> sp_ok (snd (Drain s))"
  by (auto simp: sp_ok_def Drain_def)

lemma contents_Drain [observe]: "contents (snd (Drain s)) = []"
  by (simp add: Drain_def contents_def)

lemma Cap_Drain [simp]: "Cap (snd (Drain s)) = Cap s"
  by (simp add: Cap_def Drain_def)

lemma overflow_Drain [simp]: "OverflowDropped (snd (Drain s)) = OverflowDropped s"
  by (simp add: OverflowDropped_def Drain_def)

subsection \<open>The contract\<close>

locale spool_queue =
  fixes push :: "'m \<Rightarrow> 'q \<Rightarrow> 'q"
    and drain :: "'q \<Rightarrow> 'm list \<times> 'q"
    and items :: "'q \<Rightarrow> 'm list"
    and cap :: "'q \<Rightarrow> nat"
    and ok :: "'q \<Rightarrow> bool"
  assumes cap_pos: "ok q \<Longrightarrow> 0 < cap q"
    and items_le: "ok q \<Longrightarrow> length (items q) \<le> cap q"
    and push_items: "ok q \<Longrightarrow> items (push m q) = push_bounded (cap q) m (items q)"
    and push_ok: "ok q \<Longrightarrow> ok (push m q)"
    and push_cap: "cap (push m q) = cap q"
    and drain_fst: "fst (drain q) = items q"
    and drain_items: "items (snd (drain q)) = []"
    and drain_ok: "ok q \<Longrightarrow> ok (snd (drain q))"
    and drain_cap: "cap (snd (drain q)) = cap q"
begin

definition push_all :: "'m list \<Rightarrow> 'q \<Rightarrow> 'q" where
  "push_all ms q = fold push ms q"

lemma push_all_simps [simp]:
  "push_all [] q = q" "push_all (m # ms) q = push_all ms (push m q)"
  "push_all (xs @ ys) q = push_all ys (push_all xs q)"
  by (simp_all add: push_all_def)

lemma push_all_ok: "ok q \<Longrightarrow> ok (push_all ms q)"
  by (induction ms arbitrary: q) (simp_all add: push_ok)

lemma push_all_cap: "cap (push_all ms q) = cap q"
  by (induction ms arbitrary: q) (simp_all add: push_cap)

text \<open>After any number of pushes the queue holds the newest entries that fit.\<close>

lemma push_all_items: "ok q \<Longrightarrow> items (push_all ms q) = lastn (cap q) (items q @ ms)"
proof (induction ms rule: rev_induct)
  case Nil
  then show ?case by (simp add: items_le)
next
  case (snoc m ms)
  have "length (lastn (cap q) (items q @ ms)) = min (cap q) (length (items q @ ms))"
    by simp
  with snoc cap_pos [of q] lastn_snoc [of "cap q" "items q @ ms" m] show ?case
    by (auto simp: push_items push_all_ok push_all_cap push_bounded_def min_def split: if_splits)
qed

text \<open>Nothing is lost as long as the queue is not asked to hold more than its capacity.\<close>

lemma push_all_lossless:
  "ok q \<Longrightarrow> length (items q) + length ms \<le> cap q \<Longrightarrow> items (push_all ms q) = items q @ ms"
  by (simp add: push_all_items)

lemma drain_after: "ok q \<Longrightarrow> fst (drain (push_all ms q)) = lastn (cap q) (items q @ ms)"
  by (simp add: drain_fst push_all_items)

end

interpretation ring: spool_queue Push Drain contents Cap sp_ok
  by unfold_locales
    (simp_all add: contents_Push Drain_result contents_Drain sp_ok_Push sp_ok_Drain,
      simp_all add: sp_ok_def Cap_def)

subsection \<open>The ring against the abstract queue\<close>

datatype spool_op = OpPush metric | OpDrain

text \<open>What a sequence of operations returns (one list per drain): on the ring, and on a plain
  list bounded by the capacity.\<close>

fun spool_run :: "spool_op list \<Rightarrow> spooler \<Rightarrow> metric list list" where
  "spool_run [] s = []"
| "spool_run (OpPush m # ops) s = spool_run ops (Push m s)"
| "spool_run (OpDrain # ops) s = (case Drain s of (ms, s') \<Rightarrow> ms # spool_run ops s')"

fun queue_run :: "nat \<Rightarrow> spool_op list \<Rightarrow> metric list \<Rightarrow> metric list list" where
  "queue_run cap [] q = []"
| "queue_run cap (OpPush m # ops) q = queue_run cap ops (push_bounded cap m q)"
| "queue_run cap (OpDrain # ops) q = q # queue_run cap ops []"

lemma spool_run_queue_run:
  "sp_ok s \<Longrightarrow> spool_run ops s = queue_run (Cap s) ops (contents s)"
proof (induction ops arbitrary: s)
  case (Cons op ops)
  show ?case
  proof (cases op)
    case (OpPush m)
    with Cons.IH [of "Push m s"] Cons.prems show ?thesis
      by (simp add: sp_ok_Push contents_Push)
  next
    case OpDrain
    obtain ms s' where d: "Drain s = (ms, s')" by (cases "Drain s")
    then have "ms = contents s" "sp_ok s'" "Cap s' = Cap s" "contents s' = []"
      using Drain_result [of s] sp_ok_Drain [OF Cons.prems] Cap_Drain [of s] contents_Drain [of s] by auto
    with Cons.IH [of s'] OpDrain d show ?thesis by simp
  qed
qed simp

lemma overflow_fold:
  "sp_ok s \<Longrightarrow> OverflowDropped (ring.push_all ms s)
   = OverflowDropped s + of_nat (length (contents s @ ms) - Cap s)"
proof (induction ms rule: rev_induct)
  case Nil
  then show ?case by (simp add: sp_ok_def Cap_def)
next
  case (snoc m ms)
  let ?s = "ring.push_all ms s"
  have ok: "sp_ok ?s" and cap: "Cap ?s = Cap s"
    using snoc.prems by (simp_all add: ring.push_all_ok ring.push_all_cap)
  have "length (contents ?s) = min (Cap s) (length (contents s @ ms))"
    using ring.push_all_items [OF snoc.prems, of ms] by (simp del: length_contents length_append)
  then show ?case
    using snoc overflow_Push [OF ok, of m] cap by (auto simp: min_def Suc_diff_le split: if_splits)
qed

text \<open>
  Spooler.Drain after any sequence of Pushes into a fresh spooler returns, oldest first,
  exactly the newest metrics that fit the capacity, and OverflowDropped counts the ones that
  were lost, so an overflow is never silent.
\<close>

theorem spool_keeps_newest:
  "fst (Drain (fold Push ms (sp_New c))) = lastn (Cap (sp_New c)) ms
   \<and> OverflowDropped (fold Push ms (sp_New c)) = of_nat (length ms - Cap (sp_New c))
   \<and> Cap (sp_New c) = nat (if c \<le> 0 then 1000 else c)"
  using ring.drain_after [OF sp_ok_New [of c], of ms] overflow_fold [OF sp_ok_New [of c], of ms]
  by (simp add: ring.push_all_def contents_New Cap_New) (simp add: OverflowDropped_def sp_New_def Let_def)

text \<open>
  C24: Refinement: on every sequence of Push and Drain operations the ring buffer (head, size,
  wrap-around indices, in-place overwrite) returns what a plain first-in first-out list bounded
  by the capacity returns.
\<close>

theorem spool_refines_queue:
  "spool_run ops (sp_New c) = queue_run (Cap (sp_New c)) ops []"
  using spool_run_queue_run [OF sp_ok_New [of c], of ops] by (simp add: contents_New)

end
