(* ===== verification/Client.thy ===== *)
theory Client
  imports Pump Logging Spooler
begin

text \<open>
  \<open>internal/transport/client.go\<close>: the agent's side of the control plane.  The record holds the
  client's fields, the local batch of \<open>telemetryLoop\<close>, and the connections in a heap, since a
  sender may still be blocked on an old connection when the next one is opened.  \<open>connectOnce\<close>
  is split where other goroutines can run in between: opening (REGISTER and spool replay),
  exposing the peer, and the end.  Functions that hand telemetry to a connection return, beside
  the new state and the events, the metrics in the frames the connection accepted.
\<close>

subsection \<open>Backoff\<close>

definition backoffInitial :: int where "backoffInitial = 1000000000"
definition backoffMax :: int where "backoffMax = 30 * 1000000000"
definition stableThreshold :: int where "stableThreshold = 30 * 1000000000"
definition maxBatch :: nat where "maxBatch = 200"
definition intakeBuffer :: nat where "intakeBuffer = 2048"

text \<open>Durations are nanoseconds; the conversion back from \<open>float64\<close> truncates.\<close>

definition nextBackoff :: "int \<Rightarrow> int" where
  "nextBackoff d = (let n = \<lfloor>rat_of_int d * 2\<rfloor> in if n > backoffMax then backoffMax else n)"

text \<open>\<open>r\<close> is the value of \<open>rand.Float64()\<close>.\<close>

definition jittered :: "rat \<Rightarrow> int \<Rightarrow> int" where
  "jittered r d =
     (let delta = (r * 2 - 1) * (1 / 5); wait = \<lfloor>rat_of_int d * (1 + delta)\<rfloor> in
      if wait > backoffMax then backoffMax else wait)"

text \<open>One round of the reconnect loop after \<open>connectOnce\<close>: the wait, and the next backoff.\<close>

definition backoff_round :: "rat \<Rightarrow> int \<Rightarrow> int \<Rightarrow> int \<times> int" where
  "backoff_round r uptime backoff =
     (let b = (if uptime \<ge> stableThreshold then backoffInitial else backoff) in
      (jittered r b, nextBackoff b))"

text \<open>The waits of a sequence of rounds, from the start of \<open>Run\<close>.\<close>

fun backoff_waits :: "int \<Rightarrow> (rat \<times> int) list \<Rightarrow> int list" where
  "backoff_waits b [] = []"
| "backoff_waits b ((r, uptime) # rounds) =
     (case backoff_round r uptime b of (w, b') \<Rightarrow> w # backoff_waits b' rounds)"

definition reconnecting_event :: "string \<Rightarrow> string \<Rightarrow> event" where
  "reconnecting_event agent rounded =
     (event0 WSReconnecting)\<lparr>ev_AgentID := agent, ev_Detail := ''reconnecting in '' @ rounded\<rparr>"

subsection \<open>State\<close>

record client =
  cl_agentID :: string
  cl_hostname :: string
  cl_version :: string
  cl_spool :: spooler
  cl_masterAddr :: string
  cl_peer :: "nat option"
  cl_telemetrySeq :: u64
  cl_telemetryIn :: "metric chan"
  cl_joinToken :: string
  cl_dataPort :: int
  cl_batch :: "metric list"
  cl_waiting :: "(nat \<times> json) option"
  cl_conn :: "nat option"
  cl_peers :: "nat \<Rightarrow> peer"
  cl_next :: nat

definition NewClient ::
  "string \<Rightarrow> string \<Rightarrow> string \<Rightarrow> string \<Rightarrow> string \<Rightarrow> int \<Rightarrow> spooler \<Rightarrow> client" where
  "NewClient agentID hostname version masterAddr joinToken dataPort spool =
     \<lparr>cl_agentID = agentID, cl_hostname = hostname, cl_version = version, cl_spool = spool,
      cl_masterAddr = masterAddr, cl_peer = None, cl_telemetrySeq = 0,
      cl_telemetryIn = make_chan intakeBuffer, cl_joinToken = joinToken, cl_dataPort = dataPort,
      cl_batch = [], cl_waiting = None, cl_conn = None, cl_peers = (\<lambda>_. NewPeer agentID), cl_next = 0\<rparr>"

abbreviation set_peer :: "nat \<Rightarrow> peer \<Rightarrow> client \<Rightarrow> client" where
  "set_peer k p c \<equiv> c\<lparr>cl_peers := (cl_peers c)(k := p)\<rparr>"

definition SetMaster :: "string \<Rightarrow> client \<Rightarrow> client" where
  "SetMaster addr c =
     (let c1 = c\<lparr>cl_masterAddr := addr\<rparr> in
      case cl_peer c1 of None \<Rightarrow> c1 | Some k \<Rightarrow> set_peer k (peer_Close (cl_peers c1 k)) c1)"

subsection \<open>SubmitMetric\<close>

definition stamp_metric :: "int \<Rightarrow> metric \<Rightarrow> client \<Rightarrow> metric" where
  "stamp_metric now m c =
     m\<lparr>m_AgentID := cl_agentID c, m_Seq := cl_telemetrySeq c + 1,
       m_TS := (if m_TS m = 0 then unix_ms now else m_TS m)\<rparr>"

text \<open>The number is taken from an atomic counter before the metric is offered to the intake: between
  the two the goroutine can be overtaken.\<close>

definition submit_stamp :: "client \<Rightarrow> client" where
  "submit_stamp c = c\<lparr>cl_telemetrySeq := cl_telemetrySeq c + 1\<rparr>"

definition submit_offer :: "metric \<Rightarrow> client \<Rightarrow> client" where
  "submit_offer m c =
     (let q = cl_telemetryIn c in
      if length (ch_buf q) < ch_cap q then c\<lparr>cl_telemetryIn := offer m q\<rparr>
      else c\<lparr>cl_spool := Push m (cl_spool c)\<rparr>)"

definition SubmitMetric :: "int \<Rightarrow> metric \<Rightarrow> client \<Rightarrow> client" where
  "SubmitMetric now m c = submit_offer (stamp_metric now m c) (submit_stamp c)"

subsection \<open>telemetryLoop\<close>

definition spooled_event :: "string \<Rightarrow> nat \<Rightarrow> nat \<Rightarrow> event" where
  "spooled_event agent n len = (event0 TelemetrySpooled)\<lparr>ev_AgentID := agent,
     ev_Fields := [(''count'', AInt (int n)), (''spoolLen'', AInt (int len))]\<rparr>"

definition spool_batch :: "client \<Rightarrow> client" where
  "spool_batch c = c\<lparr>cl_spool := fold Push (cl_batch c) (cl_spool c), cl_batch := []\<rparr>"

definition flush :: "bool \<Rightarrow> int \<Rightarrow> client \<Rightarrow> client \<times> metric list \<times> event list" where
  "flush pick now c =
     (if cl_batch c = [] then (c, [], [])
      else case cl_peer c of
        None \<Rightarrow>
          (let c1 = spool_batch c in
           (c1, [], [spooled_event (cl_agentID c) (length (cl_batch c)) (Len (cl_spool c1))]))
      | Some k \<Rightarrow>
          (case Send pick now TypeTelemetry
                  (Some (enc_batch \<lparr>tb_Metrics = cl_batch c, tb_Replay = False\<rparr>)) (cl_peers c k) of
             (SendOk, p) \<Rightarrow> ((set_peer k p c)\<lparr>cl_batch := []\<rparr>, cl_batch c, [])
           | (SendClosed, p) \<Rightarrow> (spool_batch (set_peer k p c), [], [])
           | (SendBlocked, p) \<Rightarrow> ((set_peer k p c)\<lparr>cl_waiting := Some (k, hd (pe_blocked p))\<rparr>, [], [])))"

text \<open>The loop, blocked in that \<open>Send\<close>, is woken.\<close>

definition flush_resume :: "bool \<Rightarrow> client \<Rightarrow> client \<times> metric list \<times> event list" where
  "flush_resume pick c =
     (case cl_waiting c of None \<Rightarrow> (c, [], [])
      | Some (k, b) \<Rightarrow>
          (case retry pick b (cl_peers c k) of
             (SendOk, p) \<Rightarrow> ((set_peer k p c)\<lparr>cl_waiting := None, cl_batch := []\<rparr>, cl_batch c, [])
           | (SendClosed, p) \<Rightarrow> (spool_batch ((set_peer k p c)\<lparr>cl_waiting := None\<rparr>), [], [])
           | (SendBlocked, p) \<Rightarrow> (set_peer k p c, [], [])))"

definition loop_take :: "bool \<Rightarrow> int \<Rightarrow> client \<Rightarrow> client \<times> metric list \<times> event list" where
  "loop_take pick now c =
     (case ch_buf (cl_telemetryIn c) of [] \<Rightarrow> (c, [], [])
      | m # ms \<Rightarrow>
          (let c1 = c\<lparr>cl_telemetryIn := (cl_telemetryIn c)\<lparr>ch_buf := ms\<rparr>, cl_batch := cl_batch c @ [m]\<rparr> in
           if length (cl_batch c1) \<ge> maxBatch then flush pick now c1 else (c1, [], [])))"

subsection \<open>flushSpool\<close>

text \<open>The loop over the chunks.  \<open>Stuck\<close> is a \<open>Send\<close> that finds the queue full while no pump
  drains it.\<close>

datatype flush_end = Flushed | Interrupted | Stuck

function flush_chunks ::
  "bool \<Rightarrow> int \<Rightarrow> metric list \<Rightarrow> peer \<Rightarrow> flush_end \<times> metric list \<times> metric list \<times> peer" where
  "flush_chunks pick now ms p =
     (if ms = [] then (Flushed, [], [], p)
      else case Send pick now TypeTelemetry
             (Some (enc_batch \<lparr>tb_Metrics = take maxBatch ms, tb_Replay = True\<rparr>)) p of
        (SendClosed, p1) \<Rightarrow> (Interrupted, [], ms, p1)
      | (SendBlocked, p1) \<Rightarrow> (Stuck, [], ms, p1)
      | (SendOk, p1) \<Rightarrow>
          (case flush_chunks pick now (drop maxBatch ms) p1 of
             (e, sent, rest, p2) \<Rightarrow> (e, take maxBatch ms @ sent, rest, p2)))"
  by pat_completeness auto
termination
  by (relation "measure (\<lambda>(_, _, ms, _). length ms)") (auto simp: maxBatch_def)

declare flush_chunks.simps [simp del]

definition flushed_event :: "string \<Rightarrow> nat \<Rightarrow> event" where
  "flushed_event agent n = (event0 TelemetryFlushed)\<lparr>ev_AgentID := agent,
     ev_Fields := [(''count'', AInt (int n))]\<rparr>"

definition flushSpool :: "bool \<Rightarrow> int \<Rightarrow> nat \<Rightarrow> client \<Rightarrow> client \<times> metric list \<times> event list" where
  "flushSpool pick now k c =
     (case Drain (cl_spool c) of (ms, sp) \<Rightarrow>
        (let c1 = c\<lparr>cl_spool := sp\<rparr> in
         if ms = [] then (c1, [], [])
         else case flush_chunks pick now ms (cl_peers c1 k) of
           (Flushed, sent, _, p) \<Rightarrow> (set_peer k p c1, sent, [flushed_event (cl_agentID c) (length sent)])
         | (_, sent, rest, p) \<Rightarrow> ((set_peer k p c1)\<lparr>cl_spool := fold Push rest sp\<rparr>, sent, [])))"

subsection \<open>connectOnce\<close>

definition dial_failed :: "string \<Rightarrow> client \<Rightarrow> client \<times> event list" where
  "dial_failed detail c = (c, [(event0 WSDisconnected)\<lparr>ev_AgentID := cl_agentID c, ev_Detail := detail\<rparr>])"

definition register_payload :: "client \<Rightarrow> register" where
  "register_payload c = \<lparr>rg_AgentID = cl_agentID c, rg_Hostname = cl_hostname c,
     rg_Version = cl_version c, rg_DataPort = cl_dataPort c, rg_ResumeSeq = cl_telemetrySeq c\<rparr>"

text \<open>After a successful dial to \<open>addr\<close>: a master changed in the meantime drops the connection;
  otherwise REGISTER and the replay are enqueued on the new peer.\<close>

definition conn_open :: "bool \<Rightarrow> int \<Rightarrow> string \<Rightarrow> client \<Rightarrow> client \<times> metric list \<times> event list" where
  "conn_open pick now addr c =
     (if cl_masterAddr c \<noteq> addr then (c, [], [])
      else let k = cl_next c; c1 = c\<lparr>cl_next := Suc k\<rparr> in
        case Send pick now TypeRegister (Some (enc_register (register_payload c))) (NewPeer (cl_agentID c)) of
          (SendOk, p) \<Rightarrow> flushSpool pick now k ((set_peer k p c1)\<lparr>cl_conn := Some k\<rparr>)
        | (_, p) \<Rightarrow> (set_peer k (peer_Close p) c1, [], []))"

definition conn_expose :: "string \<Rightarrow> client \<Rightarrow> client \<times> event list" where
  "conn_expose addr c = (c\<lparr>cl_peer := cl_conn c\<rparr>,
     [(event0 WSConnected)\<lparr>ev_AgentID := cl_agentID c, ev_Detail := addr\<rparr>])"

text \<open>After \<open>Run\<close> has returned.\<close>

definition conn_finished :: "client \<Rightarrow> client \<times> event list" where
  "conn_finished c = (case cl_conn c of None \<Rightarrow> (c, [])
     | Some k \<Rightarrow> (c\<lparr>cl_peer := None, cl_conn := None\<rparr>,
         [(event0 WSDisconnected)\<lparr>ev_AgentID := cl_agentID c,
            ev_Detail := causeString (Cause (cl_peers c k))\<rparr>]))"

text \<open>Frames from the controller: the acknowledgement is consumed, all else goes to the handler.\<close>

definition client_onControl :: "envelope \<Rightarrow> envelope option" where
  "client_onControl env = (if en_Type env = TypeRegisterAck then None else Some env)"

record status =
  st_Connected :: bool
  st_Master :: string
  st_RTTMicros :: int
  st_FramesRx :: u64
  st_FramesTx :: u64
  st_TelemetrySeq :: u64
  st_SpoolLen :: nat

definition client_Status :: "client \<Rightarrow> status" where
  "client_Status c =
     (let st = \<lparr>st_Connected = False, st_Master = cl_masterAddr c, st_RTTMicros = 0, st_FramesRx = 0,
         st_FramesTx = 0, st_TelemetrySeq = cl_telemetrySeq c, st_SpoolLen = Len (cl_spool c)\<rparr> in
      case cl_peer c of None \<Rightarrow> st
      | Some k \<Rightarrow> let p = cl_peers c k in
          st\<lparr>st_Connected := True, st_RTTMicros := pe_rttMicros p, st_FramesRx := pe_framesRx p,
             st_FramesTx := pe_framesTx p\<rparr>)"

subsection \<open>Backoff bounds\<close>

lemma nextBackoff_eq: "nextBackoff d = min (2 * d) backoffMax"
proof -
  have "\<lfloor>rat_of_int d * 2\<rfloor> = 2 * d"
    using floor_of_int [of "2 * d", where 'a = rat] by (simp add: mult.commute)
  then show ?thesis by (simp add: nextBackoff_def min_def Let_def)
qed

lemma jittered_bounds:
  assumes "0 \<le> r" and "r < 1" and "backoffInitial \<le> d" and "d \<le> backoffMax"
  shows "800000000 \<le> jittered r d \<and> jittered r d \<le> backoffMax"
proof -
  let ?f = "1 + (r * 2 - 1) * (1 / 5)"
  have "4 / 5 \<le> ?f" using assms(1) by (simp add: field_simps)
  moreover have "(1000000000 :: rat) \<le> rat_of_int d"
    using assms(3) by (simp add: backoffInitial_def)
  ultimately have "(1000000000 :: rat) * (4 / 5) \<le> rat_of_int d * ?f"
    by (intro mult_mono) auto
  then have "800000000 \<le> \<lfloor>rat_of_int d * ?f\<rfloor>"
    by (simp add: le_floor_iff)
  then show ?thesis
    by (auto simp: jittered_def Let_def backoffMax_def)
qed

lemma backoff_waits_bounds:
  "backoffInitial \<le> b \<Longrightarrow> b \<le> backoffMax \<Longrightarrow> \<forall>(r, u) \<in> set rounds. 0 \<le> r \<and> r < 1 \<Longrightarrow>
   w \<in> set (backoff_waits b rounds) \<Longrightarrow> 800000000 \<le> w \<and> w \<le> backoffMax"
proof (induction b rounds rule: backoff_waits.induct)
  case (2 b r u rounds)
  let ?b = "if u \<ge> stableThreshold then backoffInitial else b"
  have b: "backoffInitial \<le> ?b" "?b \<le> backoffMax" "backoffInitial \<le> nextBackoff ?b"
      "nextBackoff ?b \<le> backoffMax"
    using 2 by (auto simp: nextBackoff_eq backoffInitial_def backoffMax_def)
  with 2 jittered_bounds [of r ?b] show ?case
    by (auto simp: backoff_round_def Let_def)
qed simp

text \<open>
  Reconnecting neither floods nor stalls: whatever the uptimes and the random draws, every
  wait between two connection attempts lies between 0.8 and 30 seconds.
\<close>

theorem backoff_bounded:
  assumes "\<forall>(r, uptime) \<in> set rounds. 0 \<le> r \<and> r < 1"
  shows "\<forall>w \<in> set (backoff_waits backoffInitial rounds). 800000000 \<le> w \<and> w \<le> 30000000000"
  using backoff_waits_bounds [OF _ _ assms, of backoffInitial]
  by (simp add: backoffInitial_def backoffMax_def)

theorem backoff_bounded_witness:
  "backoff_waits backoffInitial [(1/2, 0), (1/2, 0), (0, 31000000000)] = [1000000000, 2000000000, 800000000] \<and>
   2000000000 \<le> (30000000000 :: int)"
proof -
  have e: "backoff_waits backoffInitial [(1/2, 0), (1/2, 0), (0, 31000000000)] =
      [1000000000, 2000000000, 800000000]"
    by (simp add: backoff_round_def Let_def stableThreshold_def jittered_def backoffInitial_def
        backoffMax_def nextBackoff_eq)
  have "\<forall>w \<in> set [1000000000, 2000000000, 800000000 :: int]. 800000000 \<le> w \<and> w \<le> 30000000000"
    using backoff_bounded [of "[(1/2, 0), (1/2, 0), (0, 31000000000)]"] unfolding e by simp
  then show ?thesis
    using e by simp
qed

subsection \<open>Replaying the spool\<close>

function chunks :: "nat \<Rightarrow> 'a list \<Rightarrow> 'a list list" where
  "chunks n xs = (if xs = [] \<or> n = 0 then [] else take n xs # chunks n (drop n xs))"
  by pat_completeness auto
termination
  by (relation "measure (\<lambda>(_, xs). length xs)") auto

declare chunks.simps [simp del]

lemma chunks_Nil [simp]: "chunks n [] = []"
  by (simp add: chunks.simps)

lemma concat_chunks: "0 < n \<Longrightarrow> concat (chunks n xs) = xs"
  by (induction n xs rule: chunks.induct) (subst chunks.simps, auto)

lemma chunks_sizes: "\<forall>ys \<in> set (chunks n xs). ys \<noteq> [] \<and> length ys \<le> n"
  by (induction n xs rule: chunks.induct) (subst chunks.simps, auto)

lemma length_chunks: "0 < n \<Longrightarrow> length xs \<le> n * k \<Longrightarrow> length (chunks n xs) \<le> k"
proof (induction k arbitrary: xs)
  case (Suc k)
  show ?case
  proof (cases "xs = []")
    case False
    have "length (drop n xs) \<le> n * k" using Suc.prems by simp
    with Suc.IH Suc.prems(1) False show ?thesis by (subst chunks.simps) simp
  qed simp
qed simp

text \<open>What a replay batch says.\<close>

definition replay_content :: "metric list \<Rightarrow> string \<times> json option" where
  "replay_content ms = (TypeTelemetry, Some (enc_batch \<lparr>tb_Metrics = ms, tb_Replay = True\<rparr>))"

lemma flush_chunks_effect:
  "flush_chunks pick now ms p = (e, sent, rest, p') \<Longrightarrow>
   sent @ rest = ms \<and> (e = Flushed \<longleftrightarrow> rest = []) \<and> pe_done p' = pe_done p \<and>
   map frame_content (pe_send p') = map frame_content (pe_send p) @ map replay_content (chunks maxBatch sent)"
proof (induction pick now ms p arbitrary: e sent rest p' rule: flush_chunks.induct)
  case (1 pick now ms p)
  show ?case
  proof (cases "ms = []")
    case True
    with "1.prems" show ?thesis by (simp add: flush_chunks.simps [of _ _ "[]"])
  next
    case False
    obtain r p1 where s: "Send pick now TypeTelemetry
        (Some (enc_batch \<lparr>tb_Metrics = take maxBatch ms, tb_Replay = True\<rparr>)) p = (r, p1)"
      by (cases "Send pick now TypeTelemetry
        (Some (enc_batch \<lparr>tb_Metrics = take maxBatch ms, tb_Replay = True\<rparr>)) p")
    show ?thesis
    proof (cases "r = SendOk")
      case True
      obtain e' sent' rest' p2 where f: "flush_chunks pick now (drop maxBatch ms) p1 = (e', sent', rest', p2)"
        by (cases "flush_chunks pick now (drop maxBatch ms) p1")
      from "1.prems" False s True f have eq: "e = e'" "sent = take maxBatch ms @ sent'" "rest = rest'" "p' = p2"
        by (simp_all add: flush_chunks.simps [of _ _ ms])
      note IH = "1.IH" [OF False s [symmetric] True f]
      have "sent' = [] \<or> maxBatch \<le> length ms"
        using IH by (cases "maxBatch \<le> length ms") auto
      then have "chunks maxBatch (take maxBatch ms @ sent') = take maxBatch ms # chunks maxBatch sent'"
        using False by (subst chunks.simps) (auto simp: maxBatch_def)
      with IH eq Send_effect [OF s] True show ?thesis
        by (auto simp: replay_content_def)
    next
      case False': False
      with "1.prems" False s have "sent = []" "rest = ms" "p' = p1" "e \<noteq> Flushed"
        by (cases r; simp add: flush_chunks.simps [of _ _ ms])+
      with Send_effect [OF s] False False' show ?thesis by simp
    qed
  qed
qed

lemma flush_chunks_room:
  "\<not> pe_done p \<Longrightarrow> length (pe_send p) + length (chunks maxBatch ms) \<le> sendBuffer \<Longrightarrow>
   fst (flush_chunks pick now ms p) = Flushed"
proof (induction pick now ms p rule: flush_chunks.induct)
  case (1 pick now ms p)
  show ?case
  proof (cases "ms = []")
    case True
    then show ?thesis by (simp add: flush_chunks.simps [of _ _ "[]"])
  next
    case False
    then have len: "length (pe_send p) + Suc (length (chunks maxBatch (drop maxBatch ms))) \<le> sendBuffer"
      using "1.prems"(2) by (subst (asm) chunks.simps) (simp add: maxBatch_def)
    obtain p1 where s: "Send pick now TypeTelemetry
        (Some (enc_batch \<lparr>tb_Metrics = take maxBatch ms, tb_Replay = True\<rparr>)) p = (SendOk, p1)"
      using Send_room [OF "1.prems"(1)] len by fastforce
    from "1.IH" [OF False s [symmetric] refl] Send_effect [OF s] "1.prems"(1) len False s
    show ?thesis
      by (cases "flush_chunks pick now (drop maxBatch ms) p1") (simp add: flush_chunks.simps [of _ _ ms])
  qed
qed

lemma contents_fold_Push:
  "sp_ok s \<Longrightarrow> length (contents s) + length ms \<le> Cap s \<Longrightarrow> contents (fold Push ms s) = contents s @ ms"
  using ring.push_all_lossless [of s ms] by (simp add: ring.push_all_def)

lemma sp_ok_fold [keeps]: "sp_ok s \<Longrightarrow> sp_ok (fold Push ms s) \<and> Cap (fold Push ms s) = Cap s"
  using ring.push_all_ok [of s ms] ring.push_all_cap [of ms s] by (simp add: ring.push_all_def)

lemma flushSpool_effect:
  assumes "sp_ok (cl_spool c)" and "flushSpool pick now k c = (c', sent, evs)"
  shows "sent @ contents (cl_spool c') = contents (cl_spool c) \<and> sp_ok (cl_spool c') \<and>
     Cap (cl_spool c') = Cap (cl_spool c) \<and> OverflowDropped (cl_spool c') = OverflowDropped (cl_spool c)"
proof -
  obtain ms sp where d: "Drain (cl_spool c) = (ms, sp)"
    by (cases "Drain (cl_spool c)")
  have sp: "ms = contents (cl_spool c)" "sp_ok sp" "contents sp = []" "Cap sp = Cap (cl_spool c)"
    "OverflowDropped sp = OverflowDropped (cl_spool c)"
    using d Drain_result [of "cl_spool c"] sp_ok_Drain [OF assms(1)] contents_Drain [of "cl_spool c"]
      Cap_Drain [of "cl_spool c"] overflow_Drain [of "cl_spool c"] by auto
  obtain e s2 rest p where f: "flush_chunks pick now ms (cl_peers c k) = (e, s2, rest, p)"
    by (cases "flush_chunks pick now ms (cl_peers c k)")
  note eff = flush_chunks_effect [OF f]
  have le: "length (contents (cl_spool c)) \<le> Cap (cl_spool c)"
    using ring.items_le [OF assms(1)] .
  have "length (s2 @ rest) = length (contents (cl_spool c))"
    using eff sp(1) by simp
  with le have fits: "length rest \<le> Cap (cl_spool c)"
    by simp
  have rest: "contents (fold Push rest sp) = rest"
    using contents_fold_Push [OF sp(2), of rest] fits sp by simp
  have ov: "OverflowDropped (fold Push rest sp) = OverflowDropped sp"
    using overflow_fold [OF sp(2), of rest] fits sp by (simp add: ring.push_all_def)
  show ?thesis
  proof (cases "e = Flushed")
    case True
    with assms(2) d f sp eff show ?thesis
      by (auto simp: flushSpool_def Let_def split: if_splits)
  next
    case False
    with assms(2) d f eff have "ms \<noteq> []" "c' = (set_peer k p (c\<lparr>cl_spool := sp\<rparr>))\<lparr>cl_spool := fold Push rest sp\<rparr>"
      "sent = s2"
      by (cases e; force simp: flushSpool_def Let_def split: if_splits)+
    with rest ov eff sp sp_ok_fold [OF sp(2), of rest] show ?thesis by simp
  qed
qed

text \<open>
  flushSpool loses and duplicates nothing and keeps the order, however the connection behaves:
  the metrics handed to the connection followed by what is back in the spool are exactly
  what the spool held, oldest first, and no overflow is counted; the frames handed over are
  replay-marked batches of at most 200 metrics.
\<close>

theorem flush_conserves:
  assumes "sp_ok (cl_spool c)" and "flushSpool pick now k c = (c', sent, evs)"
  shows "sent @ contents (cl_spool c') = contents (cl_spool c) \<and>
     OverflowDropped (cl_spool c') = OverflowDropped (cl_spool c) \<and>
     (\<exists>batches. concat batches = sent \<and> (\<forall>b \<in> set batches. b \<noteq> [] \<and> length b \<le> 200) \<and>
        map frame_content (pe_send (cl_peers c' k)) =
        map frame_content (pe_send (cl_peers c k)) @ map replay_content batches)"
proof -
  obtain ms sp where d: "Drain (cl_spool c) = (ms, sp)"
    by (cases "Drain (cl_spool c)")
  obtain e s2 rest p where f: "flush_chunks pick now ms (cl_peers c k) = (e, s2, rest, p)"
    by (cases "flush_chunks pick now ms (cl_peers c k)")
  note eff = flush_chunks_effect [OF f]
  have "(ms = [] \<and> sent = [] \<and> cl_peers c' k = cl_peers c k) \<or> (sent = s2 \<and> cl_peers c' k = p)"
    using assms(2) d f by (cases e) (auto simp: flushSpool_def Let_def split: if_splits)
  then have "map frame_content (pe_send (cl_peers c' k)) =
      map frame_content (pe_send (cl_peers c k)) @ map replay_content (chunks maxBatch sent)"
    using eff by auto
  then show ?thesis
    using flushSpool_effect [OF assms] chunks_sizes [of maxBatch sent] concat_chunks [of maxBatch sent]
    by (intro conjI exI [of _ "chunks maxBatch sent"]; simp add: maxBatch_def)
qed

definition demo_client :: client where
  "demo_client = (NewClient ''a'' ''h'' ''1'' ''m:1'' '''' 6000
     (Push (zero_metric\<lparr>m_Seq := 1\<rparr>) (sp_New 4)))\<lparr>cl_telemetrySeq := 1\<rparr>"

lemma demo_client_spool:
  "sp_ok (cl_spool demo_client)" "contents (cl_spool demo_client) = [zero_metric\<lparr>m_Seq := 1\<rparr>]"
  "Cap (cl_spool demo_client) = 4"
  by (simp_all add: demo_client_def NewClient_def sp_ok_New sp_ok_Push contents_Push contents_New Cap_New
      push_bounded_def ring.push_cap)

theorem flush_conserves_witness:
  "\<exists>c' sent evs. flushSpool False 0 0 demo_client = (c', sent, evs) \<and>
     sent @ contents (cl_spool c') = [zero_metric\<lparr>m_Seq := 1\<rparr>]"
proof -
  obtain c' sent evs where f: "flushSpool False 0 0 demo_client = (c', sent, evs)"
    by (cases "flushSpool False 0 0 demo_client")
  from flush_conserves [OF demo_client_spool(1) f] f show ?thesis
    by (auto simp: demo_client_spool)
qed

lemma flushSpool_Flushed:
  assumes "sp_ok (cl_spool c)" and "\<not> pe_done (cl_peers c k)"
    and "length (pe_send (cl_peers c k)) + length (chunks maxBatch (contents (cl_spool c))) \<le> sendBuffer"
    and "flushSpool pick now k c = (c', sent, evs)"
  shows "sent = contents (cl_spool c) \<and> contents (cl_spool c') = [] \<and>
     map frame_content (pe_send (cl_peers c' k)) =
     map frame_content (pe_send (cl_peers c k)) @ map replay_content (chunks maxBatch sent) \<and>
     \<not> pe_done (cl_peers c' k) \<and> cl_conn c' = cl_conn c \<and> cl_peer c' = cl_peer c"
proof -
  obtain ms sp where d: "Drain (cl_spool c) = (ms, sp)"
    by (cases "Drain (cl_spool c)")
  have ms: "ms = contents (cl_spool c)" "contents sp = []"
    using d Drain_result [of "cl_spool c"] contents_Drain [of "cl_spool c"] by auto
  obtain e s2 rest p where f: "flush_chunks pick now ms (cl_peers c k) = (e, s2, rest, p)"
    by (cases "flush_chunks pick now ms (cl_peers c k)")
  have "e = Flushed"
    using flush_chunks_room [OF assms(2), of ms pick now] assms(3) f ms by simp
  with assms(2,4) d f ms flush_chunks_effect [OF f] show ?thesis
    by (cases "ms = []") (auto simp: flushSpool_def Let_def)
qed

lemma flushSpool_frame:
  "flushSpool pick now k c = (c', ms, evs) \<Longrightarrow> cl_batch c' = cl_batch c \<and> cl_telemetryIn c' = cl_telemetryIn c \<and>
     cl_waiting c' = cl_waiting c \<and> cl_next c' = cl_next c \<and> cl_telemetrySeq c' = cl_telemetrySeq c \<and>
     cl_masterAddr c' = cl_masterAddr c \<and> (\<forall>j. j \<noteq> k \<longrightarrow> cl_peers c' j = cl_peers c j)"
  by (auto simp: flushSpool_def Let_def split: prod.splits if_splits flush_end.splits)

text \<open>Opening a connection while the master is unchanged, for a spool that fits into the queue.\<close>

lemma conn_open_works:
  assumes "sp_ok (cl_spool c)" and "Cap (cl_spool c) \<le> 51000"
    and "conn_open pick now (cl_masterAddr c) c = (c', sent, evs)"
  shows "sent = contents (cl_spool c) \<and> contents (cl_spool c') = [] \<and> sp_ok (cl_spool c') \<and>
     Cap (cl_spool c') = Cap (cl_spool c) \<and>
     map frame_content (pe_send (cl_peers c' (cl_next c))) =
       (TypeRegister, Some (enc_register (register_payload c))) #
       map replay_content (chunks maxBatch (contents (cl_spool c))) \<and>
     \<not> pe_done (cl_peers c' (cl_next c)) \<and> cl_conn c' = Some (cl_next c) \<and> cl_peer c' = cl_peer c \<and>
     cl_batch c' = cl_batch c \<and> cl_telemetryIn c' = cl_telemetryIn c \<and> cl_waiting c' = cl_waiting c \<and>
     cl_next c' = Suc (cl_next c) \<and> cl_telemetrySeq c' = cl_telemetrySeq c \<and>
     cl_masterAddr c' = cl_masterAddr c \<and> (\<forall>j. j \<noteq> cl_next c \<longrightarrow> cl_peers c' j = cl_peers c j)"
proof -
  let ?k = "cl_next c" and ?new = "NewPeer (cl_agentID c)"
  let ?v = "Some (enc_register (register_payload c))"
  obtain p where s: "Send pick now TypeRegister ?v ?new = (SendOk, p)"
    using Send_room [of ?new pick now TypeRegister ?v] by (auto simp: NewPeer_def sendBuffer_def)
  let ?c = "(set_peer ?k p (c\<lparr>cl_next := Suc ?k\<rparr>))\<lparr>cl_conn := Some ?k\<rparr>"
  note eff = Send_effect [OF s]
  have len: "length (contents (cl_spool c)) \<le> maxBatch * 255"
    using ring.items_le [OF assms(1)] assms(2) by (simp add: maxBatch_def)
  have room: "length (pe_send p) + length (chunks maxBatch (contents (cl_spool c))) \<le> sendBuffer"
    using length_chunks [OF _ len] eff by (simp add: maxBatch_def sendBuffer_def NewPeer_def)
  have f: "flushSpool pick now ?k ?c = (c', sent, evs)"
    using assms(3) s by (simp add: conn_open_def Let_def)
  have ok: "sp_ok (cl_spool ?c)" "\<not> pe_done (cl_peers ?c ?k)"
    "length (pe_send (cl_peers ?c ?k)) + length (chunks maxBatch (contents (cl_spool ?c))) \<le> sendBuffer"
    using assms(1) eff room by (simp_all add: NewPeer_def)
  have "map frame_content (pe_send p) = [(TypeRegister, ?v)]"
    using eff by (simp add: NewPeer_def)
  with flushSpool_Flushed [OF ok f] flushSpool_effect [OF ok(1) f] flushSpool_frame [OF f] show ?thesis
    by simp
qed

text \<open>
  C13: The first frames of a reconnect: opening a connection (while the master is unchanged) enqueues,
  before the peer is exposed to live telemetry and before any pump runs, the REGISTER with
  the current sequence number, and then the whole spool as replay batches, oldest first;
  the spool is empty afterwards.  No \<open>Send\<close> in it can block, for every spool capacity up
  to 51000 metrics: REGISTER and 255 batches fill the queue of 256.
\<close>

theorem reconnect_replays_spool:
  assumes "sp_ok (cl_spool c)" and "Cap (cl_spool c) \<le> 51000"
    and "conn_open pick now (cl_masterAddr c) c = (c', sent, evs)"
  shows "\<exists>k batches. cl_conn c' = Some k \<and> concat batches = contents (cl_spool c) \<and>
     (\<forall>b \<in> set batches. b \<noteq> [] \<and> length b \<le> 200) \<and>
     map frame_content (pe_send (cl_peers c' k)) =
       (TypeRegister, Some (enc_register (register_payload c))) # map replay_content batches \<and>
     contents (cl_spool c') = [] \<and> sent = contents (cl_spool c) \<and> cl_peer c' = cl_peer c"
  using conn_open_works [OF assms] chunks_sizes [of maxBatch sent] concat_chunks [of maxBatch sent]
  by (intro exI [of _ "cl_next c"] exI [of _ "chunks maxBatch sent"] conjI; simp add: maxBatch_def)

theorem reconnect_replays_spool_witness:
  "\<exists>c' sent evs. conn_open False 0 ''m:1'' demo_client = (c', sent, evs) \<and>
     contents (cl_spool c') = [] \<and> sent = [zero_metric\<lparr>m_Seq := 1\<rparr>]"
proof -
  obtain c' sent evs where o: "conn_open False 0 ''m:1'' demo_client = (c', sent, evs)"
    by (cases "conn_open False 0 ''m:1'' demo_client")
  have "cl_masterAddr demo_client = ''m:1''"
    by (simp add: demo_client_def NewClient_def)
  with reconnect_replays_spool [OF demo_client_spool(1), of False 0 c' sent evs] o show ?thesis
    by (auto simp: demo_client_spool)
qed

end
