(* ===== verification/Probes.thy ===== *)
theory Probes
  imports Protocol GoNet
begin

text \<open>
  \<open>internal/dataplane\<close>, the probes: the packet format, the aggregation of a burst, and the
  four probers (\<open>dataplane.go\<close>, \<open>icmp\_unix.go\<close>, \<open>icmp\_windows.go\<close>).  A prober is a
  function from the flow, the test parameters and what the network and the clock answer (a record per
  prober) to the metric.  The locale \<open>prober\<close> is the contract the engine and the
  controller rely on, and every prober interprets it.
\<close>

subsection \<open>itoa\<close>

text \<open>The buffer has twelve bytes; \<^const>\<open>None\<close> is the index-out-of-range panic.\<close>

function itoa_loop :: "int \<Rightarrow> nat \<Rightarrow> string \<Rightarrow> (nat \<times> string) option" where
  "itoa_loop n i s =
     (if n \<le> 0 then Some (i, s)
      else if i = 0 then None
      else itoa_loop (n div 10) (i - 1) (digit_char (nat (n mod 10)) # s))"
  by pat_completeness auto
termination by (relation "measure (\<lambda>(n, i, s). i)") auto

declare itoa_loop.simps [simp del]

definition itoa :: "int \<Rightarrow> string option" where
  "itoa n =
     (if n = 0 then Some ''0''
      else let neg = n < 0; m = (if neg then wrap64 (- n) else n) in
        case itoa_loop m 12 [] of None \<Rightarrow> None
        | Some (i, s) \<Rightarrow> if neg then (if i = 0 then None else Some (CHR ''-'' # s)) else Some s)"

lemma itoa_loop_digits:
  "0 < n \<Longrightarrow> itoa_loop n i s =
     (if length (dec_digits (nat n)) \<le> i
      then Some (i - length (dec_digits (nat n)), dec_digits (nat n) @ s) else None)"
proof (induction n i s rule: itoa_loop.induct)
  case (1 n i s)
  have d: "nat (n div 10) = nat n div 10" "nat (n mod 10) = nat n mod 10"
    using "1.prems" by (simp_all add: nat_div_distrib nat_mod_distrib)
  show ?case
  proof (cases "n < 10")
    case True
    then have "n div 10 = 0" "nat n < 10" "nat n mod 10 = nat n"
      using "1.prems" by simp_all
    with "1.prems" d show ?thesis
      by (auto simp: itoa_loop.simps [of n] itoa_loop.simps [of 0] dec_digits.simps [of "nat n"])
  next
    case False
    then have "\<not> nat n < 10" "0 < n div 10" by simp_all
    with "1" d show ?thesis
      by (cases i) (auto simp: itoa_loop.simps [of n] dec_digits.simps [of "nat n"])
  qed
qed

lemma itoa_small: "0 \<le> n \<Longrightarrow> n < 10 ^ 12 \<Longrightarrow> itoa n = Some (strconv_itoa n)"
proof -
  assume n: "0 \<le> n" "n < 10 ^ 12"
  show ?thesis
  proof (cases "n = 0")
    case True
    have "digit_char 0 = CHR ''0''"
      by (simp add: digit_char_def char_of_eq_iff)
    with True show ?thesis
      by (simp add: itoa_def strconv_itoa_def dec_digits.simps [of 0])
  next
    case False
    have "nat n < 10 ^ 12" using n by simp
    then have "length (dec_digits (nat n)) \<le> 12"
      by (rule dec_digits_length) simp
    with False n itoa_loop_digits [of n 12 "[]"] show ?thesis
      by (simp add: itoa_def strconv_itoa_def)
  qed
qed

lemma itoa_panics: "10 ^ 12 \<le> n \<Longrightarrow> itoa n = None"
proof -
  assume n: "10 ^ 12 \<le> n"
  then have "10 ^ 12 \<le> nat n" by (simp add: le_nat_iff)
  then have "12 < length (dec_digits (nat n))"
    by (rule dec_digits_length_ge)
  with n itoa_loop_digits [of n 12 "[]"] show ?thesis
    by (simp add: itoa_def)
qed

subsection \<open>The probe packet\<close>

definition probeBurst :: nat where "probeBurst = 4"
definition headerSize :: nat where "headerSize = 20"
definition probeMagic :: "32 word" where "probeMagic = 0x4E4D5044"

text \<open>\<open>encoding/binary\<close>'s big-endian integers.\<close>

fun be_digits :: "nat \<Rightarrow> nat \<Rightarrow> nat list" where
  "be_digits 0 n = []"
| "be_digits (Suc k) n = be_digits k (n div 256) @ [n mod 256]"

definition from_be :: "nat list \<Rightarrow> nat" where
  "from_be ds = foldl (\<lambda>a d. a * 256 + d) 0 ds"

lemma length_be_digits [simp]: "length (be_digits k n) = k"
  by (induction k arbitrary: n) simp_all

lemma be_digits_small: "d \<in> set (be_digits k n) \<Longrightarrow> d < 256"
  by (induction k arbitrary: n) auto

lemma from_be_digits: "from_be (be_digits k n) = n mod 256 ^ k"
proof (induction k arbitrary: n)
  case (Suc k)
  have "from_be (be_digits (Suc k) n) = from_be (be_digits k (n div 256)) * 256 + n mod 256"
    by (simp add: from_be_def)
  also have "\<dots> = n mod (256 * 256 ^ k)"
    by (simp add: Suc.IH mod_mult2_eq)
  finally show ?case by simp
qed (simp add: from_be_def)

definition put_be :: "nat \<Rightarrow> nat \<Rightarrow> bytes" where
  "put_be k n = map of_nat (be_digits k n)"

definition get_be :: "bytes \<Rightarrow> nat" where
  "get_be b = from_be (map unat b)"

lemma length_put_be [simp]: "length (put_be k n) = k"
  by (simp add: put_be_def)

lemma get_put_be: "n < 256 ^ k \<Longrightarrow> get_be (put_be k n) = n"
proof -
  assume n: "n < 256 ^ k"
  have "map (unat \<circ> (of_nat :: nat \<Rightarrow> byte)) (be_digits k n) = be_digits k n"
    by (rule map_idI) (auto dest: be_digits_small simp: unat_of_nat)
  with n show ?thesis
    by (simp add: get_be_def put_be_def from_be_digits)
qed

lemma get_put_be_words:
  "(of_nat (get_be (put_be 4 (unat w))) :: 32 word) = w"
  "(of_nat (get_be (put_be 8 (unat v))) :: 64 word) = v"
proof -
  have "unat w < 256 ^ 4" "unat v < 256 ^ 8"
    by (rule less_le_trans [OF unsigned_less], simp)+
  then show "(of_nat (get_be (put_be 4 (unat w))) :: 32 word) = w"
    "(of_nat (get_be (put_be 8 (unat v))) :: 64 word) = v"
    by (simp_all only: get_put_be of_nat_unat ucast_id)
qed

text \<open>\<open>now\<close> is \<open>time.Now().UnixNano()\<close>.\<close>

definition encodeProbe :: "int \<Rightarrow> u64 \<Rightarrow> int \<Rightarrow> bytes" where
  "encodeProbe now seq sz =
     (let n = nat (if sz < int headerSize then int headerSize else sz) in
      put_be 4 (unat probeMagic) @ put_be 8 (unat seq) @ put_be 8 (unat (word_of_int now :: u64)) @ replicate (n - headerSize) 0)"

definition decodeProbe :: "bytes \<Rightarrow> (u64 \<times> int) option" where
  "decodeProbe b =
     (if length b < headerSize \<or> of_nat (get_be (take 4 b)) \<noteq> probeMagic then None
      else Some (of_nat (get_be (take 8 (drop 4 b))), sint (of_nat (get_be (take 8 (drop 12 b))) :: u64)))"

lemma length_encodeProbe: "length (encodeProbe now seq sz) = nat (max 20 sz)"
  by (auto simp: encodeProbe_def Let_def headerSize_def)

lemma decode_encodeProbe:
  "int64_range now \<Longrightarrow> decodeProbe (encodeProbe now seq sz @ rest) = Some (seq, now)"
  by (simp add: decodeProbe_def encodeProbe_def Let_def headerSize_def int64_range_def get_put_be_words
      signed_of_int signed_take_bit_int_eq_self)

definition payloadSize :: "test_spec \<Rightarrow> int \<Rightarrow> int" where
  "payloadSize spec dflt = (if ts_PayloadSize spec \<ge> int headerSize then ts_PayloadSize spec else dflt)"

subsection \<open>Bursts\<close>

text \<open>\<open>rttSumNs\<close> is an \<open>int64\<close>: adding a round trip to it wraps.\<close>

record burst_result =
  br_received :: nat
  br_rttSumNs :: int

definition burst0 :: burst_result where
  "burst0 = \<lparr>br_received = 0, br_rttSumNs = 0\<rparr>"

definition burst_apply :: "burst_result \<Rightarrow> metric \<Rightarrow> int \<Rightarrow> metric option" where
  "burst_apply br m sent =
     (let loss = (\<lambda>m. if sent > 0
         then m\<lparr>m_PacketLoss := rat_of_int (sent - int (br_received br)) / rat_of_int sent * 100\<rparr> else m) in
      if br_received br > 0
      then Some (loss (m\<lparr>m_Success := True,
                         m_RTTMicros := go_div (go_div (br_rttSumNs br) (int (br_received br))) 1000\<rparr>))
      else case itoa sent of None \<Rightarrow> None
        | Some s \<Rightarrow> Some (loss (m\<lparr>m_Err := ''no echo (all '' @ s @ '' probes lost)''\<rparr>)))"

text \<open>Failure before any echo was awaited.\<close>

definition probe_failed :: "string \<Rightarrow> metric \<Rightarrow> metric" where
  "probe_failed e m = m\<lparr>m_Err := e, m_PacketLoss := 100\<rparr>"

definition start_metric :: "agent_flow \<Rightarrow> int \<Rightarrow> metric" where
  "start_metric flow ts = zero_metric\<lparr>m_Target := af_DstAddr flow, m_TS := ts\<rparr>"

text \<open>One read: the datagram, the time it is handled, and its hop limit when known.\<close>

record arrival =
  ar_data :: bytes
  ar_now :: int
  ar_ttl :: "int option"

definition note_ttl :: "int option \<Rightarrow> metric \<Rightarrow> metric" where
  "note_ttl ttl m = (case ttl of None \<Rightarrow> m | Some t \<Rightarrow> if m_TTL m = 0 then m\<lparr>m_TTL := t\<rparr> else m)"

subsection \<open>The UDP prober\<close>

text \<open>The read loop ends when the burst is complete or the read fails (the list ends).\<close>

fun udp_reads :: "arrival list \<Rightarrow> u64 list \<Rightarrow> burst_result \<Rightarrow> metric \<Rightarrow> burst_result \<times> metric" where
  "udp_reads [] seen br m = (br, m)"
| "udp_reads (a # as) seen br m =
     (if br_received br \<ge> probeBurst then (br, m)
      else case decodeProbe (ar_data a) of
        None \<Rightarrow> udp_reads as seen br m
      | Some (seq, sendNs) \<Rightarrow>
          if seq \<in> set seen then udp_reads as seen br m
          else udp_reads as (seq # seen)
                 \<lparr>br_received = br_received br + 1, br_rttSumNs = wrap64 (br_rttSumNs br + (ar_now a - sendNs))\<rparr>
                 (note_ttl (ar_ttl a) m))"

record udp_env =
  ue_ts :: int
  ue_dial_err :: "string option"
  ue_local :: string
  ue_remote :: string
  ue_write_err :: "string option"
  ue_reads :: "arrival list"

definition udp_Probe :: "udp_env \<Rightarrow> agent_flow \<Rightarrow> test_spec \<Rightarrow> metric option" where
  "udp_Probe env flow spec =
     (let m = start_metric flow (ue_ts env) in
      case ue_dial_err env of Some e \<Rightarrow> Some (probe_failed (''dial: '' @ e) m)
      | None \<Rightarrow>
          let m1 = m\<lparr>m_LocalAddr := ue_local env, m_RemoteAddr := ue_remote env\<rparr> in
          (case ue_write_err env of Some e \<Rightarrow> Some (probe_failed (''write: '' @ e) m1)
           | None \<Rightarrow>
               (case udp_reads (ue_reads env) [] burst0 m1 of
                  (br, m2) \<Rightarrow> burst_apply br m2 (int probeBurst))))"

subsection \<open>The TCP prober\<close>

record tcp_env =
  te_ts :: int
  te_dial_err :: "string option"
  te_local :: string
  te_remote :: string
  te_write_err :: "string option"
  te_read_err :: "string option"
  te_elapsed :: int

definition tcp_Probe :: "tcp_env \<Rightarrow> agent_flow \<Rightarrow> test_spec \<Rightarrow> metric option" where
  "tcp_Probe env flow spec =
     (let m = start_metric flow (te_ts env) in
      case te_dial_err env of Some e \<Rightarrow> Some (probe_failed e m)
      | None \<Rightarrow>
          let m1 = m\<lparr>m_LocalAddr := te_local env, m_RemoteAddr := te_remote env\<rparr> in
          (case te_write_err env of Some e \<Rightarrow> Some (probe_failed (''write: '' @ e) m1)
           | None \<Rightarrow>
               (case te_read_err env of Some e \<Rightarrow> Some (probe_failed (''read: '' @ e) m1)
                | None \<Rightarrow> Some (m1\<lparr>m_Success := True, m_RTTMicros := go_div (te_elapsed env) 1000\<rparr>))))"

subsection \<open>The ICMP prober on Unix\<close>

text \<open>Building and sending one echo request: fine, no message, or no write.\<close>

datatype icmp_send = Sent | MarshalError string | WriteError string

text \<open>One read: whether the source is known and differs from the target, the sequence number and
  data when the packet parses as an echo reply, the time, and the hop limit.\<close>

record icmp_arrival =
  ia_foreign :: bool
  ia_echo :: "(int \<times> bytes) option"
  ia_now :: int
  ia_ttl :: "int option"

fun icmp_reads :: "icmp_arrival list \<Rightarrow> int list \<Rightarrow> burst_result \<Rightarrow> metric \<Rightarrow> burst_result \<times> metric" where
  "icmp_reads [] seen br m = (br, m)"
| "icmp_reads (a # as) seen br m =
     (if br_received br \<ge> probeBurst then (br, m)
      else if ia_foreign a then icmp_reads as seen br m
      else case ia_echo a of
        None \<Rightarrow> icmp_reads as seen br m
      | Some (seq, data) \<Rightarrow>
          if seq \<in> set seen then icmp_reads as seen br m
          else (case decodeProbe data of
              None \<Rightarrow> icmp_reads as seen br m
            | Some (_, sendNs) \<Rightarrow>
                icmp_reads as (seq # seen)
                  \<lparr>br_received = br_received br + 1, br_rttSumNs = wrap64 (br_rttSumNs br + (ia_now a - sendNs))\<rparr>
                  (note_ttl (ia_ttl a) m)))"

record icmp_env =
  ie_ts :: int
  ie_resolve :: "string + string"
  ie_listen_err :: "string option"
  ie_local :: string
  ie_sends :: "icmp_send list"
  ie_reads :: "icmp_arrival list"

fun send_failure :: "icmp_send list \<Rightarrow> string option" where
  "send_failure [] = None"
| "send_failure (Sent # ss) = send_failure ss"
| "send_failure (MarshalError e # ss) = Some e"
| "send_failure (WriteError e # ss) = Some (''write: '' @ e)"

definition icmp_host :: "agent_flow \<Rightarrow> string" where
  "icmp_host flow = (case split_host_port (af_DstAddr flow) of Some (h, _) \<Rightarrow> h | None \<Rightarrow> af_DstAddr flow)"

definition icmp_Probe :: "icmp_env \<Rightarrow> agent_flow \<Rightarrow> test_spec \<Rightarrow> metric option" where
  "icmp_Probe env flow spec =
     (let m = (start_metric flow (ie_ts env))\<lparr>m_Target := icmp_host flow\<rparr> in
      case ie_resolve env of Inl e \<Rightarrow> Some (probe_failed (''resolve: '' @ e) m)
      | Inr ip \<Rightarrow>
          let m1 = m\<lparr>m_RemoteAddr := ip\<rparr> in
          (case ie_listen_err env of
             Some e \<Rightarrow> Some (probe_failed (''icmp socket unavailable (needs privilege): '' @ e) m1)
           | None \<Rightarrow>
               let m2 = m1\<lparr>m_LocalAddr := ie_local env\<rparr> in
               (case send_failure (ie_sends env) of Some e \<Rightarrow> Some (probe_failed e m2)
                | None \<Rightarrow>
                    (case icmp_reads (ie_reads env) [] burst0 m2 of
                       (br, m3) \<Rightarrow> burst_apply br m3 (int probeBurst)))))"

subsection \<open>The ICMP prober on Windows\<close>

text \<open>The reply structure as the system fills it in; \<open>ir\_Data\<close> is the memory the pointer leads
  to, \<^const>\<open>None\<close> the null pointer.\<close>

record icmp_echo_reply =
  ir_Status :: "32 word"
  ir_RoundTripTime :: "32 word"
  ir_DataSize :: "16 word"
  ir_Data :: "bytes option"
  ir_TTL :: "8 word"

text \<open>The two calls, from what the procedure returns: a number and the error of the thread, whose
  code 0 is \<^const>\<open>None\<close>.\<close>

definition icmpCreateFile :: "64 word \<times> string option \<Rightarrow> string + 64 word" where
  "icmpCreateFile called =
     (case called of (r1, err) \<Rightarrow>
        if r1 = - 1 \<or> r1 = 0 then Inl (case err of Some e \<Rightarrow> e | None \<Rightarrow> ''IcmpCreateFile failed'')
        else Inr r1)"

definition icmpSendEcho :: "64 word \<times> string option \<times> icmp_echo_reply \<Rightarrow> string + (icmp_echo_reply \<times> bytes)" where
  "icmpSendEcho called =
     (case called of (r1, err, reply) \<Rightarrow>
        if r1 = 0 then Inl (case err of Some e \<Rightarrow> e | None \<Rightarrow> ''IcmpSendEcho failed'')
        else Inr (reply, case ir_Data reply of
                    None \<Rightarrow> []
                  | Some mem \<Rightarrow> if ir_DataSize reply > 0 then take (unat (ir_DataSize reply)) mem else []))"

text \<open>One round of the loop: the context was cancelled, or the call with the time after it.\<close>

datatype win_round = WinCancelled string | WinCall "64 word \<times> string option \<times> icmp_echo_reply" int

fun win_loop :: "win_round list \<Rightarrow> burst_result \<Rightarrow> metric \<Rightarrow> string \<Rightarrow> bool \<times> burst_result \<times> metric \<times> string" where
  "win_loop [] br m lastErr = (False, br, m, lastErr)"
| "win_loop (WinCancelled e # es) br m lastErr = (True, br, m, e)"
| "win_loop (WinCall called now # es) br m lastErr =
     (case icmpSendEcho called of
        Inl e \<Rightarrow> win_loop es br m e
      | Inr (reply, data) \<Rightarrow>
          if ir_Status reply \<noteq> 0
          then win_loop es br m (''icmp status '' @ strconv_itoa (uint (ir_Status reply)))
          else case decodeProbe data of None \<Rightarrow> win_loop es br m lastErr
          | Some (_, sendNs) \<Rightarrow>
              win_loop es
                \<lparr>br_received = br_received br + 1,
                 br_rttSumNs = wrap64 (br_rttSumNs br +
                   (if ir_RoundTripTime reply > 0 then uint (ir_RoundTripTime reply) * 1000000 else now - sendNs))\<rparr>
                (note_ttl (Some (uint (ir_TTL reply))) m) lastErr)"

record win_env =
  we_ts :: int
  we_resolve :: "string + string"
  we_ip4 :: bool
  we_create :: "64 word \<times> string option"
  we_rounds :: "win_round list"

definition win_Probe :: "win_env \<Rightarrow> agent_flow \<Rightarrow> test_spec \<Rightarrow> metric option" where
  "win_Probe env flow spec =
     (let m = (start_metric flow (we_ts env))\<lparr>m_Target := icmp_host flow\<rparr> in
      case we_resolve env of Inl e \<Rightarrow> Some (probe_failed (''resolve: '' @ e) m)
      | Inr ip \<Rightarrow>
          if \<not> we_ip4 env
          then Some (probe_failed (''resolve: no IPv4 address for '' @ icmp_host flow) m)
          else let m1 = m\<lparr>m_RemoteAddr := ip\<rparr> in
          (case icmpCreateFile (we_create env) of Inl e \<Rightarrow> Some (probe_failed (''icmp unavailable: '' @ e) m1)
           | Inr handle \<Rightarrow>
               (case win_loop (take probeBurst (we_rounds env)) burst0 m1 '''' of
                  (cancelled, br, m2, lastErr) \<Rightarrow>
                    map_option (\<lambda>m3. if \<not> m_Success m3 \<and> (cancelled \<or> lastErr \<noteq> '''')
                                     then m3\<lparr>m_Err := lastErr\<rparr> else m3)
                      (burst_apply br m2 (int probeBurst)))))"

subsection \<open>The contract of a prober\<close>

text \<open>A probe always yields a metric; its loss is a percentage, below 100 exactly for a
  successful probe, and a successful probe reports no error.\<close>

definition verdict_ok :: "metric \<Rightarrow> bool" where
  "verdict_ok m \<longleftrightarrow> 0 \<le> m_PacketLoss m \<and> m_PacketLoss m \<le> 100 \<and>
     (m_Success m \<longleftrightarrow> m_PacketLoss m < 100) \<and> (m_Success m \<longrightarrow> m_Err m = '''')"

locale prober =
  fixes probe :: "'env \<Rightarrow> agent_flow \<Rightarrow> test_spec \<Rightarrow> metric option"
  assumes probe_verdict: "\<exists>m. probe env flow spec = Some m \<and> verdict_ok m"
begin

definition measure_of :: "'env \<Rightarrow> agent_flow \<Rightarrow> test_spec \<Rightarrow> metric" where
  "measure_of env flow spec = the (probe env flow spec)"

lemma probe_total: "probe env flow spec = Some (measure_of env flow spec)"
  using probe_verdict [of env flow spec] by (auto simp: measure_of_def)

lemma measure_verdict: "verdict_ok (measure_of env flow spec)"
  using probe_verdict [of env flow spec] by (auto simp: measure_of_def)

lemma failed_loss: "\<not> m_Success (measure_of env flow spec) \<Longrightarrow> m_PacketLoss (measure_of env flow spec) = 100"
  using measure_verdict [of env flow spec] by (auto simp: verdict_ok_def)

end

text \<open>A metric under construction.\<close>

definition fresh_metric :: "metric \<Rightarrow> bool" where
  "fresh_metric m \<longleftrightarrow> \<not> m_Success m \<and> m_Err m = '''' \<and> m_PacketLoss m = 0"

lemma fresh_note_ttl [simp]: "fresh_metric (note_ttl t m) = fresh_metric m"
  by (simp add: note_ttl_def fresh_metric_def split: option.splits)

lemma fresh_start [simp]: "fresh_metric (start_metric flow ts)"
  "fresh_metric (m\<lparr>m_Target := t\<rparr>) = fresh_metric m" "fresh_metric (m\<lparr>m_RemoteAddr := t\<rparr>) = fresh_metric m"
  "fresh_metric (m\<lparr>m_LocalAddr := t\<rparr>) = fresh_metric m"
  by (simp_all add: fresh_metric_def start_metric_def zero_metric_def)

lemma verdict_failed [simp]: "fresh_metric m \<Longrightarrow> verdict_ok (probe_failed e m)"
  by (simp add: verdict_ok_def probe_failed_def fresh_metric_def)

lemma verdict_err: "verdict_ok m \<Longrightarrow> \<not> m_Success m \<Longrightarrow> verdict_ok (m\<lparr>m_Err := e\<rparr>)"
  by (simp add: verdict_ok_def)

lemma burst_apply_eq:
  "fresh_metric m \<Longrightarrow> \<exists>m'. burst_apply br m 4 = Some m' \<and>
   (m_Success m' \<longleftrightarrow> 0 < br_received br) \<and> (m_Success m' \<longrightarrow> m_Err m' = '''') \<and>
   m_PacketLoss m' = 25 * (4 - rat_of_nat (br_received br))"
  by (auto simp: burst_apply_def Let_def fresh_metric_def itoa_small)

lemma burst_verdict:
  assumes "fresh_metric m" and "br_received br \<le> 4"
  shows "\<exists>m'. burst_apply br m 4 = Some m' \<and> verdict_ok m' \<and> (m_Success m' \<longleftrightarrow> 0 < br_received br)"
proof -
  have "rat_of_nat (br_received br) \<le> 4"
    using assms(2) by (metis of_nat_le_iff of_nat_numeral)
  with burst_apply_eq [OF assms(1), of br] show ?thesis
    by (auto simp: verdict_ok_def)
qed

lemma udp_reads_bound:
  "br_received br \<le> 4 \<Longrightarrow> fresh_metric m \<Longrightarrow> udp_reads as seen br m = (br', m') \<Longrightarrow>
   br_received br' \<le> 4 \<and> fresh_metric m'"
  by (induction as seen br m rule: udp_reads.induct)
    (auto simp: probeBurst_def split: if_splits option.splits)

lemma icmp_reads_bound:
  "br_received br \<le> 4 \<Longrightarrow> fresh_metric m \<Longrightarrow> icmp_reads as seen br m = (br', m') \<Longrightarrow>
   br_received br' \<le> 4 \<and> fresh_metric m'"
  by (induction as seen br m rule: icmp_reads.induct)
    (auto simp: probeBurst_def split: if_splits option.splits)

lemma win_loop_bound:
  "fresh_metric m \<Longrightarrow> win_loop es br m e = (c, br', m', e') \<Longrightarrow>
   br_received br' \<le> br_received br + length es \<and> fresh_metric m'"
  by (induction es br m e rule: win_loop.induct) (fastforce split: option.splits sum.splits if_splits)+

interpretation udp: prober udp_Probe
proof
  fix env :: udp_env and flow spec
  obtain br m' where r: "udp_reads (ue_reads env) [] burst0
      ((start_metric flow (ue_ts env))\<lparr>m_LocalAddr := ue_local env, m_RemoteAddr := ue_remote env\<rparr>) = (br, m')"
    by fastforce
  have "br_received br \<le> 4 \<and> fresh_metric m'"
    using udp_reads_bound [OF _ _ r] by (simp add: burst0_def)
  then show "\<exists>m. udp_Probe env flow spec = Some m \<and> verdict_ok m"
    using r burst_verdict [of m' br]
    by (auto simp: udp_Probe_def Let_def probeBurst_def split: option.splits)
qed

interpretation tcp: prober tcp_Probe
proof
  fix env :: tcp_env and flow spec
  show "\<exists>m. tcp_Probe env flow spec = Some m \<and> verdict_ok m"
    by (simp add: tcp_Probe_def Let_def split: option.splits)
      (simp add: verdict_ok_def start_metric_def zero_metric_def)
qed

interpretation icmp: prober icmp_Probe
proof
  fix env :: icmp_env and flow spec
  obtain br m' where r: "icmp_reads (ie_reads env) [] burst0
      ((start_metric flow (ie_ts env))\<lparr>m_Target := icmp_host flow, m_RemoteAddr := projr (ie_resolve env),
         m_LocalAddr := ie_local env\<rparr>) = (br, m')"
    by fastforce
  have "br_received br \<le> 4 \<and> fresh_metric m'"
    using icmp_reads_bound [OF _ _ r] by (simp add: burst0_def)
  then show "\<exists>m. icmp_Probe env flow spec = Some m \<and> verdict_ok m"
    using r burst_verdict [of m' br]
    by (auto simp: icmp_Probe_def Let_def probeBurst_def split: option.splits sum.splits)
qed

interpretation win_icmp: prober win_Probe
proof
  fix env :: win_env and flow spec
  obtain c br m' e where r: "win_loop (take 4 (we_rounds env)) burst0
      ((start_metric flow (we_ts env))\<lparr>m_Target := icmp_host flow, m_RemoteAddr := projr (we_resolve env)\<rparr>) ''''
      = (c, br, m', e)"
    by (metis prod.exhaust)
  have "br_received br \<le> 4 \<and> fresh_metric m'"
    using win_loop_bound [OF _ r] by (auto simp: burst0_def)
  then obtain m3 where m3: "burst_apply br m' 4 = Some m3" "verdict_ok m3"
    using burst_verdict [of m' br] by blast
  let ?m = "(start_metric flow (we_ts env))\<lparr>m_Target := icmp_host flow\<rparr>"
  show "\<exists>m. win_Probe env flow spec = Some m \<and> verdict_ok m"
  proof (cases "we_resolve env")
    case (Inr ip)
    then show ?thesis
      using r m3 verdict_err [OF m3(2), of e]
      by (cases "we_ip4 env"; cases "icmpCreateFile (we_create env)") (simp_all add: win_Probe_def Let_def probeBurst_def)
  qed (simp add: win_Probe_def Let_def)
qed

subsection \<open>Packets and loss\<close>

lemma foldl_base_bound:
  "\<forall>d \<in> set ds. d < 256 \<Longrightarrow> foldl (\<lambda>a d. a * 256 + d) a ds < (a + 1) * 256 ^ length ds" for a :: nat
proof (induction ds arbitrary: a)
  case (Cons d ds)
  then have "foldl (\<lambda>a d. a * 256 + d) (a * 256 + d) ds < (a * 256 + d + 1) * 256 ^ length ds"
    by simp
  also have "\<dots> \<le> (a * 256 + 256) * 256 ^ length ds"
    using Cons.prems by (intro mult_right_mono) auto
  finally show ?case by (simp add: algebra_simps)
qed simp

lemma get_be_bound: "get_be b < 256 ^ length b"
proof -
  have "\<forall>d \<in> set (map unat b). d < 256"
    using unsigned_less [where 'a = nat and 'b = 8] by auto
  from foldl_base_bound [OF this, of 0] show ?thesis
    by (simp add: get_be_def from_be_def)
qed

lemma decodeProbe_junk: "get_be (take 4 junk) \<noteq> 0x4E4D5044 \<Longrightarrow> decodeProbe junk = None"
proof (cases "length junk < headerSize")
  case False
  assume ne: "get_be (take 4 junk) \<noteq> 0x4E4D5044"
  have "get_be (take 4 junk) < 256 ^ length (take 4 junk)"
    by (rule get_be_bound)
  also have "\<dots> \<le> 256 ^ 4"
    by (intro power_increasing) simp_all
  finally have "unat (of_nat (get_be (take 4 junk)) :: 32 word) = get_be (take 4 junk)"
    by (simp add: unat_of_nat)
  moreover have "unat probeMagic = 0x4E4D5044"
    by (simp add: probeMagic_def)
  ultimately have "of_nat (get_be (take 4 junk)) \<noteq> probeMagic"
    using ne by metis
  then show ?thesis by (simp add: decodeProbe_def)
qed (simp add: decodeProbe_def)

text \<open>
  An echoed probe identifies itself: a packet built for any sequence number and size, returned
  verbatim and possibly followed by other bytes in the read buffer, decodes to its sequence number
  and its send time to the nanosecond; a packet is never shorter than its 20-byte header; and data
  that does not start with the magic number is rejected.
\<close>

theorem probe_roundtrip:
  assumes "int64_range now"
  shows "decodeProbe (encodeProbe now seq sz @ rest) = Some (seq, now) \<and>
     length (encodeProbe now seq sz) = nat (max 20 sz) \<and>
     (get_be (take 4 junk) \<noteq> 0x4E4D5044 \<longrightarrow> decodeProbe junk = None)"
  using decode_encodeProbe [OF assms, of seq sz rest] decodeProbe_junk [of junk]
  by (simp add: length_encodeProbe)

theorem probe_roundtrip_witness:
  "decodeProbe (encodeProbe 1700000000000000000 3 64 @ [0, 0]) = Some (3, 1700000000000000000)"
  using probe_roundtrip [of 1700000000000000000 3 64 "[0, 0]"] by (simp add: int64_range_def)

text \<open>The sequence numbers of the probes among the arrivals.\<close>

definition probe_seqs :: "arrival list \<Rightarrow> u64 set" where
  "probe_seqs as = {s. \<exists>a \<in> set as. \<exists>n. decodeProbe (ar_data a) = Some (s, n)}"

lemma udp_reads_received:
  "finite S \<Longrightarrow> card S \<le> 4 \<Longrightarrow> set seen \<union> probe_seqs as \<subseteq> S \<Longrightarrow> distinct seen \<Longrightarrow>
   br_received br = length seen \<Longrightarrow> udp_reads as seen br m = (br', m') \<Longrightarrow>
   br_received br' = card (set seen \<union> probe_seqs as)"
proof (induction as seen br m rule: udp_reads.induct)
  case (1 seen br m)
  then show ?case by (simp add: probe_seqs_def distinct_card)
next
  case (2 a as seen br m)
  have sub: "probe_seqs (a # as) = probe_seqs as \<union> (case decodeProbe (ar_data a) of None \<Rightarrow> {} | Some (s, _) \<Rightarrow> {s})"
    by (auto simp: probe_seqs_def split: option.splits)
  show ?case
  proof (cases "br_received br \<ge> probeBurst")
    case True
    then have "card S \<le> card (set seen)"
      using "2.prems" by (simp add: distinct_card probeBurst_def)
    then have S: "set seen = S"
      using "2.prems"(1,3) by (intro card_seteq) auto
    then have "set seen \<union> probe_seqs (a # as) = set seen"
      using "2.prems"(3) by blast
    with True "2.prems" distinct_card [of seen] show ?thesis
      by simp
  next
    case False
    show ?thesis
    proof (cases "decodeProbe (ar_data a)")
      case None
      with False "2.IH"(1) "2.prems" sub show ?thesis by simp
    next
      case (Some sn)
      obtain s n where sn: "sn = (s, n)" by (cases sn)
      show ?thesis
      proof (cases "s \<in> set seen")
        case True
        with False Some sn "2.IH"(2) "2.prems" sub show ?thesis
          by (simp add: insert_absorb)
      next
        case new: False
        with False Some sn "2.IH"(3) "2.prems" sub show ?thesis by simp
      qed
    qed
  qed
qed

text \<open>An arrival that is the echo of probe \<open>k\<close>, sent at \<open>t k\<close>.\<close>

definition echo_of :: "(nat \<Rightarrow> int) \<Rightarrow> int \<Rightarrow> nat \<Rightarrow> arrival \<Rightarrow> bool" where
  "echo_of t sz k a \<longleftrightarrow> ar_data a = encodeProbe (t k) (of_nat k) sz"

lemma small_words: "i < 4 \<Longrightarrow> j < 4 \<Longrightarrow> (of_nat i :: u64) = of_nat j \<Longrightarrow> i = (j :: nat)"
proof -
  assume i: "i < 4" and j: "j < 4" and eq: "(of_nat i :: u64) = of_nat j"
  have "unat (of_nat n :: u64) = n" if "n < 4" for n
    using that by (simp add: unat_of_nat)
  from this [OF i] this [OF j] eq show "i = j" by metis
qed

text \<open>
  C33: Loss is measured exactly.  When every datagram read is the echo of one of the four
  probes or no probe at all, in any order, with duplicates and foreign traffic in between, the
  reported loss is 25% for every probe of which no echo arrived, and the probe counts as
  successful exactly if at least one did.
\<close>

theorem udp_loss_exact:
  assumes "ue_dial_err env = None" and "ue_write_err env = None"
    and "\<forall>a \<in> set (ue_reads env). (\<exists>k < 4. echo_of t sz k a) \<or> decodeProbe (ar_data a) = None"
    and "\<forall>k. int64_range (t k)"
  shows "\<exists>m. udp_Probe env flow spec = Some m \<and>
     m_PacketLoss m = 25 * rat_of_nat (card {k. k < 4 \<and> \<not> (\<exists>a \<in> set (ue_reads env). echo_of t sz k a)}) \<and>
     (m_Success m \<longleftrightarrow> (\<exists>a \<in> set (ue_reads env). \<exists>k < 4. echo_of t sz k a))"
proof -
  let ?K = "{k. k < 4 \<and> (\<exists>a \<in> set (ue_reads env). echo_of t sz k a)}"
  let ?w = "of_nat :: nat \<Rightarrow> u64"
  have dec: "decodeProbe (ar_data a) = Some (?w k, t k)" if "echo_of t sz k a" for k a
    using that decode_encodeProbe [of "t k" "?w k" sz "[]"] assms(4) by (simp add: echo_of_def)
  have seqs: "probe_seqs (ue_reads env) = ?w ` ?K"
    using assms(3) dec by (fastforce simp: probe_seqs_def)
  have inj: "inj_on ?w {..<4}"
    by (rule inj_onI) (auto intro: small_words)
  have "card (?w ` {..<4}) \<le> 4"
    using card_image_le [of "{..<4::nat}" ?w] by simp
  obtain br m' where r: "udp_reads (ue_reads env) [] burst0
      ((start_metric flow (ue_ts env))\<lparr>m_LocalAddr := ue_local env, m_RemoteAddr := ue_remote env\<rparr>) = (br, m')"
    by fastforce
  have "br_received br = card (probe_seqs (ue_reads env))"
    using udp_reads_received [OF _ \<open>card (?w ` {..<4}) \<le> 4\<close> _ _ _ r] seqs
    by (auto simp: burst0_def)
  also have "\<dots> = card ?K"
    unfolding seqs by (rule card_image) (rule inj_on_subset [OF inj], auto)
  finally have rec: "br_received br = card ?K" .
  have "fresh_metric m'"
    using udp_reads_bound [OF _ _ r] by (simp add: burst0_def)
  from burst_apply_eq [OF this, of br] obtain m where m: "burst_apply br m' 4 = Some m"
    "m_Success m \<longleftrightarrow> 0 < card ?K" "m_PacketLoss m = 25 * (4 - rat_of_nat (card ?K))"
    by (auto simp: rec)
  let ?L = "{k. k < 4 \<and> \<not> (\<exists>a \<in> set (ue_reads env). echo_of t sz k a)}"
  have "?K \<union> ?L = {..<4}" "?K \<inter> ?L = {}" by auto
  then have "card ?K + card ?L = 4"
    using card_Un_disjoint [of ?K ?L] by simp
  then have "rat_of_nat (card ?K) + rat_of_nat (card ?L) = 4"
    by (simp only: of_nat_add [symmetric] of_nat_numeral)
  with m(3) have loss: "m_PacketLoss m = 25 * rat_of_nat (card ?L)"
    by simp
  have "0 < card ?K \<longleftrightarrow> (\<exists>a \<in> set (ue_reads env). \<exists>k < 4. echo_of t sz k a)"
    by (auto simp: card_gt_0_iff)
  with m(2) have succ: "m_Success m \<longleftrightarrow> (\<exists>a \<in> set (ue_reads env). \<exists>k < 4. echo_of t sz k a)"
    by simp
  have "udp_Probe env flow spec = Some m"
    using m(1) r assms(1,2) by (simp add: udp_Probe_def Let_def probeBurst_def)
  with loss succ show ?thesis by blast
qed

definition demo_udp :: udp_env where
  "demo_udp = \<lparr>ue_ts = 1, ue_dial_err = None, ue_local = ''l'', ue_remote = ''r'', ue_write_err = None,
     ue_reads = [\<lparr>ar_data = encodeProbe 5 2 64, ar_now = 9, ar_ttl = None\<rparr>,
                 \<lparr>ar_data = [], ar_now = 9, ar_ttl = None\<rparr>]\<rparr>"

theorem udp_loss_exact_witness:
  "\<exists>m. udp_Probe demo_udp zero_agent_flow zero_test_spec = Some m \<and> m_Success m"
proof -
  have "echo_of (\<lambda>_. 5) 64 2 \<lparr>ar_data = encodeProbe 5 2 64, ar_now = 9, ar_ttl = None\<rparr>"
    by (simp add: echo_of_def)
  moreover have "decodeProbe [] = None"
    by (simp add: decodeProbe_def headerSize_def)
  ultimately have a: "(\<exists>k < 4. echo_of (\<lambda>_. 5) 64 k a) \<or> decodeProbe (ar_data a) = None"
    "\<exists>a \<in> set (ue_reads demo_udp). \<exists>k < 4. echo_of (\<lambda>_. 5) 64 k a"
    if "a \<in> set (ue_reads demo_udp)" for a
    using that by (auto simp: demo_udp_def intro!: exI [of _ "2 :: nat"])
  have "ue_dial_err demo_udp = None" "ue_write_err demo_udp = None" "int64_range 5"
    "hd (ue_reads demo_udp) \<in> set (ue_reads demo_udp)"
    by (simp_all add: demo_udp_def int64_range_def)
  note env = this
  have "\<forall>a \<in> set (ue_reads demo_udp). (\<exists>k < 4. echo_of (\<lambda>_. 5) 64 k a) \<or> decodeProbe (ar_data a) = None"
    by (intro ballI a(1))
  from udp_loss_exact [OF env(1,2) this, of zero_agent_flow zero_test_spec] env(3) a(2) [OF env(4)]
  show ?thesis by metis
qed

end
