(* ===== verification/DataPlane.thy ===== *)
theory DataPlane
  imports Probes Logging
begin

text \<open>
  \<open>internal/dataplane\<close>, the engine and the responder.  The engine runs one loop per flow; a
  loop alternates between probing and waiting for its ticker, and ends when its count is reached or
  its context is cancelled.  \<open>Stop\<close> cancels and waits, so it is the pair of \<open>eng_cancel\<close> and
  \<open>eng_stopped\<close>, the latter possible only when every loop has ended.  The responder binds
  the listen ports of a plan; whether a bind succeeds is an input, and so is the error text.
\<close>

subsection \<open>The engine\<close>

datatype loop_phase = Probing | Waiting | Ended

record probe_loop =
  pl_flow :: agent_flow
  pl_sent :: nat
  pl_phase :: loop_phase

record engine =
  eg_agentID :: string
  eg_cancel :: bool
  eg_cancelled :: bool
  eg_spec :: test_spec
  eg_loops :: "probe_loop list"

definition NewEngine :: "string \<Rightarrow> engine" where
  "NewEngine agent = \<lparr>eg_agentID = agent, eg_cancel = False, eg_cancelled = False,
     eg_spec = zero_test_spec, eg_loops = []\<rparr>"

definition has_prober :: "agent_flow \<Rightarrow> bool" where
  "has_prober f \<longleftrightarrow> af_Protocol f \<in> {UDP, TCP, ICMP}"

definition all_ended :: "engine \<Rightarrow> bool" where
  "all_ended e \<longleftrightarrow> list_all (\<lambda>l. pl_phase l = Ended) (eg_loops e)"

text \<open>\<open>Stop\<close>: take the cancel function, call it, wait, and log.\<close>

definition eng_cancel :: "engine \<Rightarrow> engine" where
  "eng_cancel e = (if eg_cancel e then e\<lparr>eg_cancel := False, eg_cancelled := True\<rparr> else e)"

definition stopped_event :: "engine \<Rightarrow> event" where
  "stopped_event e = (event0 TestStopped)\<lparr>ev_AgentID := eg_agentID e\<rparr>"

definition eng_stopped :: "engine \<Rightarrow> (engine \<times> event) option" where
  "eng_stopped e = (if all_ended e then Some (e\<lparr>eg_loops := []\<rparr>, stopped_event e) else None)"

text \<open>\<open>Start\<close> after its call of \<open>Stop\<close>: the loops of the flows with a prober.\<close>

definition loop_interval :: "test_spec \<Rightarrow> int" where
  "loop_interval spec =
     (let interval = wrap64 (ts_IntervalMS spec * 1000000) in if interval \<le> 0 then 1000000000 else interval)"

definition started_event :: "engine \<Rightarrow> agent_flow list \<Rightarrow> test_spec \<Rightarrow> event" where
  "started_event e flows spec = (event0 TestStarted)\<lparr>ev_AgentID := eg_agentID e,
     ev_Detail := ts_RunID spec,
     ev_Fields := [(''flows'', AInt (int (length flows))), (''intervalMs'', AInt (ts_IntervalMS spec))]\<rparr>"

definition eng_launch :: "agent_flow list \<Rightarrow> test_spec \<Rightarrow> engine \<Rightarrow> engine \<times> event" where
  "eng_launch flows spec e =
     (e\<lparr>eg_cancel := True, eg_cancelled := False, eg_spec := spec,
        eg_loops := map (\<lambda>f. \<lparr>pl_flow = f, pl_sent = 0, pl_phase = Probing\<rparr>) (filter has_prober flows)\<rparr>,
      started_event e flows spec)"

text \<open>\<open>probe()\<close> in \<open>loop\<close>: the labels of the flow are put on what the prober measured.\<close>

definition label_metric :: "agent_flow \<Rightarrow> metric \<Rightarrow> metric" where
  "label_metric f m = m\<lparr>m_FlowID := af_ID f, m_PeerID := af_DstAgent f, m_Profile := af_Protocol f\<rparr>"

definition count_reached :: "test_spec \<Rightarrow> nat \<Rightarrow> bool" where
  "count_reached spec sent \<longleftrightarrow> ts_Count spec > 0 \<and> int sent \<ge> ts_Count spec"

definition loop_probe :: "test_spec \<Rightarrow> metric \<Rightarrow> probe_loop \<Rightarrow> probe_loop \<times> metric" where
  "loop_probe spec m l =
     (let n = pl_sent l + 1 in
      (l\<lparr>pl_sent := n, pl_phase := (if count_reached spec n then Ended else Waiting)\<rparr>,
       label_metric (pl_flow l) m))"

text \<open>The goroutines: a step carries the metrics it submits.\<close>

inductive eng_step :: "engine \<Rightarrow> metric list \<Rightarrow> engine \<Rightarrow> bool" where
  probe: "i < length (eg_loops e) \<Longrightarrow> pl_phase (eg_loops e ! i) = Probing \<Longrightarrow>
    loop_probe (eg_spec e) m (eg_loops e ! i) = (l, m') \<Longrightarrow>
    eng_step e [m'] (e\<lparr>eg_loops := (eg_loops e)[i := l]\<rparr>)"
| tick: "i < length (eg_loops e) \<Longrightarrow> pl_phase (eg_loops e ! i) = Waiting \<Longrightarrow>
    eng_step e [] (e\<lparr>eg_loops := (eg_loops e)[i := (eg_loops e ! i)\<lparr>pl_phase := Probing\<rparr>]\<rparr>)"
| done_: "i < length (eg_loops e) \<Longrightarrow> pl_phase (eg_loops e ! i) = Waiting \<Longrightarrow> eg_cancelled e \<Longrightarrow>
    eng_step e [] (e\<lparr>eg_loops := (eg_loops e)[i := (eg_loops e ! i)\<lparr>pl_phase := Ended\<rparr>]\<rparr>)"
| cancel: "eng_step e [] (eng_cancel e)"

text \<open>One run: from a launch to any later moment before the next one.\<close>

inductive eng_run :: "engine \<Rightarrow> metric list \<Rightarrow> engine \<Rightarrow> bool" for e0 where
  launched: "eng_run e0 [] e0"
| step: "eng_run e0 ms e \<Longrightarrow> eng_step e ns e' \<Longrightarrow> eng_run e0 (ms @ ns) e'"

inductive_cases eng_stepE: "eng_step e ns e'"

subsection \<open>What a run submits\<close>

definition run_ok :: "agent_flow list \<Rightarrow> test_spec \<Rightarrow> metric list \<Rightarrow> engine \<Rightarrow> bool" where
  "run_ok flows spec ms e \<longleftrightarrow>
     map pl_flow (eg_loops e) = filter has_prober flows \<and> eg_spec e = spec \<and>
     (\<forall>m \<in> set ms. \<exists>f \<in> set flows. has_prober f \<and> label_metric f m = m) \<and>
     length ms = sum_list (map pl_sent (eg_loops e)) \<and>
     (\<forall>l \<in> set (eg_loops e).
        (pl_phase l = Ended \<longrightarrow> eg_cancelled e \<or> count_reached spec (pl_sent l)) \<and>
        (pl_phase l \<noteq> Ended \<longrightarrow> \<not> count_reached spec (pl_sent l)) \<and>
        (ts_Count spec > 0 \<longrightarrow> int (pl_sent l) \<le> ts_Count spec))"

lemma run_ok_launch: "run_ok flows spec [] (fst (eng_launch flows spec e))"
  by (auto simp: run_ok_def eng_launch_def o_def count_reached_def)

lemma sum_list_update_Suc:
  "i < length ls \<Longrightarrow> pl_sent l = Suc (pl_sent (ls ! i)) \<Longrightarrow>
   sum_list (map pl_sent (ls[i := l])) = Suc (sum_list (map pl_sent ls))"
  by (induction ls arbitrary: i) (auto split: nat.splits)

lemma map_flow_update:
  "i < length ls \<Longrightarrow> pl_flow l = pl_flow (ls ! i) \<Longrightarrow> map pl_flow (ls[i := l]) = map pl_flow ls"
  by (metis list_update_id map_update nth_map)

lemma sum_sent_same:
  "i < length ls \<Longrightarrow> pl_sent l = pl_sent (ls ! i) \<Longrightarrow>
   sum_list (map pl_sent (ls[i := l])) = sum_list (map pl_sent ls)"
  by (metis list_update_id map_update nth_map)

lemma run_ok_probe:
  assumes ok: "run_ok flows spec ms e" and i: "i < length (eg_loops e)"
    and ph: "pl_phase (eg_loops e ! i) = Probing"
    and pr: "loop_probe (eg_spec e) m (eg_loops e ! i) = (l, m')"
  shows "run_ok flows spec (ms @ [m']) (e\<lparr>eg_loops := (eg_loops e)[i := l]\<rparr>)"
proof -
  let ?old = "eg_loops e ! i"
  have old: "?old \<in> set (eg_loops e)" using i by simp
  have l: "pl_flow l = pl_flow ?old" "pl_sent l = Suc (pl_sent ?old)" "m' = label_metric (pl_flow ?old) m"
    "pl_phase l = (if count_reached spec (Suc (pl_sent ?old)) then Ended else Waiting)"
    using pr ok by (auto simp: loop_probe_def Let_def run_ok_def)
  have "pl_flow ?old \<in> set (filter has_prober flows)"
    using ok old by (metis image_eqI list.set_map run_ok_def)
  then have f: "\<exists>f \<in> set flows. has_prober f \<and> label_metric f m' = m'"
    using l(3) by (intro bexI [of _ "pl_flow ?old"]) (auto simp: label_metric_def)
  have "ts_Count spec > 0 \<longrightarrow> int (Suc (pl_sent ?old)) \<le> ts_Count spec"
    using ok old ph by (auto simp: run_ok_def count_reached_def)
  with ok i l f show ?thesis
    by (auto simp: run_ok_def map_flow_update sum_list_update_Suc dest!: set_update_subset_insert [THEN subsetD])
qed

lemma run_ok_phase:
  assumes ok: "run_ok flows spec ms e" and i: "i < length (eg_loops e)"
    and "pl_phase (eg_loops e ! i) = Waiting"
    and "ph = Probing \<or> ph = Ended \<and> eg_cancelled e"
  shows "run_ok flows spec ms (e\<lparr>eg_loops := (eg_loops e)[i := (eg_loops e ! i)\<lparr>pl_phase := ph\<rparr>]\<rparr>)"
proof -
  let ?old = "eg_loops e ! i"
  have "?old \<in> set (eg_loops e)" using i by simp
  with ok assms(3) have "\<not> count_reached spec (pl_sent ?old)"
    "ts_Count spec > 0 \<longrightarrow> int (pl_sent ?old) \<le> ts_Count spec"
    by (auto simp: run_ok_def)
  with ok i assms(4) show ?thesis
    by (auto simp: run_ok_def map_flow_update sum_sent_same dest!: set_update_subset_insert [THEN subsetD])
qed

lemma run_ok_step: "eng_step e ns e' \<Longrightarrow> run_ok flows spec ms e \<Longrightarrow> run_ok flows spec (ms @ ns) e'"
proof (induction rule: eng_step.induct)
  case (probe i e m l m')
  then show ?case by (blast intro: run_ok_probe)
next
  case (cancel e)
  then show ?case by (auto simp: eng_cancel_def run_ok_def)
qed (simp_all add: run_ok_phase)

lemma eng_run_ok: "eng_run e0 ms e \<Longrightarrow> run_ok flows spec [] e0 \<Longrightarrow> run_ok flows spec ms e"
  by (induction rule: eng_run.induct) (auto intro: run_ok_step)

subsection \<open>Stopping\<close>

lemma eng_step_flows: "eng_step e ms e' \<Longrightarrow> map pl_flow (eg_loops e') = map pl_flow (eg_loops e)"
  by (induction rule: eng_step.induct)
    (auto simp: map_flow_update loop_probe_def Let_def eng_cancel_def)

lemma eng_step_labels:
  assumes "eng_step e ms e'" and "m \<in> set ms"
  shows "\<exists>l \<in> set (eg_loops e). m_FlowID m = af_ID (pl_flow l) \<and> m_PeerID m = af_DstAgent (pl_flow l) \<and>
     m_Profile m = af_Protocol (pl_flow l)"
  using assms
proof (cases rule: eng_step.cases)
  case (probe i m0 l m')
  with assms(2) show ?thesis
    by (intro bexI [of _ "eg_loops e ! i"]) (auto simp: loop_probe_def Let_def label_metric_def)
qed auto

lemma eng_step_cancelled: "eng_step e ms e' \<Longrightarrow> eg_cancelled e \<Longrightarrow> eg_cancelled e'"
  by (induction rule: eng_step.induct) (auto simp: eng_cancel_def)

text \<open>The work left for loops that take no further tick: a probe under way, then the exit.\<close>

fun phase_work :: "loop_phase \<Rightarrow> nat" where
  "phase_work Probing = 2"
| "phase_work Waiting = 1"
| "phase_work Ended = 0"

definition stop_work :: "engine \<Rightarrow> nat" where
  "stop_work e = sum_list (map (phase_work \<circ> pl_phase) (eg_loops e))"

lemma stop_work_update:
  "i < length ls \<Longrightarrow> phase_work (pl_phase l) < phase_work (pl_phase (ls ! i)) \<Longrightarrow>
   sum_list (map (phase_work \<circ> pl_phase) (ls[i := l])) < sum_list (map (phase_work \<circ> pl_phase) ls)"
  by (induction ls arbitrary: i) (auto split: nat.splits)

lemma stop_work_bound: "stop_work e \<le> 2 * length (eg_loops e)"
proof -
  have "sum_list (map (phase_work \<circ> pl_phase) ls) \<le> 2 * length ls" for ls
  proof (induction ls)
    case (Cons l ls)
    then show ?case by (cases "pl_phase l") simp_all
  qed simp
  then show ?thesis by (simp add: stop_work_def)
qed

text \<open>A cancelled engine with a live loop can always take a step that brings it closer to the end.\<close>

lemma eng_drain_step:
  assumes "eg_cancelled e" and "\<not> all_ended e"
  shows "\<exists>ms e'. eng_step e ms e' \<and> stop_work e' < stop_work e \<and> eg_cancelled e' \<and>
     eg_cancel e' = eg_cancel e"
proof -
  obtain i where i: "i < length (eg_loops e)" "pl_phase (eg_loops e ! i) \<noteq> Ended"
    using assms(2) by (auto simp: all_ended_def list_all_length)
  show ?thesis
  proof (cases "pl_phase (eg_loops e ! i)")
    case Probing
    obtain l m' where p: "loop_probe (eg_spec e) zero_metric (eg_loops e ! i) = (l, m')"
      by (cases "loop_probe (eg_spec e) zero_metric (eg_loops e ! i)")
    then have "phase_work (pl_phase l) < phase_work (pl_phase (eg_loops e ! i))"
      using Probing by (auto simp: loop_probe_def Let_def)
    with stop_work_update [OF i(1)] eng_step.probe [OF i(1) Probing p] assms(1) show ?thesis
      by (intro exI [of _ "[m']"] exI [of _ "e\<lparr>eg_loops := (eg_loops e)[i := l]\<rparr>"]) (simp add: stop_work_def)
  next
    case Waiting
    let ?l = "(eg_loops e ! i)\<lparr>pl_phase := Ended\<rparr>"
    have "phase_work (pl_phase ?l) < phase_work (pl_phase (eg_loops e ! i))"
      using Waiting by simp
    with stop_work_update [OF i(1)] eng_step.done_ [OF i(1) Waiting assms(1)] assms(1) show ?thesis
      by (intro exI [of _ "[]"] exI [of _ "e\<lparr>eg_loops := (eg_loops e)[i := ?l]\<rparr>"]) (simp add: stop_work_def)
  qed (use i in simp)
qed

text \<open>
  C31: A test run does what its plan says.  In every interleaving of the probe loops after a start,
  each submitted metric carries the flow ID, the destination agent and the protocol of one flow
  of the plan, whatever the prober returned; with a positive count no flow submits more than
  that many; and if nobody cancelled, a loop has ended only after submitting exactly its count (so
  with count 0 it runs until it is stopped).
\<close>

theorem run_follows_plan:
  assumes "eng_run (fst (eng_launch flows spec e0)) ms e"
  shows "(\<forall>m \<in> set ms. \<exists>f \<in> set flows. has_prober f \<and> m_FlowID m = af_ID f \<and>
       m_PeerID m = af_DstAgent f \<and> m_Profile m = af_Protocol f) \<and>
     length ms = sum_list (map pl_sent (eg_loops e)) \<and>
     (\<forall>l \<in> set (eg_loops e). (ts_Count spec > 0 \<longrightarrow> int (pl_sent l) \<le> ts_Count spec) \<and>
        (pl_phase l = Ended \<and> \<not> eg_cancelled e \<longrightarrow> ts_Count spec > 0 \<and> int (pl_sent l) = ts_Count spec))"
proof -
  have ok: "run_ok flows spec ms e"
    by (rule eng_run_ok [OF assms run_ok_launch])
  have "\<exists>f \<in> set flows. has_prober f \<and> m_FlowID m = af_ID f \<and> m_PeerID m = af_DstAgent f \<and>
      m_Profile m = af_Protocol f" if m: "m \<in> set ms" for m
  proof -
    obtain f where f: "f \<in> set flows" "has_prober f" "label_metric f m = m"
      using ok m by (auto simp: run_ok_def)
    then have "m_FlowID m = af_ID f" "m_PeerID m = af_DstAgent f" "m_Profile m = af_Protocol f"
      by (metis label_metric_def metric.select_convs metric.surjective metric.update_convs)+
    with f show ?thesis by blast
  qed
  moreover have "(ts_Count spec > 0 \<longrightarrow> int (pl_sent l) \<le> ts_Count spec) \<and>
      (pl_phase l = Ended \<and> \<not> eg_cancelled e \<longrightarrow> ts_Count spec > 0 \<and> int (pl_sent l) = ts_Count spec)"
    if "l \<in> set (eg_loops e)" for l
    using ok that by (auto simp: run_ok_def count_reached_def)
  ultimately show ?thesis
    using ok by (auto simp: run_ok_def)
qed

definition demo_flow :: agent_flow where
  "demo_flow = zero_agent_flow\<lparr>af_ID := ''f1'', af_Protocol := UDP, af_DstAgent := ''b''\<rparr>"

theorem run_follows_plan_witness:
  "\<exists>ms e. length ms = 1 \<and> m_FlowID (hd ms) = ''f1'' \<and>
     eng_run (fst (eng_launch [demo_flow] zero_test_spec (NewEngine ''a''))) ms e"
proof -
  let ?e = "fst (eng_launch [demo_flow] zero_test_spec (NewEngine ''a''))"
  have loops: "eg_loops ?e = [\<lparr>pl_flow = demo_flow, pl_sent = 0, pl_phase = Probing\<rparr>]"
    by (simp add: eng_launch_def has_prober_def demo_flow_def)
  obtain l m' where p: "loop_probe (eg_spec ?e) zero_metric (eg_loops ?e ! 0) = (l, m')"
    by (cases "loop_probe (eg_spec ?e) zero_metric (eg_loops ?e ! 0)")
  have "eng_step ?e [m'] (?e\<lparr>eg_loops := (eg_loops ?e)[0 := l]\<rparr>)"
    by (rule eng_step.probe [OF _ _ p]) (simp_all add: loops)
  from eng_run.step [OF eng_run.launched this]
  have run: "eng_run ?e [m'] (?e\<lparr>eg_loops := (eg_loops ?e)[0 := l]\<rparr>)" by simp
  from run_follows_plan [OF run] have "m_FlowID m' = ''f1''"
    by (simp add: demo_flow_def)
  with run show ?thesis
    by (intro exI [of _ "[m']"] exI) simp
qed

subsection \<open>The responder\<close>

text \<open>The active binding: the listeners that are open, by protocol and port.\<close>

record responder =
  rp_cur :: "(profile \<times> int) list"

definition NewResponder :: responder where
  "NewResponder = \<lparr>rp_cur = []\<rparr>"

text \<open>\<open>listen\<close> gives the error of listening on an address, if any.\<close>

definition serve_port ::
  "(profile \<Rightarrow> string \<Rightarrow> string option) \<Rightarrow> listen_port \<Rightarrow> (port_status \<times> (profile \<times> int) list) option" where
  "serve_port listen lp =
     (case itoa (lp_Port lp) of None \<Rightarrow> None
      | Some s \<Rightarrow>
          let addr = '':'' @ s;
              udp_err = (if lp_UDP lp then listen UDP addr else None);
              tcp_err = (if lp_TCP lp then listen TCP addr else None);
              udp = (lp_UDP lp \<and> udp_err = None); tcp = (lp_TCP lp \<and> tcp_err = None);
              e1 = (case udp_err of None \<Rightarrow> '''' | Some e \<Rightarrow> ''udp: '' @ e);
              e2 = (case tcp_err of None \<Rightarrow> e1
                    | Some e \<Rightarrow> (if e1 \<noteq> '''' then e1 @ ''; '' else e1) @ ''tcp: '' @ e) in
          Some (\<lparr>ps_Port = lp_Port lp, ps_UDP = udp, ps_TCP = tcp, ps_Err = e2\<rparr>,
                (if udp then [(UDP, lp_Port lp)] else []) @ (if tcp then [(TCP, lp_Port lp)] else [])))"

definition bound_event :: "nat \<Rightarrow> event" where
  "bound_event n = (event0 AgentStarted)\<lparr>ev_Detail := ''data-plane responder bound'',
     ev_Fields := [(''ports'', AInt (int n))]\<rparr>"

text \<open>\<open>Serve\<close>: the previous binding is gone before the first new listener is opened;
  \<^const>\<open>None\<close> is a panic.\<close>

definition Serve ::
  "(profile \<Rightarrow> string \<Rightarrow> string option) \<Rightarrow> listen_port list \<Rightarrow> responder \<Rightarrow>
   (port_status list \<times> responder \<times> event) option" where
  "Serve listen ports r =
     map_option (\<lambda>res. (map fst res, r\<lparr>rp_cur := concat (map snd res)\<rparr>, bound_event (length ports)))
       (opt_map (serve_port listen) ports)"

definition port_addr :: "int \<Rightarrow> string" where
  "port_addr p = '':'' @ strconv_itoa p"

lemma serve_port_small:
  "0 \<le> lp_Port lp \<Longrightarrow> lp_Port lp < 10 ^ 12 \<Longrightarrow>
   \<exists>st ls. serve_port listen lp = Some (st, ls) \<and> ps_Port st = lp_Port lp \<and>
     (ps_UDP st \<longleftrightarrow> lp_UDP lp \<and> listen UDP (port_addr (lp_Port lp)) = None) \<and>
     (ps_TCP st \<longleftrightarrow> lp_TCP lp \<and> listen TCP (port_addr (lp_Port lp)) = None) \<and>
     set ls = {(p, lp_Port lp) | p. p = UDP \<and> ps_UDP st \<or> p = TCP \<and> ps_TCP st}"
  by (auto simp: serve_port_def itoa_small Let_def port_addr_def)

lemma opt_map_None: "opt_map f xs = None \<longleftrightarrow> (\<exists>x \<in> set xs. f x = None)"
  by (induction xs) (auto split: option.splits)

lemma opt_map_Some: "opt_map f xs = Some ys \<Longrightarrow> list_all2 (\<lambda>x y. f x = Some y) xs ys"
  by (induction xs arbitrary: ys) (auto split: option.splits)

lemma Serve_correct:
  assumes "\<forall>lp \<in> set ports. 0 \<le> lp_Port lp"
  shows "case Serve listen ports r of
      None \<Rightarrow> \<exists>lp \<in> set ports. 10 ^ 12 \<le> lp_Port lp
    | Some (sts, r', ev) \<Rightarrow>
        list_all (\<lambda>lp. lp_Port lp < 10 ^ 12) ports \<and>
        list_all2 (\<lambda>lp st. ps_Port st = lp_Port lp \<and>
          (ps_UDP st \<longleftrightarrow> lp_UDP lp \<and> listen UDP (port_addr (lp_Port lp)) = None) \<and>
          (ps_TCP st \<longleftrightarrow> lp_TCP lp \<and> listen TCP (port_addr (lp_Port lp)) = None)) ports sts \<and>
        set (rp_cur r') = {(p, ps_Port st) | p st. st \<in> set sts \<and> (p = UDP \<and> ps_UDP st \<or> p = TCP \<and> ps_TCP st)}"
proof (cases "opt_map (serve_port listen) ports")
  case None
  then obtain lp where lp: "lp \<in> set ports" "serve_port listen lp = None"
    by (auto simp: opt_map_None)
  with assms serve_port_small [of lp listen] have "10 ^ 12 \<le> lp_Port lp"
    by (fastforce simp: not_less [symmetric])
  with None lp show ?thesis by (auto simp: Serve_def)
next
  case (Some res)
  note l2 = opt_map_Some [OF Some]
  have small: "lp_Port lp < 10 ^ 12" if "lp \<in> set ports" for lp
  proof (rule ccontr)
    assume "\<not> lp_Port lp < 10 ^ 12"
    then have "serve_port listen lp = None"
      by (simp add: serve_port_def itoa_panics)
    with that Some show False by (metis opt_map_None option.distinct(1))
  qed
  have one: "ps_Port (fst y) = lp_Port lp \<and>
      (ps_UDP (fst y) \<longleftrightarrow> lp_UDP lp \<and> listen UDP (port_addr (lp_Port lp)) = None) \<and>
      (ps_TCP (fst y) \<longleftrightarrow> lp_TCP lp \<and> listen TCP (port_addr (lp_Port lp)) = None) \<and>
      set (snd y) = {(p, ps_Port (fst y)) | p. p = UDP \<and> ps_UDP (fst y) \<or> p = TCP \<and> ps_TCP (fst y)}"
    if "lp \<in> set ports" "serve_port listen lp = Some y" for lp y
    using serve_port_small [of lp listen] that assms small [OF that(1)] by fastforce
  have a2: "list_all2 (\<lambda>lp st. ps_Port st = lp_Port lp \<and>
          (ps_UDP st \<longleftrightarrow> lp_UDP lp \<and> listen UDP (port_addr (lp_Port lp)) = None) \<and>
          (ps_TCP st \<longleftrightarrow> lp_TCP lp \<and> listen TCP (port_addr (lp_Port lp)) = None)) ports (map fst res)"
    using l2 one by (auto simp: list_all2_conv_all_nth)
  have "set (snd y) = {(p, ps_Port (fst y)) | p. p = UDP \<and> ps_UDP (fst y) \<or> p = TCP \<and> ps_TCP (fst y)}"
    if y: "y \<in> set res" for y
  proof -
    obtain i where i: "i < length res" "y = res ! i"
      using y by (auto simp: in_set_conv_nth)
    then have "ports ! i \<in> set ports" "serve_port listen (ports ! i) = Some y"
      using l2 by (auto simp: list_all2_conv_all_nth)
    from one [OF this] show ?thesis by blast
  qed
  then have "set (concat (map snd res)) = (\<Union>y \<in> set res.
      {(p, ps_Port (fst y)) | p. p = UDP \<and> ps_UDP (fst y) \<or> p = TCP \<and> ps_TCP (fst y)})"
    by simp
  also have "\<dots> = {(p, ps_Port st) | p st. st \<in> set (map fst res) \<and>
      (p = UDP \<and> ps_UDP st \<or> p = TCP \<and> ps_TCP st)}"
    by auto
  finally have "set (concat (map snd res)) = {(p, ps_Port st) | p st. st \<in> set (map fst res) \<and>
      (p = UDP \<and> ps_UDP st \<or> p = TCP \<and> ps_TCP st)}" .
  with Some a2 small show ?thesis
    by (simp add: Serve_def list_all_iff)
qed




subsection \<open>The UDP echo loop\<close>

text \<open>The reads of one listener, each a datagram with its sender or an error, and what is written
  back.  A read keeps as much of a datagram as the buffer holds.\<close>

fun serveUDP :: "(bytes \<times> string) option list \<Rightarrow> (bytes \<times> string) list" where
  "serveUDP [] = []"
| "serveUDP (None # rs) = []"
| "serveUDP (Some (pkt, src) # rs) = (take 65536 pkt, src) # serveUDP rs"

text \<open>Probes of any size a datagram can have come back as they were sent, to their senders.\<close>

lemma serveUDP_verbatim:
  "(\<forall>(pkt, src) \<in> set ps. length pkt \<le> 65536) \<Longrightarrow> serveUDP (map Some ps) = ps"
  by (induction ps) auto

lemma echo_recognised:
  assumes "(reply, src) \<in> set (serveUDP (map Some [(encodeProbe now seq (payloadSize spec 64), src)]))"
    and "int64_range now" and "payloadSize spec 64 \<le> 65536"
  shows "decodeProbe reply = Some (seq, now)"
  using assms decode_encodeProbe [of now seq "payloadSize spec 64" "[]"] length_encodeProbe [of now seq "payloadSize spec 64"]
  by simp

end
