(* ===== verification/Diag.thy ===== *)
theory Diag
  imports Protocol GoNet
begin

text \<open>
  \<open>internal/diag\<close>: the whitelist of diagnostics an agent runs for the controller.  Both
  registries (\<open>registry\_unix.go\<close>, \<open>registry\_windows.go\<close>) are modelled; the flag \<open>windows\<close> picks
  one.  The process that is started is an input: the lines its two streams deliver, in the
  order the scanners take the budget lock, and how it ends.  Rendering an error as text
  (\<open>err.Error()\<close>) is the parameter \<open>etext\<close>.
\<close>

definition MaxOutputB :: nat where
  "MaxOutputB = 262144"

definition chunkScanCap :: nat where
  "chunkScanCap = 65536"

subsection \<open>The registries\<close>

record builder =
  bu_name :: string
  bu_needsHost :: bool
  bu_build :: "string \<Rightarrow> string list"

definition registry_unix :: "(string \<times> builder) list" where
  "registry_unix =
     [(''ping'', \<lparr>bu_name = ''ping'', bu_needsHost = True, bu_build = (\<lambda>h. [''-c'', ''4'', h])\<rparr>),
      (''traceroute'', \<lparr>bu_name = ''traceroute'', bu_needsHost = True,
         bu_build = (\<lambda>h. [''-m'', ''20'', ''-w'', ''2'', h])\<rparr>),
      (''nslookup'', \<lparr>bu_name = ''nslookup'', bu_needsHost = True, bu_build = (\<lambda>h. [h])\<rparr>),
      (''netstat'', \<lparr>bu_name = ''netstat'', bu_needsHost = False, bu_build = (\<lambda>_. [''-an''])\<rparr>)]"

definition registry_windows :: "(string \<times> builder) list" where
  "registry_windows =
     [(''ping'', \<lparr>bu_name = ''ping'', bu_needsHost = True, bu_build = (\<lambda>h. [''-n'', ''4'', h])\<rparr>),
      (''traceroute'', \<lparr>bu_name = ''tracert'', bu_needsHost = True,
         bu_build = (\<lambda>h. [''-h'', ''20'', ''-w'', ''2000'', h])\<rparr>),
      (''nslookup'', \<lparr>bu_name = ''nslookup'', bu_needsHost = True, bu_build = (\<lambda>h. [h])\<rparr>),
      (''netstat'', \<lparr>bu_name = ''netstat'', bu_needsHost = False, bu_build = (\<lambda>_. [''-an''])\<rparr>)]"

definition registry :: "bool \<Rightarrow> (string \<times> builder) list" where
  "registry windows = (if windows then registry_windows else registry_unix)"

definition Allowed :: "bool \<Rightarrow> string list" where
  "Allowed windows =
     filter (\<lambda>n. map_of (registry windows) n \<noteq> None) [''ping'', ''traceroute'', ''nslookup'', ''netstat'']"

subsection \<open>resolve and validateHost\<close>

datatype diag_error =
  NotWhitelisted string | NeedsOneTarget string | TakesNoArguments string
| EmptyTarget | TargetTooLong | InvalidTarget string
| PipeError string | StartError string string | TimedOut string

text \<open>The pattern: an alphanumeric, then optionally at most 253 characters of the host class and a final
  alphanumeric.\<close>

definition host_class :: "char \<Rightarrow> bool" where
  "host_class c \<longleftrightarrow> is_alnum c \<or> c = CHR ''.'' \<or> c = CHR ''-''"

definition hostPattern :: "string \<Rightarrow> bool" where
  "hostPattern s =
     (case s of [] \<Rightarrow> False
      | c # cs \<Rightarrow> is_alnum c \<and>
          (cs = [] \<or> length (butlast cs) \<le> 253 \<and> list_all host_class (butlast cs) \<and> is_alnum (last cs)))"

definition validateHost :: "string \<Rightarrow> diag_error option" where
  "validateHost host =
     (if host = '''' then Some EmptyTarget
      else if length host > 255 then Some TargetTooLong
      else if parse_ip host \<noteq> None then None
      else if \<not> hostPattern host then Some (InvalidTarget host) else None)"

definition resolve :: "bool \<Rightarrow> diag_request \<Rightarrow> diag_error + string \<times> string list" where
  "resolve windows req =
     (case map_of (registry windows) (to_lower (trim_space (dr_Command req))) of
        None \<Rightarrow> Inl (NotWhitelisted (dr_Command req))
      | Some b \<Rightarrow>
          if bu_needsHost b then
            (if length (dr_Args req) \<noteq> 1 then Inl (NeedsOneTarget (bu_name b))
             else let host = trim_space (dr_Args req ! 0) in
               case validateHost host of Some e \<Rightarrow> Inl e
               | None \<Rightarrow> Inr (bu_name b, bu_build b host))
          else if dr_Args req \<noteq> [] then Inl (TakesNoArguments (bu_name b))
          else Inr (bu_name b, bu_build b ''''))"

subsection \<open>Run\<close>

datatype wait_result = WaitOk | WaitExit int | WaitFailed

text \<open>What the child does: the bytes its two pipes deliver until they end, the order in which the two
  scanner goroutines get to run (\<^const>\<open>True\<close> for the one of standard error), and how it ends.\<close>

record process =
  px_pipe_err :: "string option"
  px_start_err :: "string option"
  px_stdout :: string
  px_stderr :: string
  px_sched :: "bool list"
  px_wait :: wait_result
  px_deadline :: bool

definition chunk :: "diag_request \<Rightarrow> string \<Rightarrow> string \<Rightarrow> diag_chunk" where
  "chunk req stream data = \<lparr>dc_RequestID = dr_RequestID req, dc_Stream = stream, dc_Data = data,
     dc_EOF = False, dc_ExitCode = 0, dc_Err = ''''\<rparr>"

definition finish ::
  "(diag_error \<Rightarrow> string) \<Rightarrow> diag_request \<Rightarrow> int \<Rightarrow> diag_error option \<Rightarrow> diag_chunk list \<times> diag_error option" where
  "finish etext req exit err =
     ([\<lparr>dc_RequestID = dr_RequestID req, dc_Stream = ''meta'', dc_Data = '''', dc_EOF = True,
        dc_ExitCode = exit, dc_Err = (case err of None \<Rightarrow> '''' | Some e \<Rightarrow> etext e)\<rparr>], err)"

text \<open>A goroutine takes the next line under the lock, cut to the budget left, and then emits it; one that
  finds the budget used up returns.  Between the two the other one may run.\<close>

record streams =
  st_budget :: nat
  st_todo :: "bool \<Rightarrow> string list"
  st_hold :: "bool \<Rightarrow> diag_chunk option"

definition stream_turn :: "diag_request \<Rightarrow> bool \<Rightarrow> streams \<Rightarrow> diag_chunk list \<times> streams" where
  "stream_turn req e st =
     (case st_hold st e of Some c \<Rightarrow> ([c], st\<lparr>st_hold := (st_hold st)(e := None)\<rparr>)
      | None \<Rightarrow>
          (case st_todo st e of [] \<Rightarrow> ([], st)
           | line # ls \<Rightarrow>
               if st_budget st = 0 then ([], st\<lparr>st_todo := (st_todo st)(e := [])\<rparr>)
               else let line' = (if length line > st_budget st then take (st_budget st) line else line) in
                 ([], st\<lparr>st_budget := st_budget st - length line', st_todo := (st_todo st)(e := ls),
                    st_hold := (st_hold st)(e := Some (chunk req (if e then ''stderr'' else ''stdout'') line'))\<rparr>)))"

fun stream_turns :: "diag_request \<Rightarrow> bool list \<Rightarrow> streams \<Rightarrow> diag_chunk list \<times> streams" where
  "stream_turns req [] st = ([], st)"
| "stream_turns req (e # es) st =
     (case stream_turn req e st of (cs, st1) \<Rightarrow>
        case stream_turns req es st1 of (ds, st2) \<Rightarrow> (cs @ ds, st2))"

definition streams_of :: "string \<Rightarrow> string \<Rightarrow> streams" where
  "streams_of out err = \<lparr>st_budget = MaxOutputB,
     st_todo = (\<lambda>e. scan_lines chunkScanCap (if e then err else out)), st_hold = (\<lambda>_. None)\<rparr>"

text \<open>The given schedule, and after it what is left of standard output and then of standard error:
  \<open>wg.Wait()\<close> returns when both are done.  The pipes are given as what they deliver until they
  end, whether the child closed them or the deadline killed it; that every pipe ends (nothing the child
  left behind keeps it open) is the operating system's part and taken for granted.\<close>

definition full_sched :: "bool list \<Rightarrow> streams \<Rightarrow> bool list" where
  "full_sched sched st = sched @ replicate (2 * length (st_todo st False)) False @
     replicate (2 * length (st_todo st True)) True"

definition stream :: "diag_request \<Rightarrow> bool list \<Rightarrow> string \<Rightarrow> string \<Rightarrow> diag_chunk list" where
  "stream req sched out err =
     fst (stream_turns req (full_sched sched (streams_of out err)) (streams_of out err))"

fun join_args :: "string list \<Rightarrow> string" where
  "join_args [] = []"
| "join_args [a] = a"
| "join_args (a # as) = a @ '' '' @ join_args as"

definition diag_Run ::
  "bool \<Rightarrow> (diag_error \<Rightarrow> string) \<Rightarrow> process \<Rightarrow> diag_request \<Rightarrow> diag_chunk list \<times> diag_error option" where
  "diag_Run windows etext px req =
     (case resolve windows req of
        Inl e \<Rightarrow> finish etext req (-1) (Some e)
      | Inr (name, argv) \<Rightarrow>
          let start = chunk req ''meta'' (''$ '' @ name @ '' '' @ join_args argv) in
          case px_pipe_err px of Some e \<Rightarrow> apfst ((#) start) (finish etext req (-1) (Some (PipeError e)))
          | None \<Rightarrow>
            (case px_start_err px of
               Some e \<Rightarrow> apfst ((#) start) (finish etext req (-1) (Some (StartError name e)))
             | None \<Rightarrow>
                 let out = start # stream req (px_sched px) (px_stdout px) (px_stderr px) in
                 apfst ((@) out)
                   (case px_wait px of WaitOk \<Rightarrow> finish etext req 0 None
                    | w \<Rightarrow>
                        let exit = (case w of WaitExit n \<Rightarrow> n | _ \<Rightarrow> -1) in
                        if px_deadline px then finish etext req exit (Some (TimedOut name))
                        else finish etext req exit None)))"

subsection \<open>No argument injection\<close>

lemma hostPattern_chars:
  "hostPattern s \<Longrightarrow> s \<noteq> [] \<and> is_alnum (hd s) \<and> list_all host_class s \<and> length s \<le> 255"
proof -
  assume h: "hostPattern s"
  then obtain c cs where s: "s = c # cs" "is_alnum c"
    by (auto simp: hostPattern_def split: list.splits)
  show ?thesis
  proof (cases "cs = []")
    case False
    with h s have b: "length (butlast cs) \<le> 253" "list_all host_class (butlast cs)" "is_alnum (last cs)"
      by (simp_all add: hostPattern_def)
    then have "list_all host_class (butlast cs @ [last cs])"
      by (simp add: host_class_def)
    then have "list_all host_class cs"
      using False by simp
    with b s show ?thesis by (simp add: host_class_def)
  qed (use s in \<open>simp add: host_class_def\<close>)
qed

text \<open>An argument that no program takes for an option and no shell for anything but a word.\<close>

definition safe_target :: "string \<Rightarrow> bool" where
  "safe_target h \<longleftrightarrow> h \<noteq> [] \<and> length h \<le> 255 \<and> hd h \<noteq> CHR ''-'' \<and>
     list_all (\<lambda>c. is_alnum c \<or> c \<in> {CHR ''.'', CHR ''-'', CHR '':''}) h"

lemma ip_char_safe: "ip_char c \<Longrightarrow> is_alnum c \<or> c \<in> {CHR ''.'', CHR '':''}"
  by (auto simp: ip_char_def is_alnum_def hex_val_def is_digit_def is_lower_def is_upper_def split: if_splits)

lemma alnum_not_dash: "\<not> is_alnum CHR ''-''"
  by (simp add: is_alnum_def is_digit_def is_lower_def is_upper_def)

lemma validateHost_safe: "validateHost h = None \<Longrightarrow> safe_target h"
proof -
  assume v: "validateHost h = None"
  then have h: "h \<noteq> []" "length h \<le> 255" and "parse_ip h \<noteq> None \<or> hostPattern h"
    by (auto simp: validateHost_def split: if_splits)
  from this(3) show ?thesis
  proof
    assume "parse_ip h \<noteq> None"
    then have ip: "\<forall>c \<in> set h. is_alnum c \<or> c \<in> {CHR ''.'', CHR '':''}"
      using parse_ip_chars ip_char_safe by blast
    then have "is_alnum (hd h) \<or> hd h \<in> {CHR ''.'', CHR '':''}"
      using h(1) by simp
    then have "hd h \<noteq> CHR ''-''"
      using alnum_not_dash by auto
    with ip h show ?thesis
      unfolding safe_target_def list_all_iff by blast
  next
    assume "hostPattern h"
    from hostPattern_chars [OF this] have "hd h \<noteq> CHR ''-''"
      "\<forall>c \<in> set h. is_alnum c \<or> c \<in> {CHR ''.'', CHR ''-''}"
      using alnum_not_dash by (auto simp: list_all_iff host_class_def)
    with h show ?thesis
      unfolding safe_target_def list_all_iff by blast
  qed
qed

lemma resolve_cases:
  assumes "resolve windows req = Inr (name, argv)"
  obtains b h where "b \<in> snd ` set (registry windows)" "name = bu_name b" "argv = bu_build b h"
    "bu_needsHost b \<longrightarrow> safe_target h"
  using assms
  by (auto simp: resolve_def Let_def dest!: map_of_SomeD validateHost_safe
      split: option.splits if_splits intro: that rev_image_eqI)

text \<open>
  C25: No argument injection: whatever command and arguments the controller sends, what an agent
  executes is one of the four whitelisted programs of its platform with the package's own flags, and at
  most one argument comes from the request: a word of at most 255 alphanumerics, dots,
  dashes and colons that does not start with a dash.
\<close>

theorem argv_is_safe:
  assumes "resolve windows req = Inr (name, argv)"
  shows "(\<exists>h. safe_target h \<and> (name, argv) \<in>
       (if windows
        then {(''ping'', [''-n'', ''4'', h]), (''tracert'', [''-h'', ''20'', ''-w'', ''2000'', h]), (''nslookup'', [h])}
        else {(''ping'', [''-c'', ''4'', h]), (''traceroute'', [''-m'', ''20'', ''-w'', ''2'', h]), (''nslookup'', [h])}))
     \<or> (name, argv) = (''netstat'', [''-an''])"
  using assms
proof (rule resolve_cases)
  fix b h
  assume "b \<in> snd ` set (registry windows)" "name = bu_name b" "argv = bu_build b h"
    "bu_needsHost b \<longrightarrow> safe_target h"
  then show ?thesis
    by (cases windows) (auto simp: registry_def registry_unix_def registry_windows_def)
qed

definition demo_diag :: "string \<Rightarrow> string list \<Rightarrow> diag_request" where
  "demo_diag command args = \<lparr>dr_RequestID = ''r1'', dr_Command = command, dr_Args = args\<rparr>"

theorem argv_is_safe_witness:
  "resolve False (demo_diag '' Ping '' [''10.0.0.7'']) = Inr (''ping'', [''-c'', ''4'', ''10.0.0.7'']) \<and>
   (\<exists>h. safe_target h \<and> [''-c'', ''4'', ''10.0.0.7''] = [''-c'', ''4'', h])"
proof -
  have r: "resolve False (demo_diag '' Ping '' [''10.0.0.7'']) = Inr (''ping'', [''-c'', ''4'', ''10.0.0.7''])"
    by code_simp
  from argv_is_safe [OF r] r show ?thesis by auto
qed

definition streamed_bytes :: "diag_chunk list \<Rightarrow> nat" where
  "streamed_bytes cs = sum_list (map (\<lambda>c. length (dc_Data c)) (filter (\<lambda>c. dc_Stream c \<noteq> ''meta'') cs))"

text \<open>What one goroutine has emitted, holds, and still has to do.\<close>

definition label :: "bool \<Rightarrow> string" where
  "label e = (if e then ''stderr'' else ''stdout'')"

definition texts :: "bool \<Rightarrow> diag_chunk list \<Rightarrow> string list" where
  "texts e cs = map dc_Data (filter (\<lambda>c. dc_Stream c = label e) cs)"

definition held_text :: "diag_chunk option \<Rightarrow> string list" where
  "held_text h = (case h of None \<Rightarrow> [] | Some c \<Rightarrow> [dc_Data c])"

definition holds_ok :: "diag_request \<Rightarrow> streams \<Rightarrow> bool" where
  "holds_ok req st \<longleftrightarrow> (\<forall>e c. st_hold st e = Some c \<longrightarrow> c = chunk req (label e) (dc_Data c))"

definition held_bytes :: "streams \<Rightarrow> nat" where
  "held_bytes st = (\<Sum>e \<in> UNIV. length (concat (held_text (st_hold st e))))"

definition todo_bytes :: "streams \<Rightarrow> nat" where
  "todo_bytes st = (\<Sum>e \<in> UNIV. length (concat (st_todo st e)))"

lemma label_simps [simp]: "label True = ''stderr''" "label False = ''stdout''" "label e \<noteq> ''meta''"
  "(if e then ''stderr'' else ''stdout'') = label e" "label e = label e' \<longleftrightarrow> e = e'"
  by (cases e; cases e'; simp add: label_def)+

lemma chunk_sel [simp]:
  "dc_Stream (chunk req l d) = l" "dc_Data (chunk req l d) = d" "\<not> dc_EOF (chunk req l d)"
  "dc_RequestID (chunk req l d) = dr_RequestID req"
  by (simp_all add: chunk_def)

lemma texts_simps [simp]:
  "texts e [] = []" "texts e (xs @ ys) = texts e xs @ texts e ys"
  "texts e [chunk req (label e') d] = (if e = e' then [d] else [])"
  by (auto simp: texts_def)

lemma streamed_simps [simp]:
  "streamed_bytes [] = 0" "streamed_bytes (xs @ ys) = streamed_bytes xs + streamed_bytes ys"
  "streamed_bytes [chunk req (label e) d] = length d" "streamed_bytes [chunk req ''stderr'' d] = length d"
  "streamed_bytes [chunk req ''stdout'' d] = length d"
  by (simp_all add: streamed_bytes_def)

lemma stream_turn_ok:
  assumes "stream_turn req e st = (cs, st')" and "holds_ok req st"
  shows "holds_ok req st'" and "list_all (\<lambda>c. \<not> dc_EOF c \<and> dc_RequestID c = dr_RequestID req) cs"
    and "streamed_bytes cs + held_bytes st' + st_budget st' = held_bytes st + st_budget st"
    and "todo_bytes st < st_budget st \<Longrightarrow> todo_bytes st' < st_budget st' \<and>
      texts e' cs @ held_text (st_hold st' e') @ st_todo st' e' = held_text (st_hold st e') @ st_todo st e'"
proof -
  note defs = holds_ok_def held_bytes_def todo_bytes_def UNIV_bool held_text_def
  consider (emit) d where "st_hold st e = Some (chunk req (label e) d)"
        "cs = [chunk req (label e) d]" "st' = st\<lparr>st_hold := (st_hold st)(e := None)\<rparr>"
    | (quiet) "st_hold st e = None" "st_todo st e = []" "cs = []" "st' = st"
    | (spent) l ls where "st_hold st e = None" "st_todo st e = l # ls" "st_budget st = 0" "cs = []"
        "st' = st\<lparr>st_todo := (st_todo st)(e := [])\<rparr>"
    | (cut) l ls where "st_hold st e = None" "st_todo st e = l # ls" "st_budget st \<noteq> 0" "cs = []"
        "st' = st\<lparr>st_budget := st_budget st - length (take (st_budget st) l), st_todo := (st_todo st)(e := ls),
           st_hold := (st_hold st)(e := Some (chunk req (label e) (take (st_budget st) l)))\<rparr>"
  proof (cases "st_hold st e")
    case (Some c)
    then have "c = chunk req (label e) (dc_Data c)"
      using assms(2) by (simp add: holds_ok_def)
    with Some assms(1) show thesis
      by (intro emit [of "dc_Data c"]) (simp_all add: stream_turn_def)
  next
    case None
    show thesis
    proof (cases "st_todo st e")
      case Nil
      with None assms(1) show thesis
        by (intro quiet) (simp_all add: stream_turn_def)
    next
      case (Cons l ls)
      show thesis
      proof (cases "st_budget st = 0")
        case True
        with None Cons assms(1) show thesis
          by (intro spent [of l ls]) (simp_all add: stream_turn_def)
      next
        case False
        with None Cons assms(1) show thesis
          by (intro cut [of l ls]) (simp_all add: stream_turn_def Let_def split: if_splits)
      qed
    qed
  qed
  note cases = this
  show "holds_ok req st'"
    using assms(2) by (cases rule: cases) (auto simp: holds_ok_def)
  show "list_all (\<lambda>c. \<not> dc_EOF c \<and> dc_RequestID c = dr_RequestID req) cs"
    by (cases rule: cases) simp_all
  show "streamed_bytes cs + held_bytes st' + st_budget st' = held_bytes st + st_budget st"
    by (cases rule: cases; cases e) (simp_all add: defs)
  show "todo_bytes st' < st_budget st' \<and>
      texts e' cs @ held_text (st_hold st' e') @ st_todo st' e' = held_text (st_hold st e') @ st_todo st e'"
    if less: "todo_bytes st < st_budget st"
  proof (cases rule: cases)
    case (emit d)
    with less show ?thesis by (simp add: todo_bytes_def held_text_def)
  next
    case (cut l ls)
    have b: "todo_bytes st = length l + todo_bytes (st\<lparr>st_todo := (st_todo st)(e := ls)\<rparr>)"
      using cut by (cases e) (simp_all add: todo_bytes_def UNIV_bool)
    with less have "take (st_budget st) l = l" by simp
    with cut b less show ?thesis
      by (auto simp: todo_bytes_def held_text_def)
  qed (use less in simp_all)
qed

lemma stream_turns_ok:
  "stream_turns req es st = (cs, st') \<Longrightarrow> holds_ok req st \<Longrightarrow>
   holds_ok req st' \<and> list_all (\<lambda>c. \<not> dc_EOF c \<and> dc_RequestID c = dr_RequestID req) cs \<and>
   streamed_bytes cs + held_bytes st' + st_budget st' = held_bytes st + st_budget st \<and>
   (todo_bytes st < st_budget st \<longrightarrow>
      texts e' cs @ held_text (st_hold st' e') @ st_todo st' e' = held_text (st_hold st e') @ st_todo st e')"
proof (induction es arbitrary: st cs)
  case (Cons e es)
  obtain c1 st1 c2 where s: "stream_turn req e st = (c1, st1)" "stream_turns req es st1 = (c2, st')" "cs = c1 @ c2"
    using Cons.prems(1) by (auto split: prod.splits)
  note one = stream_turn_ok [OF s(1) Cons.prems(2)]
  show ?case
    using Cons.IH [OF s(2) one(1)] one(2,3) one(4) [of e'] by (auto simp: s(3))
qed simp

text \<open>Both goroutines have returned at the end of the schedule.\<close>

definition work_left :: "streams \<Rightarrow> bool \<Rightarrow> nat" where
  "work_left st e = 2 * length (st_todo st e) + (if st_hold st e = None then 0 else 1)"

lemma stream_turn_work:
  "stream_turn req e st = (cs, st') \<Longrightarrow>
   work_left st' e \<le> work_left st e - 1 \<and> (\<forall>e'. e' \<noteq> e \<longrightarrow> work_left st' e' = work_left st e')"
  by (auto simp: stream_turn_def work_left_def Let_def split: option.splits list.splits if_splits)

lemma stream_turns_work:
  "stream_turns req es st = (cs, st') \<Longrightarrow> work_left st' e \<le> work_left st e - count_list es e"
proof (induction es arbitrary: st cs)
  case (Cons a es)
  obtain c1 st1 c2 where s: "stream_turn req a st = (c1, st1)" "stream_turns req es st1 = (c2, st')"
    using Cons.prems by (auto split: prod.splits)
  note w = Cons.IH [OF s(2)] stream_turn_work [OF s(1)]
  show ?case
  proof (cases "e = a")
    case True
    with w have "work_left st' e \<le> work_left st1 e - count_list es e" "work_left st1 e \<le> work_left st e - 1"
      by blast+
    with True show ?thesis by simp
  next
    case False
    with w show ?thesis by auto
  qed
qed simp

lemma streams_of_start [simp]:
  "holds_ok req (streams_of out err)" "held_bytes (streams_of out err) = 0"
  "st_budget (streams_of out err) = MaxOutputB" "st_hold (streams_of out err) e = None"
  "st_todo (streams_of out err) e = scan_lines chunkScanCap (if e then err else out)"
  by (simp_all add: streams_of_def holds_ok_def held_bytes_def held_text_def)

lemma streams_finish:
  assumes "stream_turns req (full_sched sched (streams_of out err)) (streams_of out err) = (cs, st')"
  shows "st_todo st' e = []" and "st_hold st' e = None"
proof -
  have "work_left st' e \<le> work_left (streams_of out err) e -
      count_list (full_sched sched (streams_of out err)) e"
    by (rule stream_turns_work [OF assms])
  moreover have "2 * length (st_todo (streams_of out err) e) \<le>
      count_list (full_sched sched (streams_of out err)) e"
    by (cases e) (simp_all add: full_sched_def count_list_eq_length_filter)
  ultimately have "work_left st' e = 0"
    by (simp add: work_left_def)
  then show "st_todo st' e = []" "st_hold st' e = None"
    by (simp_all add: work_left_def split: if_splits)
qed

lemma stream_props:
  "streamed_bytes (stream req sched out err) \<le> MaxOutputB \<and>
   list_all (\<lambda>c. \<not> dc_EOF c \<and> dc_RequestID c = dr_RequestID req) (stream req sched out err)"
proof -
  obtain cs st' where s: "stream_turns req (full_sched sched (streams_of out err)) (streams_of out err) = (cs, st')"
    by fastforce
  from stream_turns_ok [OF s, of True] show ?thesis
    by (simp add: stream_def s)
qed

lemma stream_texts:
  assumes "todo_bytes (streams_of out err) < MaxOutputB"
  shows "texts e (stream req sched out err) = scan_lines chunkScanCap (if e then err else out)"
proof -
  obtain cs st' where s: "stream_turns req (full_sched sched (streams_of out err)) (streams_of out err) = (cs, st')"
    by fastforce
  from stream_turns_ok [OF s, of e] streams_finish [OF s, of e] assms show ?thesis
    by (simp add: stream_def s held_text_def)
qed

lemma finish_chunk:
  "finish etext req x err = ([c], err') \<longleftrightarrow> c = \<lparr>dc_RequestID = dr_RequestID req, dc_Stream = ''meta'',
     dc_Data = '''', dc_EOF = True, dc_ExitCode = x,
     dc_Err = (case err of None \<Rightarrow> '''' | Some e \<Rightarrow> etext e)\<rparr> \<and> err' = err"
  by (auto simp: finish_def)

lemma diag_Run_split:
  "\<exists>init x err. diag_Run windows etext px req = apfst ((@) init) (finish etext req x err) \<and>
     list_all (\<lambda>c. \<not> dc_EOF c \<and> dc_RequestID c = dr_RequestID req) init \<and>
     streamed_bytes init \<le> MaxOutputB"
proof (cases "resolve windows req")
  case (Inl e)
  then show ?thesis
    by (intro exI [of _ "[]"]) (auto simp: diag_Run_def streamed_bytes_def apfst_def map_prod_def
        split: prod.splits)
next
  case (Inr na)
  obtain name argv where na: "na = (name, argv)" by (cases na)
  let ?s = "chunk req ''meta'' (''$ '' @ name @ '' '' @ join_args argv)"
  have s: "\<not> dc_EOF ?s" "dc_RequestID ?s = dr_RequestID req" "dc_Stream ?s = ''meta''"
    by (simp_all add: chunk_def)
  have cons: "apfst ((#) ?s) r = apfst ((@) [?s]) r" for r :: "diag_chunk list \<times> diag_error option"
    by (cases r) simp
  let ?init = "if px_pipe_err px = None \<and> px_start_err px = None
     then ?s # stream req (px_sched px) (px_stdout px) (px_stderr px) else [?s]"
  let ?x = "if px_pipe_err px = None \<and> px_start_err px = None
     then (case px_wait px of WaitOk \<Rightarrow> 0 | WaitExit n \<Rightarrow> n | WaitFailed \<Rightarrow> -1) else -1"
  let ?err = "case px_pipe_err px of Some e \<Rightarrow> Some (PipeError e)
     | None \<Rightarrow> (case px_start_err px of Some e \<Rightarrow> Some (StartError name e)
        | None \<Rightarrow> if px_wait px \<noteq> WaitOk \<and> px_deadline px then Some (TimedOut name) else None)"
  have "diag_Run windows etext px req = apfst ((@) ?init) (finish etext req ?x ?err)"
    using Inr na by (simp add: diag_Run_def Let_def cons split: option.splits wait_result.splits)
  moreover have "list_all (\<lambda>c. \<not> dc_EOF c \<and> dc_RequestID c = dr_RequestID req) ?init \<and>
      streamed_bytes ?init \<le> MaxOutputB"
    using s stream_props [of req "px_sched px" "px_stdout px" "px_stderr px"] by (simp add: streamed_bytes_def)
  ultimately show ?thesis by blast
qed

text \<open>
  C26: Every diagnostic is answered and bounded: whatever the request and the process do, the emitted
  chunks end with exactly one EOF chunk, which carries the error that Run returns; all of them
  name the request; and no more than 256 KiB of output is streamed.
\<close>

theorem diag_always_finishes:
  "\<exists>init last. fst (diag_Run windows etext px req) = init @ [last] \<and> dc_EOF last \<and>
     list_all (\<lambda>c. \<not> dc_EOF c) init \<and>
     list_all (\<lambda>c. dc_RequestID c = dr_RequestID req) (init @ [last]) \<and>
     dc_Err last = (case snd (diag_Run windows etext px req) of None \<Rightarrow> '''' | Some e \<Rightarrow> etext e) \<and>
     streamed_bytes (fst (diag_Run windows etext px req)) \<le> 256 * 1024"
proof -
  obtain init x err where run: "diag_Run windows etext px req = apfst ((@) init) (finish etext req x err)"
    and init: "list_all (\<lambda>c. \<not> dc_EOF c \<and> dc_RequestID c = dr_RequestID req) init"
      "streamed_bytes init \<le> MaxOutputB"
    using diag_Run_split by blast
  obtain c where c: "finish etext req x err = ([c], err)"
    by (simp add: finish_chunk)
  with run have "fst (diag_Run windows etext px req) = init @ [c]" "snd (diag_Run windows etext px req) = err"
    by simp_all
  with c init show ?thesis
    by (intro exI [of _ init] exI [of _ c]) (auto simp: finish_chunk streamed_bytes_def MaxOutputB_def list_all_iff)
qed

text \<open>
  C27: The output arrives as the child wrote it.  If a started command writes less than 256 KiB altogether and
  every line is ended by a newline, does not end in a carriage return and fits into the scanner's
  64 KiB, the chunks labelled stdout are exactly the lines of its
  standard output, in order, and those labelled stderr exactly the lines of its standard error, in
  whatever order the two goroutines run.
\<close>

theorem diag_output_faithful:
  assumes "resolve windows req = Inr (name, argv)" and "px_pipe_err px = None" and "px_start_err px = None"
    and "px_stdout px = unlines outs" and "px_stderr px = unlines errs"
    and "\<forall>l \<in> set (outs @ errs). CHR 0x0A \<notin> set l \<and> drop_cr l = l \<and> length l < 65536"
    and "length (px_stdout px) + length (px_stderr px) < 262144"
  shows "texts False (fst (diag_Run windows etext px req)) = outs \<and>
     texts True (fst (diag_Run windows etext px req)) = errs"
proof -
  have scan: "scan_lines chunkScanCap (px_stdout px) = outs" "scan_lines chunkScanCap (px_stderr px) = errs"
    using assms(6) by (simp_all add: assms(4,5) chunkScanCap_def scan_unlines)
  have len: "length (concat ls) \<le> length (unlines ls)" for ls
    by (induction ls) (simp_all add: unlines_def)
  have "length (concat outs) + length (concat errs) < MaxOutputB"
    using assms(7) len [of outs] len [of errs] by (simp only: assms(4,5) MaxOutputB_def)
  then have "todo_bytes (streams_of (px_stdout px) (px_stderr px)) < MaxOutputB"
    using scan by (simp add: todo_bytes_def UNIV_bool add.commute)
  then have t: "texts e (stream req sched (px_stdout px) (px_stderr px)) = (if e then errs else outs)" for e sched
    using scan by (simp add: stream_texts)
  have m: "texts e (chunk req ''meta'' d # cs) = texts e cs" "texts e (fst (finish etext req x er)) = []" for e d cs x er
    by (cases e; simp add: texts_def finish_def)+
  show ?thesis
    using assms(1-3) by (simp add: diag_Run_def Let_def m t split: wait_result.splits)
qed

theorem diag_output_faithful_witness:
  "\<exists>px. px_stdout px = ''ab'' @ [CHR 0x0A] @ ''c'' @ [CHR 0x0A] \<and>
     texts False (fst (diag_Run False (\<lambda>_. '''') px
       \<lparr>dr_RequestID = ''r'', dr_Command = ''netstat'', dr_Args = []\<rparr>)) = [''ab'', ''c'']"
proof -
  let ?px = "\<lparr>px_pipe_err = None, px_start_err = None, px_stdout = unlines [''ab'', ''c''], px_stderr = unlines [''x''],
     px_sched = [True, False, True], px_wait = WaitOk, px_deadline = False\<rparr>"
  let ?req = "\<lparr>dr_RequestID = ''r'', dr_Command = ''netstat'', dr_Args = []\<rparr>"
  have r: "resolve False ?req = Inr (''netstat'', [''-an''])"
    by code_simp
  have "texts False (fst (diag_Run False (\<lambda>_. '''') ?px ?req)) = [''ab'', ''c'']"
    using diag_output_faithful [OF r, of ?px "[''ab'', ''c'']" "[''x'']" "\<lambda>_. ''''"]
    by (simp add: unlines_def drop_cr_def)
  then show ?thesis
    by (intro exI [of _ ?px]) (simp add: unlines_def)
qed

end
