(* ===== verification/Auth.thy ===== *)
theory Auth
  imports GoNet Logging
begin

text \<open>
  \<open>internal/auth/auth.go\<close>: who may change state.  The locale \<open>write_gate\<close> is the contract
  of the middleware: a request that is not authenticated never reaches the wrapped handler.
  Handlers are functions from a request and the server state to a response and the new state.
\<close>

text \<open>The request as the handlers see it: \<open>rq_auth\<close> is the result of \<open>r.BasicAuth()\<close>,
  \<open>rq_token\<close> the query parameter \<open>token\<close>, \<open>rq_origin\<close> the header Origin (empty when there is none), \<open>rq_body\<close> the first JSON value of the body
  (\<^const>\<open>None\<close> when there is none within the size limit, \<open>rq_empty\<close> when the body is blank), and \<open>rq_err\<close> the text of the decoder's error, should decoding fail.\<close>

record request =
  rq_method :: string
  rq_path :: string
  rq_remote :: string
  rq_host :: string
  rq_origin :: string
  rq_auth :: "(string \<times> string) option"
  rq_token :: string
  rq_body :: "json option"
  rq_empty :: bool
  rq_err :: string

record authenticator =
  au_enabled :: bool
  au_user :: string
  au_pass :: string

definition auth_New :: "bool \<Rightarrow> string \<Rightarrow> string \<Rightarrow> authenticator" where
  "auth_New enabled user pass = \<lparr>au_enabled = enabled, au_user = user, au_pass = pass\<rparr>"

definition Authenticated :: "authenticator \<Rightarrow> request \<Rightarrow> bool" where
  "Authenticated a r =
     (if \<not> au_enabled a then True
      else (case rq_auth r of None \<Rightarrow> False
            | Some (user, pass) \<Rightarrow>
                let userOK = (ct_compare (bytes_of user) (bytes_of (au_user a)) = 1);
                    passOK = (ct_compare (bytes_of pass) (bytes_of (au_pass a)) = 1)
                in userOK \<and> passOK))"

text \<open>\<open>Deferred\<close>: the handler is still waiting and answers later.\<close>

datatype response = Response (rs_status: nat) (rs_body: json) | HttpError (rs_status: nat) (rs_msg: string) | Deferred

definition rejected_event :: "request \<Rightarrow> event" where
  "rejected_event r = (event0 AuthRejected)\<lparr>ev_Detail := rq_method r @ '' '' @ rq_path r,
     ev_Fields := [(''remote'', AStr (rq_remote r))]\<rparr>"

text \<open>\<open>RequireWrite\<close>: the server state is threaded through \<open>next\<close>; the result carries the
  events emitted.\<close>

definition RequireWrite ::
  "authenticator \<Rightarrow> (request \<Rightarrow> 's \<Rightarrow> response \<times> 's \<times> event list) \<Rightarrow>
   request \<Rightarrow> 's \<Rightarrow> response \<times> 's \<times> event list" where
  "RequireWrite a nxt r s =
     (if Authenticated a r then nxt r s
      else (HttpError 401 ''authentication required'', s, [rejected_event r]))"

lemma Authenticated_iff:
  "Authenticated a r \<longleftrightarrow> (au_enabled a \<longrightarrow> rq_auth r = Some (au_user a, au_pass a))"
  by (auto simp: Authenticated_def ct_compare_strings Let_def simp del: One_nat_def split: option.splits)

subsection \<open>The gate contract\<close>

locale write_gate =
  fixes allowed :: "'r \<Rightarrow> bool"
    and gate :: "('r \<Rightarrow> 's \<Rightarrow> 'x \<times> 's \<times> 'e list) \<Rightarrow> 'r \<Rightarrow> 's \<Rightarrow> 'x \<times> 's \<times> 'e list"
    and refusal :: "'r \<Rightarrow> 'x \<times> 'e list"
  assumes pass_through: "allowed r \<Longrightarrow> gate h r s = h r s"
    and refuse: "\<not> allowed r \<Longrightarrow> gate h r s = (fst (refusal r), s, snd (refusal r))"
begin

lemma refuse_state: "\<not> allowed r \<Longrightarrow> fst (snd (gate h r s)) = s"
  by (simp add: refuse)

text \<open>A refused request cannot tell which handler stands behind the gate.\<close>

lemma refuse_uniform: "\<not> allowed r \<Longrightarrow> gate h r s = gate h' r s"
  by (simp add: refuse)

lemma keeps_invariant:
  "(\<And>r s. P s \<Longrightarrow> P (fst (snd (h r s)))) \<Longrightarrow> P s \<Longrightarrow> P (fst (snd (gate h r s)))"
  by (cases "allowed r") (simp_all add: pass_through refuse)

end

interpretation auth_gate: write_gate "Authenticated a" "RequireWrite a"
  "\<lambda>r. (HttpError 401 ''authentication required'', [rejected_event r])" for a
  by unfold_locales (simp_all add: RequireWrite_def)

text \<open>
  Access decision: on an open controller every request is privileged; on a secured one
  exactly the requests whose Basic credentials are the configured user and password, byte for
  byte, are.  The constant-time comparison (length check, then an OR of all byte differences)
  decides equality.
\<close>

theorem authenticated_exactly:
  "Authenticated (auth_New enabled user pass) r \<longleftrightarrow>
   (if enabled then rq_auth r = Some (user, pass) else True)"
  by (auto simp: Authenticated_iff auth_New_def)

end
