(* ===== verification/UIStream.thy ===== *)
theory UIStream
  imports Logging Protocol
begin

text \<open>
  \<open>internal/uistream/uistream.go\<close>: the message pushed to browsers, the hub that fans
  messages out to the connected sessions, and the store of latest metrics.  A session is a
  pointer in the Go code; here it is an address, allocated by \<open>uiAdd\<close>, into a heap of
  channels.  The hub interprets \<open>fanout\<close> (an item is a message with the flag that restricts
  it to privileged sessions).
\<close>

datatype ui_kind = KEvent event | KTelemetry "metric list" bool | KDiag diag_chunk

record ui_hub =
  ui_next :: nat
  ui_clients :: "nat list"
  ui_privileged :: "nat \<Rightarrow> bool"
  ui_heap :: "nat \<Rightarrow> ui_kind chan"

definition uiNewHub :: ui_hub where
  "uiNewHub = \<lparr>ui_next = 0, ui_clients = [], ui_privileged = (\<lambda>_. False),
     ui_heap = (\<lambda>_. make_chan 0)\<rparr>"

definition uiAdd :: "bool \<Rightarrow> ui_hub \<Rightarrow> nat \<times> ui_hub" where
  "uiAdd privileged h =
     (let cl = ui_next h in
      (cl, h\<lparr>ui_next := Suc cl, ui_clients := ui_clients h @ [cl],
             ui_privileged := (ui_privileged h)(cl := privileged),
             ui_heap := (ui_heap h)(cl := make_chan 256)\<rparr>))"

definition uiRemove :: "nat \<Rightarrow> ui_hub \<Rightarrow> ui_hub option" where
  "uiRemove cl h =
     (if cl \<in> set (ui_clients h) then
        (case close_chan (ui_heap h cl) of None \<Rightarrow> None
         | Some c \<Rightarrow> Some (h\<lparr>ui_clients := removeAll cl (ui_clients h), ui_heap := (ui_heap h)(cl := c)\<rparr>))
      else Some h)"

text \<open>The loop over the sessions skips the non-privileged ones when asked to.\<close>

definition uiBroadcast :: "ui_kind \<times> bool \<Rightarrow> ui_hub \<Rightarrow> ui_hub option" where
  "uiBroadcast mb h =
     (case mb of (msg, onlyPrivileged) \<Rightarrow>
        map_option (\<lambda>hp. h\<lparr>ui_heap := hp\<rparr>)
          (send_each msg (filter (\<lambda>cl. \<not> (onlyPrivileged \<and> \<not> ui_privileged h cl)) (ui_clients h))
             (ui_heap h)))"

definition ui_ok :: "ui_hub \<Rightarrow> bool" where
  "ui_ok h \<longleftrightarrow> distinct (ui_clients h) \<and> (\<forall>i \<in> set (ui_clients h). i < ui_next h)
     \<and> (\<forall>i \<in> set (ui_clients h). \<not> ch_closed (ui_heap h i))"

lemma ui_ok_new [keeps]: "ui_ok uiNewHub"
  by (simp add: ui_ok_def uiNewHub_def)

lemma ui_ok_add [keeps]: "ui_ok h \<Longrightarrow> ui_ok (snd (uiAdd p h))"
  by (auto simp: ui_ok_def uiAdd_def Let_def)

lemma ui_ok_remove [keeps]:
  "ui_ok h \<Longrightarrow> \<exists>h'. uiRemove cl h = Some h' \<and> ui_ok h' \<and> cl \<notin> set (ui_clients h')"
  by (auto simp: ui_ok_def uiRemove_def close_chan_def distinct_removeAll)

text \<open>Both the reader goroutine and the deferred call of a session remove it.\<close>

lemma uiRemove_twice:
  assumes "ui_ok h" and "uiRemove cl h = Some h'"
  shows "uiRemove cl h' = Some h'"
  using ui_ok_remove [OF assms(1), of cl] assms(2) by (auto simp: uiRemove_def)

definition ui_wants :: "ui_hub \<Rightarrow> ui_kind \<times> bool \<Rightarrow> nat \<Rightarrow> bool" where
  "ui_wants h mb cl \<longleftrightarrow> (snd mb \<longrightarrow> ui_privileged h cl)"

lemma uiBroadcast_open:
  "ui_ok h \<Longrightarrow> uiBroadcast mb h =
   Some (h\<lparr>ui_heap := \<lambda>i. if i \<in> set (ui_clients h) \<and> ui_wants h mb i
                          then offer (fst mb) (ui_heap h i) else ui_heap h i\<rparr>)"
  by (cases mb) (auto simp: ui_ok_def uiBroadcast_def send_each_open ui_wants_def cong: if_cong)

interpretation ui_fanout: fanout ui_ok "\<lambda>h. set (ui_clients h)" ui_heap ui_wants fst uiBroadcast
  by unfold_locales (auto simp: uiBroadcast_open ui_ok_def ui_wants_def fun_eq_iff split: if_splits)

subsection \<open>The latest-metric store\<close>

type_synonym ui_store = "string \<rightharpoonup> metric"

definition key :: "metric \<Rightarrow> string" where
  "key m = m_AgentID m @ ''|'' @ m_PeerID m @ ''|'' @ m_Profile m @ ''|'' @ m_FlowID m"

definition ingest1 :: "metric \<Rightarrow> ui_store \<Rightarrow> ui_store" where
  "ingest1 m st =
     (case st (key m) of
        Some prev \<Rightarrow> if m_Seq m \<noteq> 0 \<and> m_Seq prev > m_Seq m then st else st(key m \<mapsto> m)
      | None \<Rightarrow> st(key m \<mapsto> m))"

definition Ingest :: "metric list \<Rightarrow> ui_store \<Rightarrow> ui_store" where
  "Ingest ms st = fold ingest1 ms st"

definition store_Clear :: "ui_store \<Rightarrow> ui_store" where
  "store_Clear st = Map.empty"

text \<open>The order of the snapshot is the map's iteration order: a list of the keys.\<close>

definition Snapshot :: "string list \<Rightarrow> ui_store \<Rightarrow> metric list" where
  "Snapshot ord st = map (\<lambda>k. the (st k)) (filter (\<lambda>k. st k \<noteq> None) ord)"

definition store_ok :: "ui_store \<Rightarrow> bool" where
  "store_ok st \<longleftrightarrow> (\<forall>k m. st k = Some m \<longrightarrow> key m = k)"

lemma store_ok_ingest1 [keeps]: "store_ok st \<Longrightarrow> store_ok (ingest1 m st)"
  by (auto simp: store_ok_def ingest1_def split: option.splits if_splits)

lemma store_ok_ingest [keeps]: "store_ok st \<Longrightarrow> store_ok (Ingest ms st)"
  unfolding Ingest_def by (induction ms arbitrary: st) (auto intro: store_ok_ingest1)

subsection \<open>What the store holds after a batch\<close>

lemma ingest1_other: "k \<noteq> key m \<Longrightarrow> ingest1 m st k = st k"
  by (simp add: ingest1_def split: option.splits)

lemma ingest1_at:
  "ingest1 m st (key m) =
   (case st (key m) of
      Some prev \<Rightarrow> Some (if m_Seq m \<noteq> 0 \<and> m_Seq prev > m_Seq m then prev else m)
    | None \<Rightarrow> Some m)"
  by (simp add: ingest1_def split: option.splits)

text \<open>The store at one key is a fold over the metrics with that key.\<close>

definition newer :: "metric \<Rightarrow> metric option \<Rightarrow> metric option" where
  "newer m p = (case p of Some prev \<Rightarrow> Some (if m_Seq m \<noteq> 0 \<and> m_Seq prev > m_Seq m then prev else m)
                | None \<Rightarrow> Some m)"

lemma newer_simps [simp]:
  "newer m None = Some m"
  "newer m (Some prev) = Some (if m_Seq m \<noteq> 0 \<and> m_Seq prev > m_Seq m then prev else m)"
  by (simp_all add: newer_def)

lemma newer_Some: "\<exists>q. newer m p = Some q"
  by (cases p) auto

lemma Ingest_at: "Ingest ms st k = fold newer (filter (\<lambda>m. key m = k) ms) (st k)"
proof (induction ms arbitrary: st)
  case (Cons m ms)
  have "Ingest (m # ms) st k = Ingest ms (ingest1 m st) k"
    by (simp add: Ingest_def)
  with Cons show ?case
    by (auto simp: ingest1_other ingest1_at newer_def)
qed (simp add: Ingest_def)

lemma newer_fold_mem: "fold newer ms p = Some m \<Longrightarrow> m \<in> set ms \<or> p = Some m"
proof (induction ms arbitrary: p)
  case (Cons x ms)
  then have "m \<in> set ms \<or> newer x p = Some m" by simp
  then show ?case by (auto simp: newer_def split: option.splits if_splits)
qed simp

lemma newer_fold_max:
  "(\<forall>m \<in> set ms. m_Seq m \<noteq> 0) \<Longrightarrow>
   (ms \<noteq> [] \<or> p \<noteq> None) \<Longrightarrow>
   \<exists>b. fold newer ms p = Some b \<and> (\<forall>m \<in> set ms. m_Seq m \<le> m_Seq b)
     \<and> (\<forall>m. p = Some m \<longrightarrow> m_Seq m \<le> m_Seq b)"
proof (induction ms arbitrary: p)
  case (Cons x ms)
  obtain q where q: "newer x p = Some q" using newer_Some by blast
  then have le: "m_Seq x \<le> m_Seq q" "\<forall>m. p = Some m \<longrightarrow> m_Seq m \<le> m_Seq q"
    using Cons.prems(1) by (auto simp: newer_def split: option.splits if_splits)
  from Cons.IH [of "newer x p"] Cons.prems q obtain b where
    "fold newer ms (newer x p) = Some b" "\<forall>m \<in> set ms. m_Seq m \<le> m_Seq b" "m_Seq q \<le> m_Seq b"
    by auto
  with le show ?case by (auto intro: order_trans)
qed auto

text \<open>Processing a list a second time changes nothing: the first metric that would be kept
  either is unsequenced, which restarts the fold, or loses to what is already there.\<close>

lemma newer_restart: "m_Seq m = 0 \<Longrightarrow> newer m p = Some m"
  by (simp add: newer_def split: option.splits)

lemma newer_absorb:
  "m_Seq m \<noteq> 0 \<Longrightarrow> m_Seq m < m_Seq b \<Longrightarrow> newer m (Some b) = Some b"
  by (simp add: newer_def)

lemma newer_fold_again:
  "(\<forall>m \<in> set ms. m_Seq m \<noteq> 0) \<Longrightarrow> fold newer ms p = Some b \<Longrightarrow>
   (\<forall>m \<in> set ms. m_Seq m \<le> m_Seq c) \<Longrightarrow> m_Seq c = m_Seq b \<Longrightarrow>
   fold newer ms (Some c) = Some (if \<exists>m \<in> set ms. m_Seq m = m_Seq b then b else c)"
proof (induction ms arbitrary: b rule: rev_induct)
  case (snoc x ms)
  obtain d where d: "fold newer ms p = Some d" if "ms \<noteq> [] \<or> p \<noteq> None"
    using newer_fold_max [of ms p] snoc.prems(1) by auto
  show ?case
  proof (cases "ms = [] \<and> p = None")
    case True
    with snoc.prems show ?thesis by auto
  next
    case False
    with d have d: "fold newer ms p = Some d" by simp
    show ?thesis
    proof (cases "m_Seq d > m_Seq x")
      case True
      with d snoc.prems have b: "b = d" by simp
      with snoc.IH [OF _ d] snoc.prems True show ?thesis
        by auto
    next
      case F: False
      with d snoc.prems have b: "b = x" by simp
      have "\<exists>e. fold newer ms (Some c) = Some e \<and> m_Seq e \<le> m_Seq x"
      proof -
        obtain e where e: "fold newer ms (Some c) = Some e"
          using newer_fold_max [of ms "Some c"] snoc.prems(1) by auto
        have "e \<in> set ms \<or> e = c"
          using newer_fold_mem [OF e] by auto
        with e snoc.prems b show ?thesis by auto
      qed
      with b show ?thesis by auto
    qed
  qed
qed simp

lemma newer_fold_idem: "fold newer ms (fold newer ms p) = fold newer ms p"
proof (cases "\<exists>m \<in> set ms. m_Seq m = 0")
  case True
  then obtain xs z ys where ms: "ms = xs @ z # ys" and z: "m_Seq z = 0"
    by (meson split_list)
  have "fold newer ms q = fold newer ys (Some z)" for q
    by (simp add: ms newer_restart [OF z])
  then show ?thesis by simp
next
  case False
  show ?thesis
  proof (cases "fold newer ms p")
    case None
    then have "ms = []" using False newer_fold_max [of ms p] by fastforce
    then show ?thesis by simp
  next
    case (Some b)
    have "\<forall>m \<in> set ms. m_Seq m \<le> m_Seq b"
      using False Some newer_fold_max [of ms p] by (cases ms) auto
    with False newer_fold_again [OF _ Some, of b] Some show ?thesis by auto
  qed
qed

subsection \<open>Rows of the grid\<close>

definition row_of :: "metric \<Rightarrow> string \<times> string \<times> string \<times> string" where
  "row_of m = (m_AgentID m, m_PeerID m, m_Profile m, m_FlowID m)"

definition sep_free :: "char \<Rightarrow> metric \<Rightarrow> bool" where
  "sep_free c m \<longleftrightarrow> c \<notin> set (m_AgentID m) \<and> c \<notin> set (m_PeerID m) \<and> c \<notin> set (m_Profile m)"

lemma key_row:
  assumes "sep_free CHR ''|'' m" and "sep_free CHR ''|'' m'"
  shows "key m = key m' \<longleftrightarrow> row_of m = row_of m'"
  using assms
  by (auto simp: key_def row_of_def sep_free_def
      dest!: append_sep_inject [rotated 2])

subsection \<open>Properties\<close>

text \<open>Broadcasting a sequence of messages.\<close>

fun uiBroadcast_all :: "(ui_kind \<times> bool) list \<Rightarrow> ui_hub \<Rightarrow> ui_hub option" where
  "uiBroadcast_all [] h = Some h"
| "uiBroadcast_all (m # ms) h = (case uiBroadcast m h of None \<Rightarrow> None | Some h' \<Rightarrow> uiBroadcast_all ms h')"

lemma uiBroadcast_all_fanout: "uiBroadcast_all ms h = ui_fanout.publish_all ms h"
  by (induction ms arbitrary: h) (simp_all split: option.splits)

text \<open>
  The browser fan-out never panics and never blocks: whatever sequence of messages is
  broadcast, the channel of a connected session afterwards holds what it held followed by the
  messages meant for it, in order and cut off at the channel's capacity.  Messages restricted
  to privileged sessions never reach a session that is not privileged.
\<close>

theorem ui_session_stream:
  assumes "ui_ok h" and "cl \<in> set (ui_clients h)"
    and "length (ch_buf (ui_heap h cl)) \<le> ch_cap (ui_heap h cl)"
  shows "\<exists>h'. uiBroadcast_all ms h = Some h' \<and> ui_ok h' \<and>
     ch_buf (ui_heap h' cl) = take (ch_cap (ui_heap h cl)) (ch_buf (ui_heap h cl)
       @ map fst (filter (\<lambda>m. snd m \<longrightarrow> ui_privileged h cl) ms))"
proof -
  obtain h' where "uiBroadcast_all ms h = Some h'" "ui_ok h'"
    using ui_fanout.publish_all_chan [OF assms(1), of ms] by (auto simp: uiBroadcast_all_fanout)
  then show ?thesis
    using ui_fanout.publish_all_buf [OF assms(1,2,3), of ms]
    by (auto simp: uiBroadcast_all_fanout ui_wants_def)
qed

theorem ui_session_stream_witness:
  "\<exists>h'. uiBroadcast_all [(KTelemetry [] False, False), (KDiag zero_diag_chunk, True)]
       (snd (uiAdd False uiNewHub)) = Some h' \<and> ui_ok h' \<and>
     ch_buf (ui_heap h' 0) = take 256 [KTelemetry [] False]"
  using ui_session_stream [OF ui_ok_add [OF ui_ok_new], of 0 False
      "[(KTelemetry [] False, False), (KDiag zero_diag_chunk, True)]"]
  by (simp add: uiAdd_def uiNewHub_def Let_def)

text \<open>
  Store.Ingest: newest sequence number wins.  After a batch of sequenced metrics the row of
  every metric of the batch holds a metric of that row, taken from the batch or from the store
  before it, whose sequence number is at least that of every metric of the batch for the row.
\<close>

theorem store_keeps_newest:
  assumes "store_ok st" and "\<forall>m \<in> set ms. m_Seq m \<noteq> 0" and "m \<in> set ms"
  shows "\<exists>b. Ingest ms st (key m) = Some b \<and> key b = key m \<and> (b \<in> set ms \<or> st (key m) = Some b)
     \<and> (\<forall>m' \<in> set ms. key m' = key m \<longrightarrow> m_Seq m' \<le> m_Seq b)"
proof -
  let ?row = "filter (\<lambda>x. key x = key m) ms"
  obtain b where b: "fold newer ?row (st (key m)) = Some b" "\<forall>x \<in> set ?row. m_Seq x \<le> m_Seq b"
    using newer_fold_max [of ?row "st (key m)"] assms(2,3) by (auto simp: filter_empty_conv)
  moreover have "b \<in> set ?row \<or> st (key m) = Some b"
    using newer_fold_mem [OF b(1)] .
  ultimately show ?thesis
    using assms(1) by (auto simp: Ingest_at store_ok_def)
qed

theorem store_keeps_newest_witness:
  "\<exists>b. Ingest [zero_metric\<lparr>m_Seq := 7\<rparr>, zero_metric\<lparr>m_Seq := 5\<rparr>] Map.empty (key (zero_metric\<lparr>m_Seq := 5\<rparr>)) = Some b
     \<and> m_Seq b \<ge> 7"
  using store_keeps_newest [of Map.empty "[zero_metric\<lparr>m_Seq := 7\<rparr>, zero_metric\<lparr>m_Seq := 5\<rparr>]"
      "zero_metric\<lparr>m_Seq := 5\<rparr>"]
  by (auto simp: store_ok_def key_def)

text \<open>
  Ingesting the same metrics again, as a replayed batch does, changes nothing: every row
  keeps the value the first ingestion gave it, unsequenced metrics included.
\<close>

theorem store_replay_idempotent: "Ingest ms (Ingest ms st) = Ingest ms st"
  by (rule ext) (simp add: Ingest_at newer_fold_idem)

text \<open>
  Two metrics whose agent, peer and profile names do not contain the separator share a row
  of the grid exactly when they agree on agent, peer, profile and flow id.
\<close>

theorem grid_rows_distinct:
  assumes "sep_free CHR ''|'' m" and "sep_free CHR ''|'' m'"
  shows "key m = key m' \<longleftrightarrow> row_of m = row_of m'"
  using assms by (rule key_row)

theorem grid_rows_distinct_witness:
  "key (zero_metric\<lparr>m_FlowID := ''f1''\<rparr>) \<noteq> key (zero_metric\<lparr>m_FlowID := ''f2''\<rparr>)"
  by (subst grid_rows_distinct) (simp_all add: sep_free_def zero_metric_def row_of_def)

end
