(* ===== verification/Agent.thy ===== *)
theory Agent
  imports Config Client DataPlane Diag Auth UIStream
begin

text \<open>
  \<open>internal/agent/agent.go\<close>: the node.  The record \<open>agent\<close> holds the parts it wires together.
  Frames from the controller are handled one at a time on the read-pump goroutine; a handler
  waits inside \<open>Engine.Stop\<close> for the probe loops and inside \<open>Send\<close> for room in the queue, so
  it is split there, and \<open>ag_ctl\<close> says where it stands.  Each diagnostic runs on its
  own goroutine, a \<open>diag_job\<close>.  HTTP handlers are functions of the request and the agent.
\<close>

definition agent_Version :: string where
  "agent_Version = ''0.2.0-dev''"

definition agent_hostname :: "string option \<Rightarrow> string" where
  "agent_hostname hn = (case hn of None \<Rightarrow> ''agent'' | Some h \<Rightarrow> if h = '''' then ''agent'' else h)"

subsection \<open>State\<close>

text \<open>The handler at work: stopping the engine before a plan is applied, before a test starts, or
  before the listeners are released (the flag tells whether \<open>Stop\<close> has to wait), or waiting to
  send the port report.\<close>

datatype ctl =
  Idle
| PlanStop bool flow_plan
| PlanReport event json
| StartStop bool "agent_flow list" test_spec
| StopStop bool

record diag_job =
  dj_conn :: nat
  dj_chunks :: "diag_chunk list"
  dj_waiting :: "json option"
  dj_end :: event

record agent =
  ag_cfg :: config
  ag_client :: client
  ag_engine :: engine
  ag_responder :: responder
  ag_store :: ui_store
  ag_ui :: ui_hub
  ag_flows :: "agent_flow list"
  ag_ctl :: ctl
  ag_diags :: "diag_job list"

definition agent_New :: "string option \<Rightarrow> config \<Rightarrow> agent" where
  "agent_New hn cfg =
     \<lparr>ag_cfg = cfg,
      ag_client = NewClient (cf_AgentID cfg) (agent_hostname hn) agent_Version (cf_MasterAddr cfg)
        (cf_Token cfg) (cf_DataPort cfg) (sp_New DefaultCapacity),
      ag_engine = NewEngine (cf_AgentID cfg), ag_responder = NewResponder,
      ag_store = Map.empty, ag_ui = uiNewHub, ag_flows = [], ag_ctl = Idle, ag_diags = []\<rparr>"

definition agent_started_event :: "agent \<Rightarrow> event" where
  "agent_started_event a = (event0 AgentStarted)\<lparr>ev_AgentID := cf_AgentID (ag_cfg a),
     ev_Detail := mode_String (cf_Mode (ag_cfg a)),
     ev_Fields := [(''master'', AStr (cf_MasterAddr (ag_cfg a))), (''port'', AInt (cf_Port (ag_cfg a)))]\<rparr>"

subsection \<open>SubmitMetric and the event pump\<close>

text \<open>The copy for the local view keeps the zero sequence number: the client stamps its own copy.\<close>

definition local_copy :: "int \<Rightarrow> agent \<Rightarrow> metric \<Rightarrow> metric" where
  "local_copy now a m = m\<lparr>m_AgentID := cf_AgentID (ag_cfg a),
     m_TS := (if m_TS m = 0 then unix_ms now else m_TS m)\<rparr>"

definition agent_SubmitMetric :: "int \<Rightarrow> metric \<Rightarrow> agent \<Rightarrow> agent option" where
  "agent_SubmitMetric now m a =
     (let m' = local_copy now a m in
      map_option (\<lambda>ui. a\<lparr>ag_client := SubmitMetric now m (ag_client a),
          ag_store := Ingest [m'] (ag_store a), ag_ui := ui\<rparr>)
        (uiBroadcast (KTelemetry [m'] False, False) (ag_ui a)))"

fun agent_submits :: "int \<Rightarrow> metric list \<Rightarrow> agent \<Rightarrow> agent option" where
  "agent_submits now [] a = Some a"
| "agent_submits now (m # ms) a =
     (case agent_SubmitMetric now m a of None \<Rightarrow> None | Some a' \<Rightarrow> agent_submits now ms a')"

text \<open>One event taken from the bus.\<close>

definition agent_pump_event :: "event \<Rightarrow> agent \<Rightarrow> agent option" where
  "agent_pump_event e a = map_option (\<lambda>ui. a\<lparr>ag_ui := ui\<rparr>) (uiBroadcast (KEvent e, False) (ag_ui a))"

subsection \<open>onControl\<close>

definition stop_for :: "(bool \<Rightarrow> ctl) \<Rightarrow> agent \<Rightarrow> agent" where
  "stop_for c a = a\<lparr>ag_engine := eng_cancel (ag_engine a), ag_ctl := c (eg_cancel (ag_engine a))\<rparr>"

text \<open>Up to the first wait.  The result of a diagnostic is an input: its chunks and its last event.\<close>

definition diag_end_event :: "agent \<Rightarrow> diag_request \<Rightarrow> (diag_error \<Rightarrow> string) \<Rightarrow> diag_error option \<Rightarrow> event" where
  "diag_end_event a req etext r =
     (case r of
        Some e \<Rightarrow> (event0 DiagRejected)\<lparr>ev_AgentID := cf_AgentID (ag_cfg a), ev_Detail := dr_Command req,
                    ev_Fields := [(''err'', AStr (etext e))]\<rparr>
      | None \<Rightarrow> (event0 DiagCompleted)\<lparr>ev_AgentID := cf_AgentID (ag_cfg a), ev_Detail := dr_Command req\<rparr>)"

definition runDiag ::
  "bool \<Rightarrow> (diag_error \<Rightarrow> string) \<Rightarrow> process \<Rightarrow> diag_request \<Rightarrow> nat \<Rightarrow> agent \<Rightarrow> diag_job" where
  "runDiag windows etext px req k a =
     (case diag_Run windows etext px req of (cs, r) \<Rightarrow>
        \<lparr>dj_conn = k, dj_chunks = cs, dj_waiting = None, dj_end = diag_end_event a req etext r\<rparr>)"

definition onControl ::
  "bool \<Rightarrow> (diag_error \<Rightarrow> string) \<Rightarrow> process \<Rightarrow> nat \<Rightarrow> envelope \<Rightarrow> agent \<Rightarrow> agent" where
  "onControl windows etext px k env a =
     (if en_Type env = TypeFlowPlan then
        (case DecodePayload dec_flow_plan env of None \<Rightarrow> a
         | Some plan \<Rightarrow> stop_for (\<lambda>w. PlanStop w plan) a)
      else if en_Type env = TypeTestStart then
        (case DecodePayload dec_test_spec env of None \<Rightarrow> a
         | Some spec \<Rightarrow> stop_for (\<lambda>w. StartStop w (ag_flows a) spec) a)
      else if en_Type env = TypeTestStop then stop_for StopStop a
      else if en_Type env = TypeDiagRequest then
        (case DecodePayload dec_diag_request env of None \<Rightarrow> a
         | Some req \<Rightarrow> a\<lparr>ag_diags := ag_diags a @ [runDiag windows etext px req k a]\<rparr>)
      else a)"

text \<open>The end of \<open>Stop\<close>: it returns when every loop has ended.\<close>

definition stop_return :: "bool \<Rightarrow> agent \<Rightarrow> (agent \<times> event list) option" where
  "stop_return w a =
     (if w then map_option (\<lambda>(e, ev). (a\<lparr>ag_engine := e\<rparr>, [ev])) (eng_stopped (ag_engine a))
      else Some (a, []))"

definition routing_event :: "agent \<Rightarrow> flow_plan \<Rightarrow> event" where
  "routing_event a plan = (event0 RoutingUpdated)\<lparr>ev_AgentID := cf_AgentID (ag_cfg a),
     ev_Fields := [(''flows'', AInt (int (length (fp_Flows plan)))),
       (''listenPorts'', AInt (int (length (fp_ListenPorts plan)))), (''epoch'', AU64 (fp_Epoch plan))]\<rparr>"

text \<open>\<open>bindResponder\<close> hands the ports to the responder; \<^const>\<open>None\<close> is its panic.\<close>

definition bindResponder ::
  "(profile \<Rightarrow> string \<Rightarrow> string option) \<Rightarrow> listen_port list \<Rightarrow> agent \<Rightarrow>
   (port_status list \<times> agent \<times> event) option" where
  "bindResponder listen ports a =
     map_option (\<lambda>(sts, r, ev). (sts, a\<lparr>ag_responder := r\<rparr>, ev)) (Serve listen ports (ag_responder a))"

datatype progress = Waits | Panics | Goes agent "event list"

text \<open>A plan after \<open>Stop\<close>: store the flows, bind the ports, report them on connection \<open>k\<close>.\<close>

definition apply_plan ::
  "(profile \<Rightarrow> string \<Rightarrow> string option) \<Rightarrow> bool \<Rightarrow> int \<Rightarrow> nat \<Rightarrow> flow_plan \<Rightarrow> agent \<Rightarrow> progress" where
  "apply_plan listen pick now k plan a =
     (case bindResponder listen (fp_ListenPorts plan) (a\<lparr>ag_flows := fp_Flows plan\<rparr>) of
        None \<Rightarrow> Panics
      | Some (sts, a1, ev) \<Rightarrow>
          (case Send pick now TypePortStatus
                 (Some (enc_port_report \<lparr>pr_AgentID = cf_AgentID (ag_cfg a1), pr_Ports = sts\<rparr>))
                 (cl_peers (ag_client a1) k) of
             (SendBlocked, p) \<Rightarrow>
               Goes (a1\<lparr>ag_client := set_peer k p (ag_client a1),
                        ag_ctl := PlanReport (routing_event a plan) (hd (pe_blocked p))\<rparr>) [ev]
           | (_, p) \<Rightarrow>
               Goes (a1\<lparr>ag_client := set_peer k p (ag_client a1), ag_ctl := Idle\<rparr>)
                 [ev, routing_event a plan]))"

definition ctl_resume ::
  "(profile \<Rightarrow> string \<Rightarrow> string option) \<Rightarrow> bool \<Rightarrow> int \<Rightarrow> nat \<Rightarrow> agent \<Rightarrow> progress" where
  "ctl_resume listen pick now k a =
     (case ag_ctl a of
        Idle \<Rightarrow> Goes a []
      | PlanStop w plan \<Rightarrow>
          (case stop_return w a of None \<Rightarrow> Waits
           | Some (a1, evs) \<Rightarrow>
               (case apply_plan listen pick now k plan a1 of Goes a2 evs2 \<Rightarrow> Goes a2 (evs @ evs2) | r \<Rightarrow> r))
      | PlanReport ev b \<Rightarrow>
          (case retry pick b (cl_peers (ag_client a) k) of (SendBlocked, p) \<Rightarrow> Waits
           | (_, p) \<Rightarrow> Goes (a\<lparr>ag_client := set_peer k p (ag_client a), ag_ctl := Idle\<rparr>) [ev])
      | StartStop w flows spec \<Rightarrow>
          (case stop_return w a of None \<Rightarrow> Waits
           | Some (a1, evs) \<Rightarrow>
               (case eng_launch flows spec (ag_engine a1) of (e, ev) \<Rightarrow>
                  Goes (a1\<lparr>ag_engine := e, ag_ctl := Idle\<rparr>) (evs @ [ev])))
      | StopStop w \<Rightarrow>
          (case stop_return w a of None \<Rightarrow> Waits
           | Some (a1, evs) \<Rightarrow>
               (case bindResponder listen [] a1 of None \<Rightarrow> Panics
                | Some (_, a2, ev) \<Rightarrow> Goes (a2\<lparr>ag_ctl := Idle\<rparr>) (evs @ [ev]))))"

text \<open>A diagnostic goroutine sends its next chunk; a closed connection is logged and ignored.\<close>

definition diag_send :: "bool \<Rightarrow> int \<Rightarrow> diag_job \<Rightarrow> peer \<Rightarrow> diag_job \<times> peer" where
  "diag_send pick now j p =
     (case dj_chunks j of [] \<Rightarrow> (j, p)
      | c # cs \<Rightarrow>
          (case (case dj_waiting j of
                   None \<Rightarrow> Send pick now TypeDiagChunk (Some (enc_diag_chunk c)) p
                 | Some b \<Rightarrow> retry pick b p) of
             (SendBlocked, p') \<Rightarrow>
               (j\<lparr>dj_waiting := Some (case dj_waiting j of None \<Rightarrow> hd (pe_blocked p') | Some b \<Rightarrow> b)\<rparr>, p')
           | (_, p') \<Rightarrow> (j\<lparr>dj_chunks := cs, dj_waiting := None\<rparr>, p')))"

definition diag_step :: "bool \<Rightarrow> int \<Rightarrow> nat \<Rightarrow> agent \<Rightarrow> agent \<times> event list" where
  "diag_step pick now i a =
     (let j = ag_diags a ! i in
      if dj_chunks j = [] then (a\<lparr>ag_diags := take i (ag_diags a) @ drop (Suc i) (ag_diags a)\<rparr>, [dj_end j])
      else case diag_send pick now j (cl_peers (ag_client a) (dj_conn j)) of (j', p) \<Rightarrow>
        (a\<lparr>ag_diags := (ag_diags a)[i := j'], ag_client := set_peer (dj_conn j) p (ag_client a)\<rparr>, []))"

subsection \<open>The local HTTP interface\<close>

text \<open>\<^const>\<open>None\<close> is \<open>errEmptyMaster\<close>.\<close>

definition agent_normaliseMaster :: "string \<Rightarrow> int \<Rightarrow> string option" where
  "agent_normaliseMaster m defaultPort =
     (let master = trim_prefix ''http://'' (trim_prefix ''ws://'' (trim_space m)) in
      if master = '''' then None
      else case split_host_port master of
        Some (host, port) \<Rightarrow> Some (join_host_port host port)
      | None \<Rightarrow> Some (join_host_port master (strconv_itoa defaultPort)))"

definition errEmptyMaster :: string where
  "errEmptyMaster = ''master address is empty''"

definition isLoopback :: "string \<Rightarrow> bool" where
  "isLoopback remoteAddr =
     (let host = (case split_host_port remoteAddr of None \<Rightarrow> remoteAddr | Some (h, _) \<Rightarrow> h) in
      case parse_ip host of None \<Rightarrow> False | Some ip \<Rightarrow> is_loopback_ip ip)"

definition dec_join :: "json \<Rightarrow> string option" where
  "dec_join = dec_struct (\<lambda>ms. fld ms ''master'' dec_string '''') ''''"

definition join_refused_event :: "request \<Rightarrow> agent \<Rightarrow> event" where
  "join_refused_event r a = (event0 AuthRejected)\<lparr>ev_AgentID := cf_AgentID (ag_cfg a),
     ev_Detail := ''join attempt from non-loopback'', ev_Fields := [(''remote'', AStr (rq_remote r))]\<rparr>"

definition join_event :: "string \<Rightarrow> agent \<Rightarrow> event" where
  "join_event addr a = (event0 AgentStarted)\<lparr>ev_AgentID := cf_AgentID (ag_cfg a),
     ev_Detail := ''master set via local UI'', ev_Fields := [(''master'', AStr addr)]\<rparr>"

definition handleJoin :: "request \<Rightarrow> agent \<Rightarrow> response \<times> agent \<times> event list" where
  "handleJoin r a =
     (if rq_method r \<noteq> ''POST'' then (HttpError 405 ''POST required'', a, [])
      else if \<not> isLoopback (rq_remote r) then
        (HttpError 403 ''join is permitted only from localhost'', a, [join_refused_event r a])
      else case Option.bind (rq_body r) dec_join of
        None \<Rightarrow> (HttpError 400 ''bad request'', a, [])
      | Some master \<Rightarrow>
          (case agent_normaliseMaster master (cf_Port (ag_cfg a)) of
             None \<Rightarrow> (HttpError 400 errEmptyMaster, a, [])
           | Some addr \<Rightarrow>
               (Response 202 (JObj [(''master'', JStr addr)]),
                a\<lparr>ag_cfg := (ag_cfg a)\<lparr>cf_MasterAddr := addr\<rparr>, ag_client := SetMaster addr (ag_client a)\<rparr>,
                [join_event addr a])))"

text \<open>The status page.  A map is written with its keys in alphabetical order; the host's name and
  address are inputs.\<close>

definition agent_handleInfo :: "bool \<Rightarrow> string \<Rightarrow> string \<Rightarrow> agent \<Rightarrow> response" where
  "agent_handleInfo windows host addr a =
     (let st = client_Status (ag_client a) in
      Response 200 (JObj
        [(''agentId'', JStr (cf_AgentID (ag_cfg a))), (''connected'', JBool (st_Connected st)),
         (''diagCommands'', enc_list JStr (Allowed windows)), (''flows'', JInt (int (length (ag_flows a)))),
         (''framesRx'', enc_u64 (st_FramesRx st)), (''framesTx'', enc_u64 (st_FramesTx st)),
         (''host'', JStr host), (''hostAddr'', JStr addr), (''joined'', JBool (st_Master st \<noteq> '''')),
         (''master'', JStr (st_Master st)), (''mode'', JStr (mode_String (cf_Mode (ag_cfg a)))),
         (''port'', JInt (cf_Port (ag_cfg a))), (''role'', JStr ''agent''),
         (''spoolLen'', JInt (int (st_SpoolLen st))), (''wsRttUs'', JInt (st_RTTMicros st))]))"

definition agent_handleMetrics :: "string list \<Rightarrow> agent \<Rightarrow> response" where
  "agent_handleMetrics ord a = Response 200 (JArr (map enc_metric (Snapshot ord (ag_store a))))"

text \<open>A browser session; every one is privileged on the node itself.  \<open>urlhost\<close> is \<open>url.Parse\<close>, then
  the field Host.  The upgrade fails on a foreign page and on a request that does not ask for it.\<close>

definition agent_sameOrigin :: "(string \<Rightarrow> string option) \<Rightarrow> (string \<Rightarrow> string \<Rightarrow> bool) \<Rightarrow> request \<Rightarrow> bool" where
  "agent_sameOrigin urlhost uni r \<longleftrightarrow>
     (if rq_origin r = '''' then True
      else case urlhost (rq_origin r) of None \<Rightarrow> False | Some h \<Rightarrow> equal_fold uni h (rq_host r))"

definition agent_serveUI ::
  "(string \<Rightarrow> string option) \<Rightarrow> (string \<Rightarrow> string \<Rightarrow> bool) \<Rightarrow> bool \<Rightarrow> request \<Rightarrow> agent \<Rightarrow> nat option \<times> agent" where
  "agent_serveUI urlhost uni upgrade r a =
     (if \<not> upgrade \<or> \<not> agent_sameOrigin urlhost uni r then (None, a)
      else case uiAdd True (ag_ui a) of (cl, ui) \<Rightarrow> (Some cl, a\<lparr>ag_ui := ui\<rparr>))"

definition agent_closeUI :: "nat \<Rightarrow> agent \<Rightarrow> agent option" where
  "agent_closeUI cl a = map_option (\<lambda>ui. a\<lparr>ag_ui := ui\<rparr>) (uiRemove cl (ag_ui a))"

text \<open>The routes.  The last branch is the file server of the embedded pages.\<close>

datatype agent_route = RouteUI | RouteInfo | RouteMetrics | RouteJoin | RouteAssets

definition agent_routes :: "string \<Rightarrow> agent_route" where
  "agent_routes path =
     (if path = ''/ws/ui'' then RouteUI
      else if path = ''/api/info'' \<or> path = ''/api/status'' then RouteInfo
      else if path = ''/api/metrics'' then RouteMetrics
      else if path = ''/api/join'' then RouteJoin
      else RouteAssets)"

subsection \<open>Histories of an agent\<close>

text \<open>The goroutines of the node; the parts of the client that the model of \<open>Client\<close> drives (its
  loops and connections) may change the client in any way.  Steps of the engine
  that cancel it belong to the handlers; the final \<open>Stop\<close> of a terminating process is left out.\<close>

inductive agent_step :: "agent \<Rightarrow> agent \<Rightarrow> bool" where
  control: "ag_ctl a = Idle \<Longrightarrow> agent_step a (onControl windows etext px k env a)"
| resume: "ctl_resume listen pick now k a = Goes a' evs \<Longrightarrow> agent_step a a'"
| probe: "eng_step (ag_engine a) ms e \<Longrightarrow> eg_cancel e = eg_cancel (ag_engine a) \<Longrightarrow>
    agent_submits now ms (a\<lparr>ag_engine := e\<rparr>) = Some a' \<Longrightarrow> agent_step a a'"
| diag: "i < length (ag_diags a) \<Longrightarrow> diag_step pick now i a = (a', evs) \<Longrightarrow> agent_step a a'"
| join: "handleJoin r a = (resp, a', evs) \<Longrightarrow> agent_step a a'"
| client: "agent_step a (a\<lparr>ag_client := c\<rparr>)"
| event: "agent_pump_event e a = Some a' \<Longrightarrow> agent_step a a'"
| session: "agent_serveUI urlhost uni upgrade r a = (cl, a') \<Longrightarrow> agent_step a a'"
| session_end: "agent_closeUI cl a = Some a' \<Longrightarrow> agent_step a a'"

inductive agent_reach :: "string option \<Rightarrow> config \<Rightarrow> agent \<Rightarrow> bool" for hn cfg where
  start: "agent_reach hn cfg (agent_New hn cfg)"
| step: "agent_reach hn cfg a \<Longrightarrow> agent_step a a' \<Longrightarrow> agent_reach hn cfg a'"

inductive_cases agent_stepE: "agent_step a a'"

subsection \<open>The invariant of an agent\<close>

definition ctl_ok :: "agent \<Rightarrow> bool" where
  "ctl_ok a \<longleftrightarrow>
     (let e = ag_engine a; waiting = (\<lambda>w. \<not> eg_cancel e \<and> (if w then eg_cancelled e else eg_loops e = [])) in
      case ag_ctl a of
        Idle \<Rightarrow> eg_cancel e \<or> eg_loops e = []
      | PlanReport _ _ \<Rightarrow> \<not> eg_cancel e \<and> eg_loops e = []
      | PlanStop w _ \<Rightarrow> waiting w
      | StartStop w flows _ \<Rightarrow> waiting w \<and> flows = ag_flows a
      | StopStop w \<Rightarrow> waiting w)"

definition agent_ok :: "agent \<Rightarrow> bool" where
  "agent_ok a \<longleftrightarrow> ui_ok (ag_ui a) \<and> ctl_ok a \<and>
     (eg_loops (ag_engine a) = [] \<or>
      map pl_flow (eg_loops (ag_engine a)) = filter has_prober (ag_flows a))"

lemma agent_ok_new: "agent_ok (agent_New hn cfg)"
  by (simp add: agent_ok_def agent_New_def ui_ok_new ctl_ok_def NewEngine_def Let_def)

lemma uiBroadcast_some: "ui_ok h \<Longrightarrow> \<exists>h'. uiBroadcast mb h = Some h' \<and> ui_ok h'"
  using ui_fanout.publish_some [of h mb] ui_fanout.publish_ok [of h mb] by blast

text \<open>Only the user interface, the store and the client are touched by a submission.\<close>

lemma agent_submits_ok:
  "ui_ok (ag_ui a) \<Longrightarrow> \<exists>a'. agent_submits now ms a = Some a' \<and> ui_ok (ag_ui a') \<and>
     ag_engine a' = ag_engine a \<and> ag_ctl a' = ag_ctl a \<and> ag_flows a' = ag_flows a \<and>
     ag_cfg a' = ag_cfg a \<and> ag_responder a' = ag_responder a \<and> ag_diags a' = ag_diags a"
proof (induction ms arbitrary: a)
  case (Cons m ms)
  obtain a1 where a1: "agent_SubmitMetric now m a = Some a1" "ui_ok (ag_ui a1)"
    "ag_engine a1 = ag_engine a" "ag_ctl a1 = ag_ctl a" "ag_flows a1 = ag_flows a" "ag_cfg a1 = ag_cfg a"
    "ag_responder a1 = ag_responder a" "ag_diags a1 = ag_diags a"
    using uiBroadcast_some [OF Cons.prems, of "(KTelemetry [local_copy now a m] False, False)"]
    by (auto simp: agent_SubmitMetric_def Let_def)
  with Cons.IH [of a1] show ?case by auto
qed simp

lemma stop_return_engine:
  "stop_return w a = Some (a', evs) \<Longrightarrow> ctl_ok a \<Longrightarrow> ag_ctl a \<in> {PlanStop w p, StartStop w fl sp, StopStop w} \<Longrightarrow>
   eg_loops (ag_engine a') = [] \<and> \<not> eg_cancel (ag_engine a') \<and> ag_ui a' = ag_ui a \<and>
   ag_flows a' = ag_flows a \<and> ag_client a' = ag_client a \<and> ag_responder a' = ag_responder a \<and>
   ag_cfg a' = ag_cfg a"
  by (auto simp: stop_return_def eng_stopped_def ctl_ok_def Let_def split: if_splits)

lemma apply_plan_effect:
  assumes "apply_plan listen pick now k plan a = Goes a' evs"
  shows "ag_engine a' = ag_engine a \<and> ag_ui a' = ag_ui a \<and> ag_flows a' = fp_Flows plan \<and>
     (ag_ctl a' = Idle \<or> (\<exists>ev b. ag_ctl a' = PlanReport ev b))"
  using assms by (auto simp: apply_plan_def bindResponder_def split: option.splits prod.splits send_result.splits)

lemma apply_plan_goes:
  assumes "length (pe_send (cl_peers (ag_client a) k)) < sendBuffer"
    and "Serve listen (fp_ListenPorts plan) (ag_responder a) \<noteq> None"
  shows "\<exists>a' evs. apply_plan listen pick now k plan a = Goes a' evs \<and> ag_ctl a' = Idle"
proof -
  obtain sts r ev where s: "Serve listen (fp_ListenPorts plan) (ag_responder a) = Some (sts, r, ev)"
    using assms(2) by auto
  let ?v = "Some (enc_port_report \<lparr>pr_AgentID = cf_AgentID (ag_cfg a), pr_Ports = sts\<rparr>)"
  obtain res p where send: "Send pick now TypePortStatus ?v (cl_peers (ag_client a) k) = (res, p)"
    by (cases "Send pick now TypePortStatus ?v (cl_peers (ag_client a) k)")
  have "res \<noteq> SendBlocked"
    using send assms(1) by (auto simp: Send_def stamp_def enqueue_def Let_def split: if_splits)
  with s send show ?thesis
    by (cases res) (simp_all add: apply_plan_def bindResponder_def)
qed

lemma bindResponder_effect:
  "bindResponder listen ports a = Some (sts, a', ev) \<Longrightarrow>
   \<exists>r. Serve listen ports (ag_responder a) = Some (sts, r, ev) \<and> a' = a\<lparr>ag_responder := r\<rparr>"
  by (auto simp: bindResponder_def)

lemma agent_ok_same:
  "agent_ok a \<Longrightarrow> ag_ui a' = ag_ui a \<Longrightarrow> ag_engine a' = ag_engine a \<Longrightarrow> ag_ctl a' = ag_ctl a \<Longrightarrow>
   ag_flows a' = ag_flows a \<Longrightarrow> agent_ok a'"
  by (simp only: agent_ok_def ctl_ok_def)

lemma agent_ok_ui:
  "agent_ok a \<Longrightarrow> ui_ok (ag_ui a') \<Longrightarrow> ag_engine a' = ag_engine a \<Longrightarrow> ag_ctl a' = ag_ctl a \<Longrightarrow>
   ag_flows a' = ag_flows a \<Longrightarrow> agent_ok a'"
  by (simp only: agent_ok_def ctl_ok_def)

lemma stop_for_ok:
  assumes "agent_ok a" and "ag_ctl a = Idle"
  shows "agent_ok (stop_for (\<lambda>w. PlanStop w p) a)" "agent_ok (stop_for StopStop a)"
    "agent_ok (stop_for (\<lambda>w. StartStop w (ag_flows a) sp) a)"
  using assms by (auto simp: agent_ok_def stop_for_def ctl_ok_def eng_cancel_def Let_def)

lemma agent_ok_control:
  assumes "agent_ok a" and "ag_ctl a = Idle"
  shows "agent_ok (onControl windows etext px k env a)"
proof -
  have "agent_ok (a\<lparr>ag_diags := ds\<rparr>)" for ds
    by (rule agent_ok_same [OF assms(1)]) simp_all
  with assms stop_for_ok [OF assms] show ?thesis
    unfolding onControl_def by (simp split: if_split option.split)
qed

lemma agent_ok_resume:
  assumes ok: "agent_ok a" and go: "ctl_resume listen pick now k a = Goes a' evs"
  shows "agent_ok a'"
proof (cases "ag_ctl a")
  case Idle
  with go ok show ?thesis by (simp add: ctl_resume_def)
next
  case (PlanStop w plan)
  with go obtain a1 e1 e2 where 1: "stop_return w a = Some (a1, e1)" "apply_plan listen pick now k plan a1 = Goes a' e2"
    by (auto simp: ctl_resume_def split: option.splits progress.splits)
  with ok PlanStop stop_return_engine [OF 1(1)] apply_plan_effect [OF 1(2)] show ?thesis
    by (auto simp: agent_ok_def ctl_ok_def)
next
  case (PlanReport ev b)
  with go ok show ?thesis
    by (auto simp: ctl_resume_def agent_ok_def ctl_ok_def Let_def split: prod.splits send_result.splits)
next
  case (StartStop w fl spec)
  with go obtain a1 e1 e ev where 1: "stop_return w a = Some (a1, e1)"
    "eng_launch fl spec (ag_engine a1) = (e, ev)" "a' = a1\<lparr>ag_engine := e, ag_ctl := Idle\<rparr>"
    by (auto simp: ctl_resume_def split: option.splits prod.splits)
  with ok StartStop stop_return_engine [OF 1(1)] show ?thesis
    by (auto simp: agent_ok_def ctl_ok_def eng_launch_def o_def Let_def)
next
  case (StopStop w)
  with go obtain a1 e1 sts a2 ev where 1: "stop_return w a = Some (a1, e1)"
    "bindResponder listen [] a1 = Some (sts, a2, ev)" "a' = a2\<lparr>ag_ctl := Idle\<rparr>"
    by (auto simp: ctl_resume_def split: option.splits prod.splits)
  with ok StopStop stop_return_engine [OF 1(1)] bindResponder_effect [OF 1(2)] show ?thesis
    by (auto simp: agent_ok_def ctl_ok_def)
qed

lemma eng_step_ctl_ok:
  assumes "ctl_ok a" and "eng_step (ag_engine a) ms e" and "eg_cancel e = eg_cancel (ag_engine a)"
  shows "ctl_ok (a\<lparr>ag_engine := e\<rparr>)"
proof -
  have "eg_loops e = [] \<longleftrightarrow> eg_loops (ag_engine a) = []"
    using eng_step_flows [OF assms(2)] by (metis map_is_Nil_conv)
  with assms eng_step_cancelled [OF assms(2)] show ?thesis
    by (auto simp: ctl_ok_def Let_def split: ctl.splits if_splits)
qed

lemma agent_ok_step: "agent_step a a' \<Longrightarrow> agent_ok a \<Longrightarrow> agent_ok a'"
proof (induction rule: agent_step.induct)
  case (control a windows etext px k env)
  then show ?case by (blast intro: agent_ok_control)
next
  case (resume listen pick now k a a' evs)
  then show ?case by (blast intro: agent_ok_resume)
next
  case (probe a ms e now a')
  have c: "ctl_ok (a\<lparr>ag_engine := e\<rparr>)"
    using probe by (auto simp: agent_ok_def intro: eng_step_ctl_ok)
  have l: "eg_loops e = [] \<or> map pl_flow (eg_loops e) = filter has_prober (ag_flows a)"
    using probe eng_step_flows [OF probe.hyps(1)] by (auto simp: agent_ok_def)
  with c probe.prems have "agent_ok (a\<lparr>ag_engine := e\<rparr>)"
    by (simp add: agent_ok_def)
  with probe.hyps agent_submits_ok [of "a\<lparr>ag_engine := e\<rparr>" now ms] probe.prems show ?case
    by (auto simp: agent_ok_def [of a] intro: agent_ok_ui)
next
  case (diag i a pick now a' evs)
  show ?case
    by (rule agent_ok_same [OF diag.prems])
      (use diag.hyps in \<open>auto simp: diag_step_def Let_def split: if_splits prod.splits\<close>)
next
  case (join r a resp a' evs)
  show ?case
    by (rule agent_ok_same [OF join.prems])
      (use join.hyps in \<open>auto simp: handleJoin_def split: if_splits option.splits\<close>)
next
  case (client a c)
  show ?case by (rule agent_ok_same [OF client.prems]) simp_all
next
  case (event e a a')
  obtain ui where "a' = a\<lparr>ag_ui := ui\<rparr>" "ui_ok ui"
    using event uiBroadcast_some [of "ag_ui a" "(KEvent e, False)"]
    by (auto simp: agent_pump_event_def agent_ok_def [of a])
  with event.prems show ?case by (auto intro: agent_ok_ui)
next
  case (session urlhost uni upgrade r a cl a')
  then have "ui_ok (snd (uiAdd True (ag_ui a)))"
    by (auto simp: agent_ok_def intro: ui_ok_add)
  with session show ?case
    by (auto simp: agent_serveUI_def intro!: agent_ok_ui [OF session.prems] split: prod.splits if_splits)
next
  case (session_end cl a a')
  obtain ui where "a' = a\<lparr>ag_ui := ui\<rparr>" "ui_ok ui"
    using session_end ui_ok_remove [of "ag_ui a" cl]
    by (auto simp: agent_closeUI_def agent_ok_def [of a])
  with session_end.prems show ?case by (auto intro: agent_ok_ui)
qed

lemma agent_reach_ok: "agent_reach hn cfg a \<Longrightarrow> agent_ok a"
  by (induction rule: agent_reach.induct) (auto intro: agent_ok_new agent_ok_step)

lemma probes_current_plan_parts:
  assumes "agent_reach hn cfg a" and "eng_step (ag_engine a) ms e"
  shows "\<forall>m \<in> set ms. \<exists>f \<in> set (ag_flows a). has_prober f \<and> m_FlowID m = af_ID f \<and>
      m_PeerID m = af_DstAgent f \<and> m_Profile m = af_Protocol f"
    and "\<exists>a'. agent_submits now ms (a\<lparr>ag_engine := e\<rparr>) = Some a'"
proof -
  have ok: "agent_ok a" by (rule agent_reach_ok [OF assms(1)])
  have "pl_flow l \<in> set (filter has_prober (ag_flows a))" if "l \<in> set (eg_loops (ag_engine a))" for l
  proof -
    have "map pl_flow (eg_loops (ag_engine a)) = filter has_prober (ag_flows a)"
      using ok that by (auto simp: agent_ok_def)
    with that show ?thesis by (metis image_eqI list.set_map)
  qed
  with eng_step_labels [OF assms(2)] show "\<forall>m \<in> set ms. \<exists>f \<in> set (ag_flows a). has_prober f \<and>
      m_FlowID m = af_ID f \<and> m_PeerID m = af_DstAgent f \<and> m_Profile m = af_Protocol f"
    by fastforce
  show "\<exists>a'. agent_submits now ms (a\<lparr>ag_engine := e\<rparr>) = Some a'"
    using ok agent_submits_ok [of "a\<lparr>ag_engine := e\<rparr>" now ms] by (auto simp: agent_ok_def)
qed

text \<open>
  C16: A node measures its current plan only.  In every reachable state, whatever
  frames, joins, browser sessions and probe rounds came before, each live probe loop serves a
  flow of the plan the controller sent last, and whatever the engine submits next carries
  the flow ID, destination and protocol of such a flow: no measurement of an outdated plan leaves
  the node, and no user-interface channel is in a state in which a broadcast would panic.
\<close>

theorem probes_current_plan:
  assumes "agent_reach hn cfg a" and "eng_step (ag_engine a) ms e"
  shows "(\<forall>m \<in> set ms. \<exists>f \<in> set (ag_flows a). has_prober f \<and> m_FlowID m = af_ID f \<and>
      m_PeerID m = af_DstAgent f \<and> m_Profile m = af_Protocol f) \<and>
     (\<exists>a'. agent_submits now ms (a\<lparr>ag_engine := e\<rparr>) = Some a')"
  by (intro conjI probes_current_plan_parts [OF assms])

definition demo_cfg :: config where
  "demo_cfg = \<lparr>cf_Mode = ModeAgentHolding, cf_Port = 5999, cf_MasterAddr = '''', cf_AuthEnabled = False,
     cf_AdminUser = '''', cf_AdminPass = '''', cf_AgentID = ''a'', cf_Token = '''', cf_DataPort = 6000\<rparr>"

text \<open>An agent that was sent a plan with one flow and then started.\<close>

definition demo_plan :: flow_plan where
  "demo_plan = \<lparr>fp_Epoch = 1, fp_ListenPorts = [], fp_Flows = [demo_flow]\<rparr>"

definition plan_frame :: "flow_plan \<Rightarrow> envelope" where
  "plan_frame p = NewEnvelope TypeFlowPlan '''' 1 0 (Some (enc_flow_plan p))"

definition start_frame :: "test_spec \<Rightarrow> envelope" where
  "start_frame s = NewEnvelope TypeTestStart '''' 2 0 (Some (enc_test_spec s))"

abbreviation no_process :: process where
  "no_process \<equiv> \<lparr>px_pipe_err = None, px_start_err = None, px_stdout = '''', px_stderr = '''', px_sched = [],
     px_wait = WaitOk, px_deadline = False\<rparr>"

lemma demo_agent_running:
  "\<exists>a. agent_reach None demo_cfg a \<and> ag_flows a = [demo_flow] \<and>
     ag_ctl a = Idle \<and> eg_cancel (ag_engine a) \<and>
     eg_loops (ag_engine a) = [\<lparr>pl_flow = demo_flow, pl_sent = 0, pl_phase = Probing\<rparr>]"
proof -
  let ?a0 = "agent_New None demo_cfg"
  let ?on = "\<lambda>env a. onControl False (\<lambda>_. '''') no_process 0 env a"
  let ?go = "\<lambda>a. ctl_resume (\<lambda>_ _. None) False 0 0 a"
  have d1: "DecodePayload dec_flow_plan (plan_frame demo_plan) = Some demo_plan"
    unfolding plan_frame_def
    by (rule flow_plan_wire.open_new) (simp add: flow_plan_ok_def demo_plan_def demo_flow_def
        agent_flow_ok_def zero_agent_flow_def int64_range_def)
  have d2: "DecodePayload dec_test_spec (start_frame zero_test_spec) = Some zero_test_spec"
    unfolding start_frame_def
    by (rule test_spec_wire.open_new) (simp add: test_spec_ok_def zero_test_spec_def int64_range_def)
  let ?a1 = "?on (plan_frame demo_plan) ?a0"
  have c1: "ag_ctl ?a1 = PlanStop False demo_plan" "ag_engine ?a1 = NewEngine ''a''"
    using d1 by (simp_all add: onControl_def plan_frame_def stop_for_def agent_New_def NewEngine_def
        eng_cancel_def demo_cfg_def)
  have p: "cl_peers (ag_client ?a1) 0 = NewPeer ''a''" "ag_responder ?a1 = NewResponder"
    using d1 by (simp_all add: onControl_def plan_frame_def stop_for_def agent_New_def NewClient_def demo_cfg_def)
  have "\<exists>a2 evs. apply_plan (\<lambda>_ _. None) False 0 0 demo_plan ?a1 = Goes a2 evs \<and> ag_ctl a2 = Idle"
    using p by (intro apply_plan_goes) (simp_all only: p, simp_all add: NewPeer_def sendBuffer_def Serve_def demo_plan_def)
  then obtain a2 evs where a: "apply_plan (\<lambda>_ _. None) False 0 0 demo_plan ?a1 = Goes a2 evs" "ag_ctl a2 = Idle"
    by blast
  then have a2: "?go ?a1 = Goes a2 evs" "ag_flows a2 = [demo_flow]" "ag_engine a2 = NewEngine ''a''"
    "ag_ctl a2 = Idle"
    using apply_plan_effect [OF a(1)] c1
    by (simp_all add: ctl_resume_def stop_return_def demo_plan_def)
  let ?a3 = "?on (start_frame zero_test_spec) a2"
  have t: "TypeTestStart \<noteq> TypeFlowPlan" by (simp add: message_type_defs)
  have c3: "?a3 = a2\<lparr>ag_ctl := StartStop False [demo_flow] zero_test_spec\<rparr>"
    using a2 d2 t by (simp add: onControl_def start_frame_def stop_for_def NewEngine_def eng_cancel_def)
  have "?go ?a3 = Goes (?a3\<lparr>ag_engine := fst (eng_launch [demo_flow] zero_test_spec (NewEngine ''a'')), ag_ctl := Idle\<rparr>)
      [snd (eng_launch [demo_flow] zero_test_spec (NewEngine ''a''))]"
    by (simp add: ctl_resume_def stop_return_def c3 a2 eng_launch_def)
  moreover have "agent_reach None demo_cfg ?a3"
  proof -
    have "ag_ctl (agent_New None demo_cfg) = Idle" by (simp add: agent_New_def)
    from agent_reach.step [OF agent_reach.start agent_step.control [OF this]]
    have "agent_reach None demo_cfg ?a1" .
    from agent_reach.step [OF this agent_step.resume [OF a2(1)]]
    have "agent_reach None demo_cfg a2" .
    from agent_reach.step [OF this agent_step.control [OF a2(4)]] show ?thesis .
  qed
  ultimately have "agent_reach None demo_cfg (?a3\<lparr>ag_engine :=
      fst (eng_launch [demo_flow] zero_test_spec (NewEngine ''a'')), ag_ctl := Idle\<rparr>)"
    by (blast intro: agent_reach.step agent_step.resume)
  then show ?thesis
    by (intro exI conjI) (auto simp: c3 a2 eng_launch_def has_prober_def demo_flow_def)
qed

theorem probes_current_plan_witness:
  "\<exists>a m e. agent_reach None demo_cfg a \<and> eng_step (ag_engine a) [m] e \<and> m_FlowID m = ''f1''"
proof -
  obtain a where a: "agent_reach None demo_cfg a" "ag_flows a = [demo_flow]"
    "eg_loops (ag_engine a) = [\<lparr>pl_flow = demo_flow, pl_sent = 0, pl_phase = Probing\<rparr>]"
    using demo_agent_running by blast
  obtain l m where l: "loop_probe (eg_spec (ag_engine a)) zero_metric (eg_loops (ag_engine a) ! 0) = (l, m)"
    by (cases "loop_probe (eg_spec (ag_engine a)) zero_metric (eg_loops (ag_engine a) ! 0)")
  have s: "eng_step (ag_engine a) [m] ((ag_engine a)\<lparr>eg_loops := (eg_loops (ag_engine a))[0 := l]\<rparr>)"
    by (rule eng_step.probe [OF _ _ l]) (simp_all add: a)
  from probes_current_plan [OF a(1) s] a(2) have "m_FlowID m = ''f1''"
    by (simp add: demo_flow_def)
  with a(1) s show ?thesis by blast
qed

subsection \<open>Plans, stops and the wait for the probes\<close>

text \<open>A plan, once the engine has stopped, on a connection with room in its queue.\<close>

lemma plan_handled:
  assumes "agent_ok a" and "ag_ctl a = PlanStop w plan" and "w \<longrightarrow> all_ended (ag_engine a)"
    and "\<not> pe_done (cl_peers (ag_client a) k)"
    and "length (pe_send (cl_peers (ag_client a) k)) < sendBuffer"
    and "Serve listen (fp_ListenPorts plan) (ag_responder a) = Some (sts, r, ev)"
  shows "\<exists>a' evs. ctl_resume listen pick now k a = Goes a' evs \<and> ag_ctl a' = Idle \<and>
     ag_flows a' = fp_Flows plan \<and> eg_loops (ag_engine a') = [] \<and> ag_responder a' = r \<and>
     map frame_content (pe_send (cl_peers (ag_client a') k)) =
       map frame_content (pe_send (cl_peers (ag_client a) k)) @
       [(TypePortStatus, Some (enc_port_report \<lparr>pr_AgentID = cf_AgentID (ag_cfg a), pr_Ports = sts\<rparr>))]"
proof -
  obtain a1 e1 where s: "stop_return w a = Some (a1, e1)" and [simp]: "ag_client a1 = ag_client a"
    "ag_responder a1 = ag_responder a" "ag_cfg a1 = ag_cfg a" "eg_loops (ag_engine a1) = []"
    using assms(1-3) by (cases w) (auto simp: stop_return_def eng_stopped_def agent_ok_def ctl_ok_def Let_def)
  obtain p where p: "Send pick now TypePortStatus
      (Some (enc_port_report \<lparr>pr_AgentID = cf_AgentID (ag_cfg a), pr_Ports = sts\<rparr>))
      (cl_peers (ag_client a) k) = (SendOk, p)"
    using Send_room [OF assms(4,5)] by blast
  with Send_effect [OF p] s assms(2,6) show ?thesis
    by (simp add: ctl_resume_def apply_plan_def bindResponder_def)
qed

lemma stop_handled:
  assumes "agent_ok a" and "ag_ctl a = StopStop w" and "ctl_resume listen pick now k a = Goes a' evs"
  shows "rp_cur (ag_responder a') = [] \<and> eg_loops (ag_engine a') = [] \<and> ag_ctl a' = Idle"
proof -
  obtain a1 e1 sts a2 ev where 1: "stop_return w a = Some (a1, e1)"
    "bindResponder listen [] a1 = Some (sts, a2, ev)" "a' = a2\<lparr>ag_ctl := Idle\<rparr>"
    using assms(2,3) by (auto simp: ctl_resume_def split: option.splits prod.splits)
  with assms(1,2) stop_return_engine [OF 1(1)] bindResponder_effect [OF 1(2)] show ?thesis
    by (auto simp: agent_ok_def Serve_def)
qed

text \<open>
  C19: A stopped node is silent.  When a reachable agent has finished handling TEST\_STOP, no
  data-plane port is open any more and no probe loop exists, and the engine cannot submit a
  metric by any step until the next start.
\<close>

theorem stop_silences:
  assumes "agent_reach hn cfg a" and "ag_ctl a = StopStop w"
    and "ctl_resume listen pick now k a = Goes a' evs"
  shows "rp_cur (ag_responder a') = [] \<and> eg_loops (ag_engine a') = [] \<and>
     (\<forall>ms e. eng_step (ag_engine a') ms e \<longrightarrow> ms = [] \<and> eg_loops e = [])"
proof -
  have s: "rp_cur (ag_responder a') = []" "eg_loops (ag_engine a') = []"
    using stop_handled [OF agent_reach_ok [OF assms(1)] assms(2,3)] by simp_all
  have "ms = [] \<and> eg_loops e = []" if "eng_step (ag_engine a') ms e" for ms e
    using that s(2) by (cases rule: eng_step.cases) (auto simp: eng_cancel_def)
  with s show ?thesis by blast
qed

theorem stop_silences_witness:
  "\<exists>a a' evs. agent_reach None demo_cfg a \<and> ctl_resume (\<lambda>_ _. None) False 0 0 a = Goes a' evs \<and>
     rp_cur (ag_responder a') = []"
proof -
  let ?a = "onControl False (\<lambda>_. '''') no_process 0 (NewEnvelope TypeTestStop '''' 1 0 None) (agent_New None demo_cfg)"
  have c: "ag_ctl ?a = StopStop False"
    by (simp add: onControl_def message_type_defs stop_for_def agent_New_def NewEngine_def)
  have "ag_ctl (agent_New None demo_cfg) = Idle"
    by (simp add: agent_New_def)
  from agent_reach.step [OF agent_reach.start agent_step.control [OF this]]
  have r: "agent_reach None demo_cfg ?a" .
  obtain a' evs where g: "ctl_resume (\<lambda>_ _. None) False 0 0 ?a = Goes a' evs"
    using c by (auto simp: ctl_resume_def stop_return_def bindResponder_def Serve_def)
  from stop_silences [OF r c g] r g show ?thesis by blast
qed

definition stopping :: "agent \<Rightarrow> bool" where
  "stopping a \<longleftrightarrow> (\<exists>p fl sp. ag_ctl a \<in> {PlanStop True p, StartStop True fl sp, StopStop True})"

lemma ctl_resume_waits:
  "stopping a \<Longrightarrow> all_ended (ag_engine a) \<Longrightarrow> ctl_resume listen pick now k a \<noteq> Waits"
  by (auto simp: stopping_def ctl_resume_def stop_return_def eng_stopped_def apply_plan_def
      split: option.splits prod.splits progress.splits send_result.splits)

lemma drain_steps:
  assumes "agent_ok a" and "stopping a"
  shows "\<exists>n a'. n \<le> stop_work (ag_engine a) \<and> (agent_step ^^ n) a a' \<and> ag_ctl a' = ag_ctl a \<and>
     all_ended (ag_engine a')"
  using assms
proof (induction "stop_work (ag_engine a)" arbitrary: a rule: less_induct)
  case less
  show ?case
  proof (cases "all_ended (ag_engine a)")
    case True
    then show ?thesis by (intro exI [of _ 0] exI [of _ a]) simp
  next
    case False
    have "eg_cancelled (ag_engine a)"
      using less.prems by (auto simp: agent_ok_def ctl_ok_def stopping_def Let_def)
    then obtain ms e where e: "eng_step (ag_engine a) ms e" "stop_work e < stop_work (ag_engine a)"
      "eg_cancel e = eg_cancel (ag_engine a)"
      using eng_drain_step [OF _ False] by blast
    obtain a1 where a1: "agent_submits 0 ms (a\<lparr>ag_engine := e\<rparr>) = Some a1" "ag_engine a1 = e" "ag_ctl a1 = ag_ctl a"
      using agent_submits_ok [of "a\<lparr>ag_engine := e\<rparr>" 0 ms] less.prems(1) by (auto simp: agent_ok_def)
    have st: "agent_step a a1"
      by (rule agent_step.probe [OF e(1) e(3) a1(1)])
    have "agent_ok a1" "stopping a1"
      using agent_ok_step [OF st less.prems(1)] less.prems(2) a1(3) by (simp_all add: stopping_def)
    with less.hyps [of a1] e(2) a1 obtain n a' where n: "n \<le> stop_work e" "(agent_step ^^ n) a1 a'"
      "ag_ctl a' = ag_ctl a" "all_ended (ag_engine a')"
      by auto
    then have "(agent_step ^^ Suc n) a a'"
      using st by (metis relpowp_Suc_I2)
    with n e(2) show ?thesis
      by (intro exI [of _ "Suc n"] exI [of _ a']) simp
  qed
qed

text \<open>
  C20: Waiting for the probes never hangs a node.  A handler of a reachable agent that waits in Stop
  (for a new plan, a new start or a stop) can always go on after at most two more steps per probe
  loop: every loop finishes the probe it is in and then sees the cancelled context.
\<close>

theorem stop_wait_ends:
  assumes "agent_reach hn cfg a" and "stopping a"
  shows "\<exists>n a'. n \<le> 2 * length (eg_loops (ag_engine a)) \<and> (agent_step ^^ n) a a' \<and>
     ag_ctl a' = ag_ctl a \<and> ctl_resume listen pick now k a' \<noteq> Waits"
proof -
  obtain n a' where n: "n \<le> stop_work (ag_engine a)" "(agent_step ^^ n) a a'" "ag_ctl a' = ag_ctl a"
    "all_ended (ag_engine a')"
    using drain_steps [OF agent_reach_ok [OF assms(1)] assms(2)] by blast
  then have "ctl_resume listen pick now k a' \<noteq> Waits"
    using assms(2) by (intro ctl_resume_waits) (simp_all add: stopping_def)
  with n stop_work_bound [of "ag_engine a"] show ?thesis
    by (meson order_trans)
qed


theorem stop_wait_ends_witness:
  "\<exists>a n a'. stopping a \<and> n \<le> 2 \<and> (agent_step ^^ n) a a' \<and>
     ctl_resume (\<lambda>_ _. None) False 0 0 a' \<noteq> Waits"
proof -
  obtain a where a: "agent_reach None demo_cfg a" "ag_ctl a = Idle" "eg_cancel (ag_engine a)"
    "eg_loops (ag_engine a) = [\<lparr>pl_flow = demo_flow, pl_sent = 0, pl_phase = Probing\<rparr>]"
    using demo_agent_running by blast
  let ?s = "onControl False (\<lambda>_. '''') no_process 0 (NewEnvelope TypeTestStop '''' 1 0 None) a"
  have r: "agent_reach None demo_cfg ?s"
    by (rule agent_reach.step [OF a(1) agent_step.control [OF a(2)]])
  have s: "stopping ?s" "length (eg_loops (ag_engine ?s)) = 1"
    using a(3,4) by (simp_all add: stopping_def onControl_def message_type_defs stop_for_def eng_cancel_def)
  from stop_wait_ends [OF r s(1), of "\<lambda>_ _. None" False 0 0] s show ?thesis
    by auto
qed

subsection \<open>Joining\<close>

text \<open>The address of an IPv4 peer as the HTTP server gives it.\<close>

definition ipv4_remote :: "nat \<times> nat \<times> nat \<times> nat \<Rightarrow> int \<Rightarrow> string" where
  "ipv4_remote ip port = (case ip of (a, b, c, d) \<Rightarrow> join_host_port (ipv4_text a b c d) (strconv_itoa port))"

lemma isLoopback_ipv4:
  assumes "a < 256" "b < 256" "c < 256" "d < 256"
  shows "isLoopback (ipv4_remote (a, b, c, d) port) \<longleftrightarrow> a = 127"
proof -
  have "plain_host (ipv4_text a b c d)"
    by (auto simp: plain_host_def is_digit_def dest: ipv4_text_chars)
  then have "split_host_port (ipv4_remote (a, b, c, d) port) = Some (ipv4_text a b c d, strconv_itoa port)"
    by (simp add: ipv4_remote_def split_join_host_port plain_port_itoa)
  then show ?thesis
    using parse_ip_text [OF assms] by (simp add: isLoopback_def is_loopback_ip_def nth_append)
qed

text \<open>
  Only the node itself can repoint it.  A join request from an IPv4 peer leaves the agent
  exactly as it was unless the peer's address is in 127.0.0.0/8 and the method is POST; such
  a request with a master that normalises sets the configured address and the client's
  address to it, and the current connection, if any, is closed so that the client redials.
\<close>

theorem join_needs_loopback:
  assumes "a < 256" "b < 256" "c < 256" "d < 256" and "rq_remote r = ipv4_remote (a, b, c, d) port"
  shows "case handleJoin r ag of (resp, ag', evs) \<Rightarrow>
     (a \<noteq> 127 \<or> rq_method r \<noteq> ''POST'' \<longrightarrow> ag' = ag \<and> rs_status resp \<ge> 400) \<and>
     (\<forall>m addr. a = 127 \<and> rq_method r = ''POST'' \<and> rq_body r = Some (JObj [(''master'', JStr m)]) \<and>
        agent_normaliseMaster m (cf_Port (ag_cfg ag)) = Some addr \<longrightarrow>
        rs_status resp = 202 \<and> cf_MasterAddr (ag_cfg ag') = addr \<and> cl_masterAddr (ag_client ag') = addr \<and>
        (\<forall>k. cl_peer (ag_client ag) = Some k \<longrightarrow> pe_done (cl_peers (ag_client ag') k)))"
proof (cases "a = 127 \<and> rq_method r = ''POST''")
  case False
  then show ?thesis
    using isLoopback_ipv4 [OF assms(1-4), of port] assms(5) by (auto simp: handleJoin_def)
next
  case True
  have "dec_join (JObj [(''master'', JStr m)]) = Some m" for m
    by (simp add: dec_join_def fld_def fold_name_def)
  with True show ?thesis
    using isLoopback_ipv4 [OF assms(1-4), of port] assms(5)
    by (auto simp: handleJoin_def SetMaster_def Let_def peer_Close_def split: option.splits)
qed

theorem join_needs_loopback_witness:
  "case handleJoin \<lparr>rq_method = ''POST'', rq_path = ''/api/join'', rq_remote = ipv4_remote (10, 0, 0, 7) 4000,
       rq_host = '''', rq_origin = '''',
       rq_auth = None, rq_token = '''', rq_body = Some (JObj [(''master'', JStr ''10.0.0.9'')]),
       rq_empty = False, rq_err = ''''\<rparr> (agent_New None demo_cfg) of
     (resp, ag', evs) \<Rightarrow> ag' = agent_New None demo_cfg \<and> rs_status resp \<ge> 400"
  using join_needs_loopback [of 10 0 0 7 "\<lparr>rq_method = ''POST'', rq_path = ''/api/join'',
       rq_remote = ipv4_remote (10, 0, 0, 7) 4000,
       rq_host = '''', rq_origin = '''', rq_auth = None, rq_token = '''',
       rq_body = Some (JObj [(''master'', JStr ''10.0.0.9'')]), rq_empty = False, rq_err = ''''\<rparr>" 4000
       "agent_New None demo_cfg"]
  by (auto split: prod.splits)

text \<open>
  The agent's normaliseMaster mirrors the one of the configuration on every address the
  latter accepts; it differs exactly on an address with a port and no host, such as \<open>:7000\<close>,
  which the configuration rejects and the agent takes (and then dials the empty host).
\<close>

theorem normalise_mirrors_config:
  "agent_normaliseMaster m d =
   (case normaliseMaster m d of
      Inr addr \<Rightarrow> Some addr
    | Inl EmptyMaster \<Rightarrow> None
    | Inl _ \<Rightarrow> map_option (\<lambda>(h, p). '':'' @ p) (split_host_port (strip_schemes m))) \<and>
   ((agent_normaliseMaster m d \<noteq> (case normaliseMaster m d of Inr addr \<Rightarrow> Some addr | Inl _ \<Rightarrow> None)) =
    (\<exists>p. split_host_port (strip_schemes m) = Some ('''', p)))"
proof -
  have "split_host_port '''' = None"
    by (simp add: split_host_port_def last_index_byte_def)
  then show ?thesis
    by (auto simp: agent_normaliseMaster_def normaliseMaster_def strip_schemes_def [symmetric] Let_def
        join_host_port_def split: option.splits)
qed

end
