(* ===== verification/StoreSpec.thy ===== *)
theory StoreSpec
  imports Json
begin

text \<open>
  What the two persistent stores of the controller (\<open>admin.go\<close>, \<open>flows.go\<close>) share: the file
  they are written to, and the contract \<open>keyed_store\<close> of a table in which an entry is put
  under its key.  A file is \<^const>\<open>None\<close> when it cannot be read or is no JSON text.
\<close>

type_synonym disk = "json option"

text \<open>\<open>os.WriteFile\<close>: \<open>wr\<close> is \<^const>\<open>None\<close> for success, else what the failed write leaves.\<close>

definition write_file :: "disk option \<Rightarrow> json \<Rightarrow> disk" where
  "write_file wr j = (case wr of None \<Rightarrow> Some j | Some left \<Rightarrow> left)"

locale keyed_store =
  fixes ok :: "'s \<Rightarrow> bool"
    and look :: "'s \<Rightarrow> 'k \<Rightarrow> 'v option"
    and put :: "'e \<Rightarrow> 's \<Rightarrow> 's"
    and key_of :: "'e \<Rightarrow> 'k"
    and fits :: "'e \<Rightarrow> bool"
    and entry :: "'e \<Rightarrow> 'v option \<Rightarrow> 'v"
  assumes put_ok: "ok s \<Longrightarrow> fits e \<Longrightarrow> ok (put e s)"
    and look_put: "ok s \<Longrightarrow> fits e \<Longrightarrow>
      look (put e s) k = (if k = key_of e then Some (entry e (look s (key_of e))) else look s k)"
begin

definition puts :: "'e list \<Rightarrow> 's \<Rightarrow> 's" where
  "puts es s = fold put es s"

lemma puts_ok: "ok s \<Longrightarrow> list_all fits es \<Longrightarrow> ok (puts es s)"
  by (induction es arbitrary: s) (auto simp: puts_def put_ok)

text \<open>An entry is decided by the puts under its own key, in their order.\<close>

lemma look_puts:
  "ok s \<Longrightarrow> list_all fits es \<Longrightarrow>
   look (puts es s) k =
     fold (\<lambda>e v. Some (entry e v)) (filter (\<lambda>e. key_of e = k) es) (look s k)"
proof (induction es arbitrary: s)
  case (Cons e es)
  then have "look (puts (e # es) s) k =
      fold (\<lambda>e v. Some (entry e v)) (filter (\<lambda>e. key_of e = k) es) (look (put e s) k)"
    using Cons.IH [of "put e s"] by (simp add: puts_def put_ok)
  with Cons.prems show ?case
    by (auto simp: look_put)
qed (simp add: puts_def)

lemma puts_commute:
  assumes "ok s" "fits e" "fits e'" "key_of e \<noteq> key_of e'"
  shows "look (put e (put e' s)) k = look (put e' (put e s)) k"
  using assms by (auto simp: look_put put_ok)

end

end
