(* ===== verification/FlowStore.thy ===== *)
theory FlowStore
  imports StoreSpec Protocol
begin

text \<open>
  \<open>internal/controller/flows.go\<close>: the operator's flows, a slice in the order they were added, with
  its file.  The identifier \<open>flowID()\<close> draws is an input.  \<open>remove\<close> compacts the slice in its own
  backing array; the loop is translated as it runs over that array and proved to be a filter.
\<close>

record flow =
  fl_ID :: string
  fl_Name :: string
  fl_SrcAgent :: string
  fl_SrcPort :: int
  fl_Protocol :: profile
  fl_DstAgent :: string
  fl_DstPort :: int
  fl_Enabled :: bool

definition zero_flow :: flow where
  "zero_flow = \<lparr>fl_ID = '''', fl_Name = '''', fl_SrcAgent = '''', fl_SrcPort = 0, fl_Protocol = '''',
     fl_DstAgent = '''', fl_DstPort = 0, fl_Enabled = False\<rparr>"

definition enc_flow :: "flow \<Rightarrow> json" where
  "enc_flow f = JObj [(''id'', JStr (fl_ID f)), (''name'', JStr (fl_Name f)),
     (''srcAgent'', JStr (fl_SrcAgent f)), (''srcPort'', JInt (fl_SrcPort f)),
     (''protocol'', JStr (fl_Protocol f)), (''dstAgent'', JStr (fl_DstAgent f)),
     (''dstPort'', JInt (fl_DstPort f)), (''enabled'', JBool (fl_Enabled f))]"

definition dec_flow :: "json \<Rightarrow> flow option" where
  "dec_flow = dec_struct (\<lambda>ms. do {
     i \<leftarrow> fld ms ''id'' dec_string '''';
     n \<leftarrow> fld ms ''name'' dec_string '''';
     s \<leftarrow> fld ms ''srcAgent'' dec_string '''';
     sp \<leftarrow> fld ms ''srcPort'' dec_int 0;
     p \<leftarrow> fld ms ''protocol'' dec_string '''';
     d \<leftarrow> fld ms ''dstAgent'' dec_string '''';
     dp \<leftarrow> fld ms ''dstPort'' dec_int 0;
     e \<leftarrow> fld ms ''enabled'' dec_bool False;
     Some \<lparr>fl_ID = i, fl_Name = n, fl_SrcAgent = s, fl_SrcPort = sp, fl_Protocol = p, fl_DstAgent = d,
        fl_DstPort = dp, fl_Enabled = e\<rparr>}) zero_flow"

definition flow_ok :: "flow \<Rightarrow> bool" where
  "flow_ok f \<longleftrightarrow> int64_range (fl_SrcPort f) \<and> int64_range (fl_DstPort f)"

interpretation flow_wire: payload_codec enc_flow dec_flow flow_ok
  by unfold_locales (simp add: flow_ok_def dec_flow_def enc_flow_def fld_def fold_name_def)

record flow_store =
  fs_flows :: "flow list"
  fs_path :: string
  fs_file :: disk

subsection \<open>Operations\<close>

definition flow_load :: "flow_store \<Rightarrow> flow_store" where
  "flow_load s =
     (if fs_path s = '''' then s
      else case fs_file s of None \<Rightarrow> s
      | Some j \<Rightarrow> (case dec_list dec_flow j of None \<Rightarrow> s | Some fs \<Rightarrow> s\<lparr>fs_flows := fs\<rparr>))"

definition newFlowStore :: "string \<Rightarrow> disk \<Rightarrow> flow_store" where
  "newFlowStore path f = flow_load \<lparr>fs_flows = [], fs_path = path, fs_file = f\<rparr>"

text \<open>\<open>rand\<close> is the hexadecimal text of the six random bytes, \<^const>\<open>None\<close> if there are none.\<close>

definition flowID :: "string option \<Rightarrow> string" where
  "flowID rand = (case rand of None \<Rightarrow> ''flow'' | Some h \<Rightarrow> h)"

definition saveLocked :: "disk option \<Rightarrow> flow_store \<Rightarrow> flow_store" where
  "saveLocked wr s =
     (if fs_path s = '''' then s else s\<lparr>fs_file := write_file wr (enc_list enc_flow (fs_flows s))\<rparr>)"

definition flows_all :: "flow_store \<Rightarrow> flow list" where
  "flows_all s = fs_flows s"

text \<open>The loop that replaces the first flow with the ID; \<^const>\<open>None\<close> when there is none.\<close>

fun replace_flow :: "flow \<Rightarrow> flow list \<Rightarrow> flow list option" where
  "replace_flow f [] = None"
| "replace_flow f (g # gs) = (if fl_ID g = fl_ID f then Some (f # gs) else map_option ((#) g) (replace_flow f gs))"

definition upsert :: "disk option \<Rightarrow> string option \<Rightarrow> flow \<Rightarrow> flow_store \<Rightarrow> flow \<times> flow_store" where
  "upsert wr rand f s =
     (if fl_ID f = '''' then
        (let f' = f\<lparr>fl_ID := flowID rand\<rparr> in
         (f', saveLocked wr (s\<lparr>fs_flows := fs_flows s @ [f']\<rparr>)))
      else
        (f, saveLocked wr (s\<lparr>fs_flows :=
           (case replace_flow f (fs_flows s) of Some fs \<Rightarrow> fs | None \<Rightarrow> fs_flows s @ [f])\<rparr>)))"

text \<open>\<open>out := s.flows[:0]\<close> shares the backing array: the loop reads element \<open>i\<close> and writes
  element \<open>n\<close>.\<close>

function compact :: "string \<Rightarrow> nat \<Rightarrow> nat \<Rightarrow> flow list \<Rightarrow> flow list" where
  "compact x i n arr =
     (if i < length arr then
        (if fl_ID (arr ! i) \<noteq> x then compact x (Suc i) (Suc n) (arr[n := arr ! i])
         else compact x (Suc i) n arr)
      else take n arr)"
  by pat_completeness auto
termination
  by (relation "measure (\<lambda>(x, i, n, arr). length arr - i)") auto

declare compact.simps [simp del]

definition flow_remove :: "disk option \<Rightarrow> string \<Rightarrow> flow_store \<Rightarrow> flow_store" where
  "flow_remove wr x s = saveLocked wr (s\<lparr>fs_flows := compact x 0 0 (fs_flows s)\<rparr>)"

definition flow_add :: "disk option \<Rightarrow> string option \<Rightarrow> flow \<Rightarrow> flow_store \<Rightarrow> flow_store" where
  "flow_add wr rand f s =
     saveLocked wr (s\<lparr>fs_flows := fs_flows s @ [f\<lparr>fl_ID := flowID rand\<rparr>]\<rparr>)"

definition flow_clear :: "disk option \<Rightarrow> flow_store \<Rightarrow> flow_store" where
  "flow_clear wr s = saveLocked wr (s\<lparr>fs_flows := []\<rparr>)"

subsection \<open>What the operations do\<close>

lemma fs_save [simp]: "fs_flows (saveLocked wr s) = fs_flows s" "fs_path (saveLocked wr s) = fs_path s"
  by (simp_all add: saveLocked_def)

text \<open>The part written so far is the filtered prefix, the part still to read is untouched.\<close>

lemma compact_filter:
  "n \<le> i \<Longrightarrow> i \<le> length arr \<Longrightarrow> take n arr = filter (\<lambda>f. fl_ID f \<noteq> x) pre \<Longrightarrow>
   compact x i n arr = filter (\<lambda>f. fl_ID f \<noteq> x) (pre @ drop i arr)"
proof (induction x i n arr arbitrary: pre rule: compact.induct)
  case (1 x i n arr)
  show ?case
  proof (cases "i < length arr")
    case True
    then have d: "drop i arr = arr ! i # drop (Suc i) arr"
      by (simp add: Cons_nth_drop_Suc)
    show ?thesis
    proof (cases "fl_ID (arr ! i) \<noteq> x")
      case keep: True
      have "take (Suc n) (arr[n := arr ! i]) = filter (\<lambda>f. fl_ID f \<noteq> x) (pre @ [arr ! i])"
        using "1.prems" True keep by (simp add: take_Suc_conv_app_nth)
      with "1.IH"(1) [OF True keep, of "pre @ [arr ! i]"] "1.prems" True keep d show ?thesis
        by (subst compact.simps) (simp add: drop_update_cancel)
    next
      case drop_it: False
      with "1.IH"(2) [OF True drop_it, of "pre @ [arr ! i]"] "1.prems" True d show ?thesis
        by (subst compact.simps) simp
    qed
  qed (use "1.prems" in \<open>subst compact.simps, simp\<close>)
qed

lemma flow_remove_filter: "fs_flows (flow_remove wr x s) = filter (\<lambda>f. fl_ID f \<noteq> x) (fs_flows s)"
  using compact_filter [of 0 0 "fs_flows s" x "[]"] by (simp add: flow_remove_def)

lemma replace_flow_Some:
  "replace_flow f fs = Some gs \<Longrightarrow>
   \<exists>pre g post. fs = pre @ g # post \<and> gs = pre @ f # post \<and> fl_ID g = fl_ID f \<and> fl_ID f \<notin> fl_ID ` set pre"
proof (induction fs arbitrary: gs)
  case (Cons h fs)
  show ?case
  proof (cases "fl_ID h = fl_ID f")
    case True
    with Cons.prems show ?thesis by (intro exI [of _ "[]"]) auto
  next
    case False
    with Cons.prems obtain gs' where "replace_flow f fs = Some gs'" "gs = h # gs'" by auto
    with Cons.IH [OF this(1)] obtain pre g post where "fs = pre @ g # post" "gs' = pre @ f # post"
      "fl_ID g = fl_ID f" "fl_ID f \<notin> fl_ID ` set pre" by auto
    with False \<open>gs = h # gs'\<close> show ?thesis
      by (intro exI [of _ "h # pre"] exI [of _ g] exI [of _ post]) auto
  qed
qed simp

lemma replace_flow_None: "replace_flow f fs = None \<longleftrightarrow> fl_ID f \<notin> fl_ID ` set fs"
  by (induction fs) auto

definition find_flow :: "flow_store \<Rightarrow> string \<Rightarrow> flow option" where
  "find_flow s x = find (\<lambda>f. fl_ID f = x) (fs_flows s)"

lemma find_append: "find P (xs @ ys) = (case find P xs of Some x \<Rightarrow> Some x | None \<Rightarrow> find P ys)"
  by (induction xs) auto

lemma find_flow_upsert:
  "fl_ID f \<noteq> '''' \<Longrightarrow> find_flow (snd (upsert wr rand f s)) x =
   (if x = fl_ID f then Some f else find_flow s x)"
proof (cases "replace_flow f (fs_flows s)")
  case None
  then have n: "find (\<lambda>g. fl_ID g = fl_ID f) (fs_flows s) = None"
    by (auto simp: replace_flow_None find_None_iff image_iff)
  assume "fl_ID f \<noteq> ''''"
  with None n show ?thesis
    by (auto simp: find_flow_def upsert_def find_append split: option.splits)
next
  case (Some gs)
  assume "fl_ID f \<noteq> ''''"
  from replace_flow_Some [OF Some] obtain pre g post where *: "fs_flows s = pre @ g # post"
    "gs = pre @ f # post" "fl_ID g = fl_ID f" "fl_ID f \<notin> fl_ID ` set pre" by blast
  then have "find (\<lambda>h. fl_ID h = fl_ID f) pre = None"
    by (auto simp: find_None_iff image_iff)
  with * Some \<open>fl_ID f \<noteq> ''''\<close> show ?thesis
    by (auto simp: find_flow_def upsert_def find_append split: option.splits)
qed

interpretation flow_table: keyed_store "\<lambda>_. True" find_flow "\<lambda>f s. snd (upsert wr rand f s)" fl_ID
  "\<lambda>f. fl_ID f \<noteq> ''''" "\<lambda>f _. f" for wr rand
  by unfold_locales (simp_all add: find_flow_upsert)

subsection \<open>Properties\<close>

text \<open>
  Deleting a flow in place is a filter.  The loop of \<open>remove\<close>, which overwrites the front
  of the array it is still reading, keeps exactly the flows with another ID, in their order,
  each once.
\<close>

theorem remove_is_filter:
  "flows_all (flow_remove wr x s) = filter (\<lambda>f. fl_ID f \<noteq> x) (flows_all s)"
  by (simp add: flows_all_def flow_remove_filter)

text \<open>The identifiers in use.\<close>

definition flow_ids :: "flow_store \<Rightarrow> string list" where
  "flow_ids s = map fl_ID (fs_flows s)"

lemma distinct_ids_replace:
  "replace_flow f fs = Some gs \<Longrightarrow> map fl_ID gs = map fl_ID fs"
  using replace_flow_Some by fastforce

lemma upsert_edits_one_parts:
  assumes "distinct (flow_ids s)" and "flowID rand \<notin> set (flow_ids s)" and "flowID rand \<noteq> ''''"
    and "upsert wr rand f s = (saved, s')"
  shows "distinct (flow_ids s')" and "find_flow s' (fl_ID saved) = Some saved"
    and "\<forall>x. x \<noteq> fl_ID saved \<longrightarrow> find_flow s' x = find_flow s x"
    and "flow_ids s' = flow_ids s \<or> flow_ids s' = flow_ids s @ [fl_ID saved]"
    and "saved\<lparr>fl_ID := fl_ID f\<rparr> = f"
proof -
  let ?f = "if fl_ID f = '''' then f\<lparr>fl_ID := flowID rand\<rparr> else f"
  have e: "saved = ?f" "fs_flows s' = (case replace_flow ?f (fs_flows s) of Some fs \<Rightarrow> fs | None \<Rightarrow> fs_flows s @ [?f])"
    using assms(2-4) replace_flow_None [of ?f "fs_flows s"]
    by (auto simp: upsert_def flow_ids_def Let_def split: if_splits)
  have i: "flow_ids s' = (if replace_flow ?f (fs_flows s) = None then flow_ids s @ [fl_ID ?f] else flow_ids s)"
    using e(2) distinct_ids_replace [of ?f "fs_flows s"] by (auto simp: flow_ids_def)
  have up: "s' = snd (upsert wr rand ?f s)"
    using assms(2-4) replace_flow_None [of ?f "fs_flows s"] by (auto simp: upsert_def flow_ids_def Let_def)
  have ne: "fl_ID ?f \<noteq> ''''" using assms(3) by simp
  show "distinct (flow_ids s')"
    using i assms(1) by (auto simp: replace_flow_None flow_ids_def)
  show "find_flow s' (fl_ID saved) = Some saved" "\<forall>x. x \<noteq> fl_ID saved \<longrightarrow> find_flow s' x = find_flow s x"
    using find_flow_upsert [OF ne, of wr rand s] up e(1) by simp_all
  show "flow_ids s' = flow_ids s \<or> flow_ids s' = flow_ids s @ [fl_ID saved]"
    using i e(1) by auto
  show "saved\<lparr>fl_ID := fl_ID f\<rparr> = f"
    using e(1) by simp
qed

text \<open>
  An upsert edits one flow.  If the IDs in use are distinct and the drawn ID is not among them,
  then afterwards they are still distinct, the returned flow is the one stored under its ID, every
  other flow is found as before, and the order of the IDs is the old one with at most one
  new ID at the end.
\<close>

theorem upsert_edits_one:
  assumes "distinct (flow_ids s)" and "flowID rand \<notin> set (flow_ids s)" and "flowID rand \<noteq> ''''"
    and "upsert wr rand f s = (saved, s')"
  shows "(distinct (flow_ids s')) \<and>
     (find_flow s' (fl_ID saved) = Some saved) \<and>
     (\<forall>x. x \<noteq> fl_ID saved \<longrightarrow> find_flow s' x = find_flow s x) \<and>
     (flow_ids s' = flow_ids s \<or> flow_ids s' = flow_ids s @ [fl_ID saved]) \<and>
     (saved\<lparr>fl_ID := fl_ID f\<rparr> = f)"
  by (intro conjI upsert_edits_one_parts [OF assms])

theorem upsert_edits_one_witness:
  "find_flow (snd (upsert None (Some ''a1'') (zero_flow\<lparr>fl_Name := ''n''\<rparr>) (newFlowStore '''' None))) ''a1''
     = Some (zero_flow\<lparr>fl_Name := ''n'', fl_ID := ''a1''\<rparr>)"
  using upsert_edits_one [of "newFlowStore '''' None" "Some ''a1''" None "zero_flow\<lparr>fl_Name := ''n''\<rparr>",
      OF _ _ _ prod.collapse [symmetric]]
  by (simp add: newFlowStore_def flow_load_def flow_ids_def flowID_def upsert_def zero_flow_def Let_def)

text \<open>Histories of the store.\<close>

datatype flow_op =
  Upsert "string option" flow | Remove string | Add "string option" flow | Clear

fun run_op :: "flow_op \<Rightarrow> flow_store \<Rightarrow> flow_store" where
  "run_op (Upsert rand f) s = snd (upsert None rand f s)"
| "run_op (Remove x) s = flow_remove None x s"
| "run_op (Add rand f) s = flow_add None rand f s"
| "run_op Clear s = flow_clear None s"

fun op_ok :: "flow_op \<Rightarrow> bool" where
  "op_ok (Upsert _ f) = flow_ok f"
| "op_ok (Add _ f) = flow_ok f"
| "op_ok _ = True"

definition store_flows_ok :: "flow_store \<Rightarrow> bool" where
  "store_flows_ok s \<longleftrightarrow> (\<forall>f \<in> set (fs_flows s). flow_ok f)"

lemma dec_flow_ok: "dec_flow j = Some f \<Longrightarrow> flow_ok f"
proof -
  have int: "dec_int j = Some i \<Longrightarrow> int64_range i" for j i
    by (auto simp: dec_int_def int64_range_def split: json.splits if_splits)
  have zero: "int64_range 0" by (simp add: int64_range_def)
  then have "fld ms n dec_int 0 = Some i \<Longrightarrow> int64_range i" for ms n i
    by (auto simp: fld_def dest: int split: option.splits)
  with zero show "dec_flow j = Some f \<Longrightarrow> flow_ok f"
    by (auto simp: dec_flow_def dec_struct_def flow_ok_def zero_flow_def split: json.splits bind_splits)
qed

lemma op_flows_ok: "op_ok p \<Longrightarrow> store_flows_ok s \<Longrightarrow> store_flows_ok (run_op p s)"
proof (cases p)
  case (Upsert rand f)
  assume ok: "op_ok p" "store_flows_ok s"
  have "set gs \<subseteq> insert f (set (fs_flows s))" if "replace_flow f (fs_flows s) = Some gs" for gs
    using replace_flow_Some [OF that] by auto
  with ok Upsert show ?thesis
    by (fastforce simp: store_flows_ok_def upsert_def Let_def flow_ok_def split: option.splits)
qed (auto simp: store_flows_ok_def flow_remove_filter flow_add_def flow_clear_def flow_ok_def)

lemma saved_flows_load:
  assumes "fs_path s \<noteq> ''''" and "store_flows_ok s"
  shows "fs_flows (newFlowStore (fs_path s) (fs_file (saveLocked None s))) = fs_flows s"
  using assms flow_wire.list_roundtrip [of "fs_flows s"]
  by (simp add: newFlowStore_def flow_load_def saveLocked_def write_file_def store_flows_ok_def)

lemma upsert_saves: "\<exists>s1. snd (upsert wr rand f s) = saveLocked wr s1 \<and> fs_path s1 = fs_path s"
  by (cases "fl_ID f = ''''"; simp add: upsert_def Let_def; rule exI, rule conjI, rule refl, simp)

lemma run_op_saved:
  assumes "op_ok p" and "store_flows_ok s" and "fs_path s \<noteq> ''''"
  shows "fs_path (run_op p s) = fs_path s \<and>
     fs_flows (newFlowStore (fs_path s) (fs_file (run_op p s))) = fs_flows (run_op p s)"
proof -
  have "\<exists>s1. run_op p s = saveLocked None s1 \<and> fs_path s1 = fs_path s"
  proof (cases p)
    case (Upsert rand f)
    then show ?thesis using upsert_saves [of None rand f s] by simp
  qed (auto simp: flow_remove_def flow_add_def flow_clear_def
      intro: exI [of _ "s\<lparr>fs_flows := fs\<rparr>" for fs])
  then obtain s1 where s1: "run_op p s = saveLocked None s1" "fs_path s1 = fs_path s"
    by blast
  moreover have "store_flows_ok s1"
    using op_flows_ok [OF assms(1,2)] s1 by (simp add: store_flows_ok_def)
  ultimately show ?thesis
    using saved_flows_load [of s1] assms(3) by simp
qed

text \<open>
  C36: Flows survive a restart.  Every operation saves inside its critical section: after any
  sequence of upserts, deletions, additions and clearings, a controller that reads the file back
  has exactly the flows of the running one, in the same order.
\<close>

theorem flows_survive_restart:
  assumes "path \<noteq> ''''" and "list_all op_ok ops"
  shows "let s = fold run_op ops (newFlowStore path f) in
     flows_all (newFlowStore path (fs_file s)) = flows_all s"
proof -
  have path: "fs_path (newFlowStore path f) = path"
    by (simp add: newFlowStore_def flow_load_def split: option.splits)
  have ok0: "store_flows_ok (newFlowStore path f)"
  proof -
    have "(\<forall>f \<in> set fs. flow_ok f)" if "dec_list dec_flow j = Some fs" for j fs
    proof -
      have "opt_map dec_flow js = Some fs \<Longrightarrow> \<forall>f \<in> set fs. flow_ok f" for js fs
        by (induction js arbitrary: fs) (auto split: option.splits dest: dec_flow_ok)
      with that show ?thesis by (auto simp: dec_list_def split: json.splits)
    qed
    then show ?thesis
      by (auto simp: store_flows_ok_def newFlowStore_def flow_load_def split: option.splits)
  qed
  have "store_flows_ok (fold run_op ops s) \<and> fs_path (fold run_op ops s) = path \<and>
      fs_flows (newFlowStore path (fs_file (fold run_op ops s))) = fs_flows (fold run_op ops s)"
    if "list_all op_ok ops" "store_flows_ok s" "fs_path s = path"
      "fs_flows (newFlowStore path (fs_file s)) = fs_flows s" for s ops
    using that
  proof (induction ops arbitrary: s)
    case (Cons p ops)
    then show ?case
      using run_op_saved [of p s] op_flows_ok [of p s] assms(1) by auto
  qed simp
  moreover have "fs_flows (newFlowStore path (fs_file (newFlowStore path f))) = fs_flows (newFlowStore path f)"
    by (simp add: newFlowStore_def flow_load_def split: option.splits)
  ultimately show ?thesis
    using assms(2) ok0 path by (simp add: flows_all_def Let_def)
qed

theorem flows_survive_restart_witness:
  "let s = fold run_op [Add (Some ''a1'') zero_flow, Add (Some ''a2'') zero_flow, Remove ''a1'']
     (newFlowStore ''netmesh-flows.json'' None) in
   flows_all (newFlowStore ''netmesh-flows.json'' (fs_file s)) = flows_all s \<and> flow_ids s = [''a2'']"
  using flows_survive_restart [of "''netmesh-flows.json''"
      "[Add (Some ''a1'') zero_flow, Add (Some ''a2'') zero_flow, Remove ''a1'']" None]
  by (simp add: Let_def flow_ok_def zero_flow_def int64_range_def flow_ids_def flow_remove_filter flow_add_def
      flowID_def newFlowStore_def flow_load_def)

end
