(* ===== verification/AdminStore.thy ===== *)
theory AdminStore
  imports StoreSpec "HOL-Library.Multiset" "HOL-Library.AList" "HOL-Library.List_Lexorder" "HOL-Library.Char_ord"
begin

text \<open>
  \<open>internal/controller/admin.go\<close>: the operator's settings per agent.  The Go map is an
  association list with distinct keys; it is written as an object with sorted keys.  \<open>update\<close>
  changes the map under the lock and saves after releasing it, so it is also given in its
  three steps (change, marshal, write), which concurrent callers interleave.
\<close>

record agent_config =
  cg_Label :: string
  cg_Group :: string
  cg_Enabled :: bool

definition defaultConfig :: agent_config where
  "defaultConfig = \<lparr>cg_Label = '''', cg_Group = '''', cg_Enabled = True\<rparr>"

definition zero_agent_config :: agent_config where
  "zero_agent_config = \<lparr>cg_Label = '''', cg_Group = '''', cg_Enabled = False\<rparr>"

definition enc_agent_config :: "agent_config \<Rightarrow> json" where
  "enc_agent_config c = JObj [(''label'', JStr (cg_Label c)), (''group'', JStr (cg_Group c)),
     (''enabled'', JBool (cg_Enabled c))]"

definition dec_agent_config :: "json \<Rightarrow> agent_config option" where
  "dec_agent_config = dec_struct (\<lambda>ms. do {
     l \<leftarrow> fld ms ''label'' dec_string '''';
     g \<leftarrow> fld ms ''group'' dec_string '''';
     e \<leftarrow> fld ms ''enabled'' dec_bool False;
     Some \<lparr>cg_Label = l, cg_Group = g, cg_Enabled = e\<rparr>}) zero_agent_config"

record agent_update =
  au_AgentID :: string
  au_Label :: "string option"
  au_Group :: "string option"
  au_Enabled :: "bool option"

definition dec_agent_update :: "json \<Rightarrow> agent_update option" where
  "dec_agent_update = dec_struct (\<lambda>ms. do {
     a \<leftarrow> fld ms ''agentId'' dec_string '''';
     l \<leftarrow> fld ms ''label'' (dec_ptr dec_string) None;
     g \<leftarrow> fld ms ''group'' (dec_ptr dec_string) None;
     e \<leftarrow> fld ms ''enabled'' (dec_ptr dec_bool) None;
     Some \<lparr>au_AgentID = a, au_Label = l, au_Group = g, au_Enabled = e\<rparr>})
     \<lparr>au_AgentID = '''', au_Label = None, au_Group = None, au_Enabled = None\<rparr>"

type_synonym config_map = "(string \<times> agent_config) list"

record admin_store =
  as_cfg :: config_map
  as_path :: string
  as_file :: disk

subsection \<open>Operations\<close>

definition enc_config_map :: "config_map \<Rightarrow> json" where
  "enc_config_map m = JObj (map (\<lambda>(k, c). (k, enc_agent_config c)) (sort_key fst m))"

text \<open>\<^const>\<open>None\<close> is an error of \<open>Unmarshal\<close> or the nil map.\<close>

definition dec_config_map :: "json \<Rightarrow> config_map option" where
  "dec_config_map j = (case j of
       JObj ms \<Rightarrow> map_option (\<lambda>kcs. fold (\<lambda>(k, c) m. AList.update k c m) kcs [])
         (opt_map (\<lambda>(k, v). map_option (Pair k) (dec_agent_config v)) ms)
     | _ \<Rightarrow> None)"

definition admin_load :: "admin_store \<Rightarrow> admin_store" where
  "admin_load s =
     (if as_path s = '''' then s
      else case as_file s of None \<Rightarrow> s
      | Some j \<Rightarrow> (case dec_config_map j of None \<Rightarrow> s | Some m \<Rightarrow> s\<lparr>as_cfg := m\<rparr>))"

definition newAdminStore :: "string \<Rightarrow> disk \<Rightarrow> admin_store" where
  "newAdminStore path f = admin_load \<lparr>as_cfg = [], as_path = path, as_file = f\<rparr>"

definition admin_save :: "disk option \<Rightarrow> admin_store \<Rightarrow> admin_store" where
  "admin_save wr s =
     (if as_path s = '''' then s else s\<lparr>as_file := write_file wr (enc_config_map (as_cfg s))\<rparr>)"

definition admin_get :: "string \<Rightarrow> admin_store \<Rightarrow> agent_config" where
  "admin_get a s = (case map_of (as_cfg s) a of None \<Rightarrow> defaultConfig | Some c \<Rightarrow> c)"

definition apply_update :: "agent_update \<Rightarrow> agent_config \<Rightarrow> agent_config" where
  "apply_update u c =
     (let c1 = (case au_Label u of None \<Rightarrow> c | Some l \<Rightarrow> c\<lparr>cg_Label := l\<rparr>);
          c2 = (case au_Group u of None \<Rightarrow> c1 | Some g \<Rightarrow> c1\<lparr>cg_Group := g\<rparr>) in
      case au_Enabled u of None \<Rightarrow> c2 | Some e \<Rightarrow> c2\<lparr>cg_Enabled := e\<rparr>)"

text \<open>The critical section of \<open>update\<close>.\<close>

definition admin_change :: "agent_update \<Rightarrow> admin_store \<Rightarrow> admin_store" where
  "admin_change u s =
     s\<lparr>as_cfg := AList.update (au_AgentID u) (apply_update u (admin_get (au_AgentID u) s)) (as_cfg s)\<rparr>"

definition admin_update :: "disk option \<Rightarrow> agent_update \<Rightarrow> admin_store \<Rightarrow> agent_config \<times> admin_store" where
  "admin_update wr u s =
     (apply_update u (admin_get (au_AgentID u) s), admin_save wr (admin_change u s))"

subsection \<open>Lookups after updates\<close>

definition admin_ok :: "admin_store \<Rightarrow> bool" where
  "admin_ok s \<longleftrightarrow> distinct (map fst (as_cfg s))"

lemma admin_get_save [simp]: "admin_get a (admin_save wr s) = admin_get a s"
  by (simp add: admin_get_def admin_save_def)

lemma admin_ok_save [simp]: "admin_ok (admin_save wr s) = admin_ok s"
  by (simp add: admin_ok_def admin_save_def)

lemma admin_ok_change [simp]: "admin_ok s \<Longrightarrow> admin_ok (admin_change u s)"
  by (simp add: admin_ok_def admin_change_def distinct_update)

lemma admin_get_change:
  "admin_get a (admin_change u s) =
   (if a = au_AgentID u then apply_update u (admin_get (au_AgentID u) s) else admin_get a s)"
  by (simp add: admin_get_def admin_change_def update_conv')

interpretation admin_table: keyed_store admin_ok "\<lambda>s a. Some (admin_get a s)"
  "\<lambda>u s. snd (admin_update wr u s)" au_AgentID "\<lambda>_. True"
  "\<lambda>u c. apply_update u (case c of None \<Rightarrow> defaultConfig | Some c \<Rightarrow> c)" for wr
  by unfold_locales (auto simp: admin_update_def admin_get_change)

subsection \<open>The file\<close>

lemma dec_enc_agent_config [simp]: "dec_agent_config (enc_agent_config c) = Some c"
  by (simp add: dec_agent_config_def enc_agent_config_def fld_def fold_name_def)

lemma update_all_distinct:
  "distinct (map fst kcs) \<Longrightarrow> fst ` set kcs \<inter> fst ` set m = {} \<Longrightarrow>
   fold (\<lambda>(k, c) m. AList.update k c m) kcs m = m @ kcs"
proof (induction kcs arbitrary: m)
  case (Cons kc kcs)
  obtain k c where kc: "kc = (k, c)" by (cases kc)
  with Cons.prems have "AList.update k c m = m @ [(k, c)]"
    by (induction m) auto
  with Cons kc show ?case by auto
qed simp

lemma config_map_roundtrip:
  assumes "distinct (map fst m)"
  shows "\<exists>m'. dec_config_map (enc_config_map m) = Some m' \<and> map_of m' = map_of m \<and> distinct (map fst m')"
proof -
  let ?s = "sort_key fst m"
  have "mset (map fst ?s) = mset (map fst m)"
    by (metis mset_map mset_sort)
  then have d: "distinct (map fst ?s)"
    using assms by (metis mset_eq_imp_distinct_iff)
  have "opt_map (\<lambda>(k, v). map_option (Pair k) (dec_agent_config v)) (map (\<lambda>(k, c). (k, enc_agent_config c)) ?s) = Some ?s"
    by (rule opt_map_all) auto
  then have "dec_config_map (enc_config_map m) = Some ?s"
    using update_all_distinct [OF d, of "[]"] by (simp add: dec_config_map_def enc_config_map_def)
  moreover have "map_of ?s = map_of m"
    using assms d by (intro map_of_inject_set [THEN iffD2]) auto
  ultimately show ?thesis using d by blast
qed

lemma dec_config_map_distinct: "dec_config_map j = Some m \<Longrightarrow> distinct (map fst m)"
proof -
  have "distinct (map fst m0) \<Longrightarrow> distinct (map fst (fold (\<lambda>(k, c) m. AList.update k c m) kcs m0))"
    for kcs :: config_map and m0
    by (induction kcs arbitrary: m0) (auto simp: distinct_update)
  then show "dec_config_map j = Some m \<Longrightarrow> distinct (map fst m)"
    by (auto simp: dec_config_map_def split: json.splits)
qed

lemma admin_ok_load: "admin_ok (newAdminStore path f)"
  by (auto simp: newAdminStore_def admin_load_def admin_ok_def dec_config_map_distinct split: option.splits)

text \<open>The file would be read back as what is in memory.\<close>

definition mirrored :: "admin_store \<Rightarrow> bool" where
  "mirrored s \<longleftrightarrow> (\<forall>a. admin_get a (newAdminStore (as_path s) (as_file s)) = admin_get a s)"

lemma mirrored_save:
  assumes "admin_ok s" and "as_path s \<noteq> ''''"
  shows "mirrored (admin_save None s)"
proof -
  obtain m where "dec_config_map (enc_config_map (as_cfg s)) = Some m" "map_of m = map_of (as_cfg s)"
    using config_map_roundtrip assms(1) by (auto simp: admin_ok_def)
  with assms(2) show ?thesis
    by (simp add: mirrored_def admin_save_def newAdminStore_def admin_load_def write_file_def admin_get_def)
qed

definition admin_updates :: "agent_update list \<Rightarrow> admin_store \<Rightarrow> admin_store" where
  "admin_updates us s = fold (\<lambda>u s. snd (admin_update None u s)) us s"

lemma admin_path [simp]:
  "as_path (admin_change u s) = as_path s" "as_path (admin_save wr s) = as_path s"
  "as_path (newAdminStore p f) = p"
  by (simp_all add: admin_change_def admin_save_def newAdminStore_def admin_load_def split: option.splits)

lemma admin_updates_props:
  "admin_ok s \<Longrightarrow> as_path s \<noteq> '''' \<Longrightarrow> mirrored s \<Longrightarrow>
   mirrored (admin_updates us s) \<and> as_path (admin_updates us s) = as_path s"
  unfolding admin_updates_def
  by (induction us arbitrary: s) (auto simp: admin_update_def mirrored_save)

lemma mirrored_new: "mirrored (newAdminStore p f)"
  by (auto simp: mirrored_def newAdminStore_def admin_load_def admin_get_def split: option.splits)

text \<open>
  C35: Settings survive a restart.  After any sequence of updates made one after another, whatever
  the file held at the start, a controller that reads the file back sees for every agent exactly
  the settings the running one has: the initial ones (by default enabled, without label and
  group) changed by the given fields of the agent's own updates, in order.
\<close>

theorem settings_survive_restart:
  assumes "path \<noteq> ''''"
  shows "let s = admin_updates us (newAdminStore path f) in
     admin_get a (newAdminStore path (as_file s)) = admin_get a s \<and>
     admin_get a s = fold apply_update (filter (\<lambda>u. au_AgentID u = a) us) (admin_get a (newAdminStore path f))"
proof -
  let ?s0 = "newAdminStore path f"
  have m: "mirrored (admin_updates us ?s0)" "as_path (admin_updates us ?s0) = path"
    using admin_updates_props [OF admin_ok_load _ mirrored_new] assms by simp_all
  have f: "fold (\<lambda>u c. Some (apply_update u (case c of None \<Rightarrow> defaultConfig | Some c \<Rightarrow> c))) xs (Some c)
      = Some (fold apply_update xs c)" for xs c
    by (induction xs arbitrary: c) simp_all
  have "Some (admin_get a (admin_updates us ?s0)) =
      Some (fold apply_update (filter (\<lambda>u. au_AgentID u = a) us) (admin_get a ?s0))"
    using admin_table.look_puts [where wr = None and s = ?s0 and es = us and k = a, OF admin_ok_load]
    by (simp add: admin_table.puts_def admin_updates_def f list_all_iff)
  with m show ?thesis
    by (simp add: mirrored_def Let_def)
qed

theorem settings_survive_restart_witness:
  "let s = admin_updates [\<lparr>au_AgentID = ''a'', au_Label = Some ''edge'', au_Group = None, au_Enabled = None\<rparr>,
       \<lparr>au_AgentID = ''a'', au_Label = None, au_Group = None, au_Enabled = Some False\<rparr>]
       (newAdminStore ''netmesh-admin.json'' None) in
   admin_get ''a'' (newAdminStore ''netmesh-admin.json'' (as_file s)) =
     \<lparr>cg_Label = ''edge'', cg_Group = '''', cg_Enabled = False\<rparr>"
  using settings_survive_restart [of "''netmesh-admin.json''"
      "[\<lparr>au_AgentID = ''a'', au_Label = Some ''edge'', au_Group = None, au_Enabled = None\<rparr>,
        \<lparr>au_AgentID = ''a'', au_Label = None, au_Group = None, au_Enabled = Some False\<rparr>]" None "''a''"]
  by (simp add: Let_def newAdminStore_def admin_load_def admin_get_def apply_update_def defaultConfig_def)

subsection \<open>Concurrent updates\<close>

text \<open>A caller of \<open>update\<close> that has left the critical section: about to marshal the map under
  the read lock, or about to write what it marshalled.\<close>

datatype save_job = ToMarshal | ToWrite json

inductive admin_step :: "admin_store \<times> save_job list \<Rightarrow> admin_store \<times> save_job list \<Rightarrow> bool" where
  change: "admin_step (s, js) (admin_change u s, js @ [ToMarshal])"
| marshal: "i < length js \<Longrightarrow> js ! i = ToMarshal \<Longrightarrow>
    admin_step (s, js) (s, js[i := ToWrite (enc_config_map (as_cfg s))])"
| write_: "i < length js \<Longrightarrow> js ! i = ToWrite j \<Longrightarrow>
    admin_step (s, js) (s\<lparr>as_file := write_file None j\<rparr>, take i js @ drop (Suc i) js)"

definition demo_update :: "string \<Rightarrow> agent_update" where
  "demo_update a = \<lparr>au_AgentID = a, au_Label = None, au_Group = None, au_Enabled = Some False\<rparr>"

text \<open>
  C37: Two concurrent updates can lose one on disk.  Since \<open>update\<close> saves after it has released the
  lock, one caller can marshal the map, a second one change, marshal and write it, and the
  first one then write its older text: all calls have returned, both agents are disabled in memory,
  but after a restart the second one is enabled again.
\<close>

theorem concurrent_saves_lose_update:
  "\<exists>s. admin_step\<^sup>*\<^sup>* (newAdminStore ''f'' None, []) (s, []) \<and>
     \<not> cg_Enabled (admin_get ''a'' s) \<and> \<not> cg_Enabled (admin_get ''b'' s) \<and>
     cg_Enabled (admin_get ''b'' (newAdminStore ''f'' (as_file s)))"
proof -
  let ?s0 = "newAdminStore ''f'' None"
  let ?s1 = "admin_change (demo_update ''a'') ?s0"
  let ?s2 = "admin_change (demo_update ''b'') ?s1"
  let ?j1 = "enc_config_map (as_cfg ?s1)"
  let ?j2 = "enc_config_map (as_cfg ?s2)"
  let ?s3 = "?s2\<lparr>as_file := write_file None ?j2\<rparr>"
  let ?s4 = "?s3\<lparr>as_file := write_file None ?j1\<rparr>"
  have "admin_step (?s0, []) (?s1, [ToMarshal])"
    using admin_step.change [of ?s0 "[]"] by simp
  moreover have "admin_step (?s1, [ToMarshal]) (?s1, [ToWrite ?j1])"
    using admin_step.marshal [of 0 "[ToMarshal]" ?s1] by simp
  moreover have "admin_step (?s1, [ToWrite ?j1]) (?s2, [ToWrite ?j1, ToMarshal])"
    using admin_step.change [of ?s1 "[ToWrite ?j1]"] by simp
  moreover have "admin_step (?s2, [ToWrite ?j1, ToMarshal]) (?s2, [ToWrite ?j1, ToWrite ?j2])"
    using admin_step.marshal [of 1 "[ToWrite ?j1, ToMarshal]" ?s2] by simp
  moreover have "admin_step (?s2, [ToWrite ?j1, ToWrite ?j2]) (?s3, [ToWrite ?j1])"
    using admin_step.write_ [of 1 "[ToWrite ?j1, ToWrite ?j2]" ?j2 ?s2] by simp
  moreover have "admin_step (?s3, [ToWrite ?j1]) (?s4, [])"
    using admin_step.write_ [of 0 "[ToWrite ?j1]" ?j1 ?s3] by simp
  ultimately have run: "admin_step\<^sup>*\<^sup>* (?s0, []) (?s4, [])"
    by (meson converse_rtranclp_into_rtranclp rtranclp.rtrancl_refl)
  have off: "\<not> cg_Enabled (apply_update (demo_update x) c)" "au_AgentID (demo_update x) = x" for x c
    by (simp_all add: apply_update_def demo_update_def)
  have "\<not> cg_Enabled (admin_get ''a'' ?s2)" "\<not> cg_Enabled (admin_get ''b'' ?s2)"
    by (simp_all add: admin_get_change off)
  then have mem: "\<not> cg_Enabled (admin_get ''a'' ?s4)" "\<not> cg_Enabled (admin_get ''b'' ?s4)"
    by (simp_all add: admin_get_def)
  have "mirrored (admin_save None ?s1)"
    by (rule mirrored_save) (simp_all add: admin_ok_load)
  then have "admin_get ''b'' (newAdminStore ''f'' (Some ?j1)) = admin_get ''b'' ?s1"
    by (auto simp: mirrored_def admin_save_def write_file_def admin_get_def)
  also have "\<dots> = defaultConfig"
    by (simp add: admin_get_change demo_update_def) (simp add: newAdminStore_def admin_load_def admin_get_def)
  finally have "cg_Enabled (admin_get ''b'' (newAdminStore ''f'' (as_file ?s4)))"
    by (simp add: write_file_def defaultConfig_def)
  with run mem show ?thesis by blast
qed

end
