(* ===== verification/Hub.thy ===== *)
theory Hub
  imports Pump Logging GoNet "HOL-Library.AList"
begin

text \<open>
  \<open>internal/transport/hub.go\<close>: the controller's registry of connected agents.  An
  \<open>AgentConn\<close> is a pointer in the Go code; here it is an address into a heap of connection
  records, each with its own peer.  What the hub hands on (log events, telemetry and diagnostic
  output for the controller's sinks) is the list of outputs a step returns, in order.
  Clock readings and the choices of \<open>select\<close> are inputs.
\<close>

subsection \<open>Port reports\<close>

definition portDetail :: "port_status \<Rightarrow> string" where
  "portDetail ps =
     ''port '' @ strconv_itoa (ps_Port ps) @ '' ('' @
     (if ps_UDP ps then ''udp ok, '' else ''udp -, '') @
     (if ps_TCP ps then ''tcp ok)'' else ''tcp -)'') @
     (if ps_Err ps \<noteq> '''' then [CHR '' '', CHR 0xE2, CHR 0x80, CHR 0x94, CHR '' ''] @ ps_Err ps else [])"

subsection \<open>State\<close>

record agent_conn =
  ac_peer :: peer
  ac_remoteAddr :: string
  ac_joinedAt :: int
  ac_id :: string
  ac_host :: string
  ac_dport :: int
  ac_ports :: "port_status list"

record hub =
  hb_joinToken :: string
  hb_agents :: "string \<rightharpoonup> nat"
  hb_lastSeq :: "string \<rightharpoonup> u64"
  hb_conns :: "nat \<Rightarrow> agent_conn"
  hb_next :: nat

datatype hub_out =
  OutEvent event | OutTelemetry string "metric list" bool | OutDiag diag_chunk

definition zero_conn :: agent_conn where
  "zero_conn = \<lparr>ac_peer = NewPeer '''', ac_remoteAddr = '''', ac_joinedAt = 0, ac_id = '''',
     ac_host = '''', ac_dport = 0, ac_ports = []\<rparr>"

definition NewHub :: "string \<Rightarrow> hub" where
  "NewHub token = \<lparr>hb_joinToken = token, hb_agents = Map.empty, hb_lastSeq = Map.empty,
     hb_conns = (\<lambda>_. zero_conn), hb_next = 0\<rparr>"

abbreviation upd_conn :: "nat \<Rightarrow> (agent_conn \<Rightarrow> agent_conn) \<Rightarrow> hub \<Rightarrow> hub" where
  "upd_conn c f h \<equiv> h\<lparr>hb_conns := (hb_conns h)(c := f (hb_conns h c))\<rparr>"

definition conn_send ::
  "bool \<Rightarrow> int \<Rightarrow> string \<Rightarrow> json option \<Rightarrow> nat \<Rightarrow> hub \<Rightarrow> send_result \<times> hub" where
  "conn_send pick now t v c h =
     (case Send pick now t v (ac_peer (hb_conns h c)) of
        (r, p) \<Rightarrow> (r, upd_conn c (\<lambda>ac. ac\<lparr>ac_peer := p\<rparr>) h))"

definition conn_close :: "nat \<Rightarrow> hub \<Rightarrow> hub" where
  "conn_close c h = upd_conn c (\<lambda>ac. ac\<lparr>ac_peer := peer_Close (ac_peer ac)\<rparr>) h"

subsection \<open>ServeAgent\<close>

text \<open>Before \<open>Run\<close>: the token check and the new connection (\<open>upgrade\<close> tells whether the
  websocket upgrade succeeds).\<close>

datatype accept_result = Refused nat | UpgradeFailed | Accepted nat

definition ServeAgent ::
  "string \<Rightarrow> string \<Rightarrow> bool \<Rightarrow> int \<Rightarrow> hub \<Rightarrow> accept_result \<times> hub \<times> hub_out list" where
  "ServeAgent got remote upgrade now h =
     (if hb_joinToken h \<noteq> '''' \<and> ct_compare (bytes_of got) (bytes_of (hb_joinToken h)) \<noteq> 1 then
        (Refused 403, h, [OutEvent ((event0 AuthRejected)\<lparr>ev_Detail := ''agent join: bad token'',
           ev_Fields := [(''remote'', AStr remote)]\<rparr>)])
      else if \<not> upgrade then (UpgradeFailed, h, [])
      else let c = hb_next h in
        (Accepted c,
         h\<lparr>hb_next := Suc c, hb_conns := (hb_conns h)(c := zero_conn\<lparr>ac_remoteAddr := remote,
            ac_joinedAt := now\<rparr>)\<rparr>, []))"

definition unregister :: "nat \<Rightarrow> hub \<Rightarrow> hub \<times> hub_out list" where
  "unregister c h =
     (let id = ac_id (hb_conns h c);
          h' = (if hb_agents h id = Some c then h\<lparr>hb_agents := (hb_agents h)(id := None)\<rparr> else h) in
      (h', [OutEvent ((event0 AgentDropped)\<lparr>ev_AgentID := id,
              ev_Detail := causeString (Cause (ac_peer (hb_conns h c)))\<rparr>)]))"

text \<open>After \<open>Run\<close> has returned.\<close>

definition conn_ended :: "nat \<Rightarrow> hub \<Rightarrow> hub \<times> hub_out list" where
  "conn_ended c h = (if ac_id (hb_conns h c) \<noteq> '''' then unregister c h else (h, []))"

subsection \<open>register\<close>

definition hub_register :: "nat \<Rightarrow> register \<Rightarrow> hub \<Rightarrow> hub \<times> hub_out list" where
  "hub_register c reg h =
     (let id = rg_AgentID reg;
          h1 = (case hb_agents h id of Some e \<Rightarrow> if e \<noteq> c then conn_close e h else h | None \<Rightarrow> h);
          h2 = h1\<lparr>hb_agents := (hb_agents h1)(id \<mapsto> c)\<rparr> in
      (h2,
       [OutEvent ((event0 AgentJoined)\<lparr>ev_AgentID := id, ev_Detail := ac_remoteAddr (hb_conns h c)\<rparr>),
        OutEvent ((event0 AgentRegistered)\<lparr>ev_AgentID := id,
          ev_Fields := [(''hostname'', AStr (rg_Hostname reg)), (''version'', AStr (rg_Version reg)),
                        (''resumeSeq'', AU64 (rg_ResumeSeq reg))]\<rparr>)]))"

subsection \<open>handleTelemetry\<close>

text \<open>The loop over the sorted sequence numbers: the gaps (after, seq, missed), and the new
  watermark.\<close>

fun gap_scan :: "bool \<Rightarrow> u64 list \<Rightarrow> u64 \<Rightarrow> (u64 \<times> u64 \<times> u64) list \<times> u64" where
  "gap_scan replay [] wm = ([], wm)"
| "gap_scan replay (s # ss) wm =
     (if s \<le> wm then gap_scan replay ss wm
      else let (gaps, wm') = gap_scan replay ss s in
        (if \<not> replay \<and> wm \<noteq> 0 \<and> s > wm + 1 then (wm, s, s - wm - 1) # gaps else gaps, wm'))"

definition batch_seqs :: "telemetry_batch \<Rightarrow> u64 list" where
  "batch_seqs b = filter (\<lambda>s. s \<noteq> 0) (map m_Seq (tb_Metrics b))"

definition gap_event :: "string \<Rightarrow> u64 \<times> u64 \<times> u64 \<Rightarrow> event" where
  "gap_event agent g = (case g of (after, s, missed) \<Rightarrow>
     (event0 PacketSequenceMissed)\<lparr>ev_AgentID := agent, ev_Seq := s,
        ev_Detail := ''telemetry sequence gap'',
        ev_Fields := [(''afterSeq'', AU64 after), (''missed'', AU64 missed)]\<rparr>)"

definition watermark :: "hub \<Rightarrow> string \<Rightarrow> u64" where
  "watermark h agent = (case hb_lastSeq h agent of Some s \<Rightarrow> s | None \<Rightarrow> 0)"

definition handleTelemetry :: "string \<Rightarrow> telemetry_batch \<Rightarrow> hub \<Rightarrow> hub \<times> hub_out list" where
  "handleTelemetry agent b h =
     (if agent = '''' \<or> tb_Metrics b = [] then (h, [])
      else case gap_scan (tb_Replay b) (sort (batch_seqs b)) (watermark h agent) of
        (gaps, wm) \<Rightarrow>
          (h\<lparr>hb_lastSeq := (hb_lastSeq h)(agent \<mapsto> wm)\<rparr>,
           OutTelemetry agent (tb_Metrics b) (tb_Replay b) # map (OutEvent \<circ> gap_event agent) gaps))"

subsection \<open>SendTo, Broadcast, Evict, Agents, Count\<close>

text \<open>\<^const>\<open>None\<close> is \<open>ErrAgentNotFound\<close>.\<close>

definition SendTo ::
  "bool \<Rightarrow> int \<Rightarrow> string \<Rightarrow> string \<Rightarrow> json option \<Rightarrow> hub \<Rightarrow> send_result option \<times> hub" where
  "SendTo pick now agent t v h =
     (case hb_agents h agent of None \<Rightarrow> (None, h)
      | Some c \<Rightarrow> (case conn_send pick now t v c h of (r, h') \<Rightarrow> (Some r, h')))"

text \<open>The snapshot of connections, in the order the map iteration gives; a connection whose queue is
  full holds the loop up, and the rest is what remains to be sent.\<close>

fun broadcast_loop ::
  "bool \<Rightarrow> int \<Rightarrow> string \<Rightarrow> json option \<Rightarrow> nat list \<Rightarrow> hub \<Rightarrow> nat list \<times> hub" where
  "broadcast_loop pick now t v [] h = ([], h)"
| "broadcast_loop pick now t v (c # cs) h =
     (case conn_send pick now t v c h of
        (SendBlocked, h') \<Rightarrow> (cs, h')
      | (_, h') \<Rightarrow> broadcast_loop pick now t v cs h')"

definition Broadcast ::
  "string list \<Rightarrow> bool \<Rightarrow> int \<Rightarrow> string \<Rightarrow> json option \<Rightarrow> hub \<Rightarrow> nat list \<times> hub" where
  "Broadcast ord pick now t v h =
     broadcast_loop pick now t v (map (\<lambda>a. the (hb_agents h a)) (filter (\<lambda>a. hb_agents h a \<noteq> None) ord)) h"

definition Evict :: "string \<Rightarrow> hub \<Rightarrow> hub option" where
  "Evict agent h = (case hb_agents h agent of None \<Rightarrow> None | Some c \<Rightarrow> Some (conn_close c h))"

record agent_info =
  ai_ID :: string
  ai_Hostname :: string
  ai_RemoteAddr :: string
  ai_DataPort :: int
  ai_JoinedAt :: int
  ai_LastSeq :: u64
  ai_WSRttMicros :: int
  ai_FramesRx :: u64
  ai_FramesTx :: u64
  ai_Ports :: "port_status list"

definition agent_info_of :: "hub \<Rightarrow> string \<Rightarrow> nat \<Rightarrow> agent_info" where
  "agent_info_of h a c =
     (let ac = hb_conns h c in
      \<lparr>ai_ID = a, ai_Hostname = ac_host ac, ai_RemoteAddr = ac_remoteAddr ac, ai_DataPort = ac_dport ac,
       ai_JoinedAt = ac_joinedAt ac, ai_LastSeq = watermark h a,
       ai_WSRttMicros = pe_rttMicros (ac_peer ac), ai_FramesRx = pe_framesRx (ac_peer ac),
       ai_FramesTx = pe_framesTx (ac_peer ac), ai_Ports = ac_ports ac\<rparr>)"

definition Agents :: "string list \<Rightarrow> hub \<Rightarrow> agent_info list" where
  "Agents ord h =
     map (\<lambda>a. agent_info_of h a (the (hb_agents h a))) (filter (\<lambda>a. hb_agents h a \<noteq> None) ord)"

definition Count :: "hub \<Rightarrow> nat" where
  "Count h = card (dom (hb_agents h))"

subsection \<open>onMessage\<close>

text \<open>\<open>logging.Event\<close> as an agent sends it; \<open>ptime\<close> reads the time stamp.\<close>

definition dec_fields :: "json \<Rightarrow> (string \<times> any_val) list option" where
  "dec_fields j = (case j of JNull \<Rightarrow> Some []
     | JObj ms \<Rightarrow> Some (fold (\<lambda>(k, v) fs. AList.update k (AJson v) fs) ms []) | _ \<Rightarrow> None)"

definition dec_time :: "(string \<Rightarrow> int option) \<Rightarrow> json \<Rightarrow> int option" where
  "dec_time ptime j = (case j of JNull \<Rightarrow> Some 0 | JStr s \<Rightarrow> ptime s | _ \<Rightarrow> None)"

definition dec_event :: "(string \<Rightarrow> int option) \<Rightarrow> json \<Rightarrow> event option" where
  "dec_event ptime = dec_struct (\<lambda>ms. do {
     t \<leftarrow> fld ms ''event'' dec_string '''';
     ti \<leftarrow> fld ms ''time'' (dec_time ptime) 0;
     a \<leftarrow> fld ms ''agentId'' dec_string '''';
     p \<leftarrow> fld ms ''peerId'' dec_string '''';
     s \<leftarrow> fld ms ''seq'' dec_u64 0;
     d \<leftarrow> fld ms ''detail'' dec_string '''';
     f \<leftarrow> fld ms ''fields'' dec_fields [];
     Some \<lparr>ev_Type = t, ev_Time = ti, ev_AgentID = a, ev_PeerID = p, ev_Seq = s, ev_Detail = d,
        ev_Fields = f\<rparr>}) (event0 '''')"

definition port_event :: "string \<Rightarrow> port_status \<Rightarrow> event" where
  "port_event a ps =
     (event0 (if ps_UDP ps \<or> ps_TCP ps then PortBound else PortUnavailable))\<lparr>ev_AgentID := a,
        ev_Detail := portDetail ps, ev_Fields := [(''port'', AInt (ps_Port ps))]\<rparr>"

definition onRegister :: "bool \<Rightarrow> int \<Rightarrow> envelope \<Rightarrow> register \<Rightarrow> nat \<Rightarrow> hub \<Rightarrow> hub \<times> hub_out list" where
  "onRegister pick now env reg0 c h =
     (let reg = (if rg_AgentID reg0 = '''' then reg0\<lparr>rg_AgentID := en_AgentID env\<rparr> else reg0);
          h1 = upd_conn c (\<lambda>ac. ac\<lparr>ac_id := rg_AgentID reg, ac_host := rg_Hostname reg,
                                    ac_dport := rg_DataPort reg\<rparr>) h in
      case hub_register c reg h1 of (h2, out) \<Rightarrow>
        (snd (conn_send pick now TypeRegisterAck (Some (enc_register_ack
            \<lparr>ra_AgentID = rg_AgentID reg, ra_Accepted = True, ra_Reason = ''''\<rparr>)) c h2), out))"

definition onMessage ::
  "(string \<Rightarrow> int option) \<Rightarrow> bool \<Rightarrow> int \<Rightarrow> nat \<Rightarrow> envelope \<Rightarrow> hub \<Rightarrow> hub \<times> hub_out list" where
  "onMessage ptime pick now c env h =
     (if en_Type env = TypeRegister then
        (case DecodePayload dec_register env of None \<Rightarrow> (h, [])
         | Some reg \<Rightarrow> onRegister pick now env reg c h)
      else if en_Type env = TypeTelemetry then
        (case DecodePayload dec_batch env of None \<Rightarrow> (h, [])
         | Some b \<Rightarrow> handleTelemetry (ac_id (hb_conns h c)) b h)
      else if en_Type env = TypeDiagChunk then
        (case DecodePayload dec_diag_chunk env of None \<Rightarrow> (h, []) | Some ch \<Rightarrow> (h, [OutDiag ch]))
      else if en_Type env = TypePortStatus then
        (case DecodePayload dec_port_report env of None \<Rightarrow> (h, [])
         | Some rep \<Rightarrow>
             (upd_conn c (\<lambda>ac. ac\<lparr>ac_ports := pr_Ports rep\<rparr>) h,
              map (\<lambda>ps. OutEvent (port_event (ac_id (hb_conns h c)) ps)) (pr_Ports rep)))
      else if en_Type env = TypeEvent then
        (case DecodePayload (dec_event ptime) env of None \<Rightarrow> (h, []) | Some e \<Rightarrow> (h, [OutEvent e]))
      else (h, []))"

subsection \<open>What the sequence scan reports\<close>

lemma gap_scan_last:
  "sorted ss \<Longrightarrow> unat (snd (gap_scan r ss wm)) = Max (insert (unat wm) (unat ` set ss))"
proof (induction ss arbitrary: wm)
  case (Cons s ss)
  have "max a (max b m) = (if b \<le> a then max a m else max b m)" for a b m :: nat
    by (auto simp: max_def)
  then have "Max (insert (unat wm) (insert (unat s) (unat ` set ss))) =
      (if s \<le> wm then Max (insert (unat wm) (unat ` set ss)) else Max (insert (unat s) (unat ` set ss)))"
    by (cases "ss = []") (simp_all add: word_le_nat_alt)
  with Cons.prems Cons.IH [of wm] Cons.IH [of s] show ?case
    by (auto simp: Let_def split: prod.splits)
qed simp

lemma gap_scan_ge: "wm \<le> snd (gap_scan r ss wm)"
proof (induction ss arbitrary: wm)
  case (Cons s ss)
  show ?case
    using Cons.IH [of wm] Cons.IH [of s] by (auto simp: Let_def split: prod.splits)
qed simp

lemma word_gap:
  "(wm :: u64) < s \<Longrightarrow> (s > wm + 1 \<longleftrightarrow> unat wm + 1 < unat s) \<and>
   unat (s - wm - 1) = unat s - unat wm - 1"
proof -
  assume lt: "wm < s"
  then have le: "unat wm < unat s"
    by (simp add: word_less_nat_alt)
  have "unat s < 2 ^ 64"
    using unsigned_less [of s] by simp
  with le have u: "unat (wm + 1) = unat wm + 1"
    by (subst unat_plus_if') (auto simp: unsigned_1)
  have "unat (s - (wm + 1)) = unat s - (unat wm + 1)"
    using le u by (simp add: unat_sub_if')
  with u show ?thesis
    by (auto simp: word_less_nat_alt diff_diff_eq)
qed

definition gap_span :: "u64 \<times> u64 \<times> u64 \<Rightarrow> nat set" where
  "gap_span g = (case g of (after, s, _) \<Rightarrow> {unat after<..<unat s})"

text \<open>For sorted input the gaps are exactly the numbers between the old and the new watermark that
  the batch does not contain, and their sizes add up to the number of these.\<close>

lemma gap_scan_exact:
  "sorted ss \<Longrightarrow> wm \<noteq> 0 \<Longrightarrow> gap_scan False ss wm = (gaps, wm') \<Longrightarrow>
   (\<Union>g \<in> set gaps. gap_span g) = {unat wm<..unat wm'} - unat ` set ss \<and>
   (\<Sum>g \<leftarrow> gaps. unat (snd (snd g))) = card ({unat wm<..unat wm'} - unat ` set ss)"
proof (induction ss arbitrary: wm gaps)
  case (Cons s ss)
  show ?case
  proof (cases "s \<le> wm")
    case True
    then have "{unat wm<..unat wm'} - unat ` set (s # ss) = {unat wm<..unat wm'} - unat ` set ss"
      by (auto simp: word_le_nat_alt)
    with Cons True show ?thesis by simp
  next
    case False
    then have lt: "wm < s" by simp
    obtain gs where gs: "gap_scan False ss s = (gs, wm')"
      and gaps: "gaps = (if s > wm + 1 then (wm, s, s - wm - 1) # gs else gs)"
      using Cons.prems False by (auto simp: Let_def split: prod.splits if_splits)
    have "s \<noteq> 0" using lt by (metis word_not_simps(1))
    from Cons.IH [OF _ this gs] Cons.prems have IH:
      "(\<Union>g \<in> set gs. gap_span g) = {unat s<..unat wm'} - unat ` set ss"
      "(\<Sum>g \<leftarrow> gs. unat (snd (snd g))) = card ({unat s<..unat wm'} - unat ` set ss)"
      by simp_all
    have le: "unat wm < unat s" "unat s \<le> unat wm'"
      using lt gap_scan_ge [of s False ss] gs by (simp_all add: word_less_nat_alt word_le_nat_alt)
    have above: "\<forall>t \<in> set ss. unat s \<le> unat t"
      using Cons.prems(1) by (auto simp: word_le_nat_alt)
    have split: "{unat wm<..unat wm'} - unat ` set (s # ss) =
        {unat wm<..<unat s} \<union> ({unat s<..unat wm'} - unat ` set ss)"
      using le above by fastforce
    have "card ({unat wm<..<unat s} \<union> ({unat s<..unat wm'} - unat ` set ss)) =
        (unat s - unat wm - 1) + card ({unat s<..unat wm'} - unat ` set ss)"
      by (subst card_Un_disjoint) auto
    note parts = split this
    show ?thesis
    proof (cases "s > wm + 1")
      case True
      then show ?thesis
        unfolding parts using gaps IH word_gap [OF lt] by (simp add: gap_span_def)
    next
      case False
      moreover from this have "{unat wm<..<unat s} = {}" "unat s - unat wm - 1 = 0"
        using word_gap [OF lt] by auto
      ultimately show ?thesis
        unfolding parts using gaps IH by simp
    qed
  qed
qed auto

lemma gap_scan_quiet: "r \<or> wm = 0 \<and> length ss \<le> 1 \<Longrightarrow> fst (gap_scan r ss wm) = []"
  by (induction r ss wm rule: gap_scan.induct) (auto simp: Let_def split: prod.splits)

lemma gap_scan_remdups: "sorted ss \<Longrightarrow> gap_scan r (remdups ss) wm = gap_scan r ss wm"
proof (induction ss arbitrary: wm)
  case (Cons s ss)
  show ?case
  proof (cases "s \<in> set ss")
    case True
    then obtain ss' where ss: "ss = s # ss'"
      using Cons.prems by (cases ss) (auto simp: order_antisym)
    with True Cons have "gap_scan r (remdups (s # ss)) wm = gap_scan r ss wm"
      by simp
    also have "\<dots> = gap_scan r (s # ss) wm"
      using ss by (simp add: Let_def)
    finally show ?thesis .
  next
    case False
    with Cons show ?thesis by (simp add: Let_def)
  qed
qed simp

text \<open>Order and multiplicity within a batch do not matter.\<close>

lemma gap_scan_set:
  assumes "set xs = set ys"
  shows "gap_scan r (sort xs) wm = gap_scan r (sort ys) wm"
proof -
  have "gap_scan r (sort zs) wm = gap_scan r (sorted_list_of_set (set zs)) wm" for zs
  proof -
    have "sorted_list_of_set (set zs) = remdups (sort zs)"
      by (rule sorted_distinct_set_unique) auto
    then show ?thesis
      using gap_scan_remdups [of "sort zs" r wm] by simp
  qed
  with assms show ?thesis by simp
qed

subsection \<open>Telemetry\<close>

text \<open>The numbers an event reports as missed, and how many it says there are.\<close>

definition reported_span :: "event \<Rightarrow> nat set" where
  "reported_span e = (case map_of (ev_Fields e) ''afterSeq'' of
     Some (AU64 a) \<Rightarrow> {unat a<..<unat (ev_Seq e)} | _ \<Rightarrow> {})"

definition reported_count :: "event \<Rightarrow> nat" where
  "reported_count e = (case map_of (ev_Fields e) ''missed'' of Some (AU64 n) \<Rightarrow> unat n | _ \<Rightarrow> 0)"

definition log_events :: "hub_out list \<Rightarrow> event list" where
  "log_events out = concat (map (\<lambda>x. case x of OutEvent e \<Rightarrow> [e] | _ \<Rightarrow> []) out)"

lemma log_events_simps [simp]:
  "log_events [] = []" "log_events (OutEvent e # xs) = e # log_events xs"
  "log_events (OutTelemetry a ms r # xs) = log_events xs" "log_events (OutDiag d # xs) = log_events xs"
  "log_events (map (OutEvent \<circ> f) ys) = map f ys"
  by (induction ys) (simp_all add: log_events_def)

lemma gap_event_report [simp]:
  "reported_span (gap_event a g) = gap_span g" "reported_count (gap_event a g) = unat (snd (snd g))"
  by (simp_all add: gap_event_def reported_span_def reported_count_def event0_def gap_span_def
      split: prod.splits)

lemma watermark_upd [simp]:
  "watermark (h\<lparr>hb_lastSeq := (hb_lastSeq h)(a \<mapsto> w)\<rparr>) b = (if a = b then w else watermark h b)"
  by (simp add: watermark_def)

text \<open>The numbers up to the new watermark that neither an earlier batch nor this one brought.\<close>

definition missing :: "u64 \<Rightarrow> u64 \<Rightarrow> telemetry_batch \<Rightarrow> nat set" where
  "missing old new b = {unat old<..unat new} - unat ` set (batch_seqs b)"

text \<open>
  Loss accounting is exact.  For a live batch of an agent whose watermark is known, the
  PACKET\_SEQUENCE\_MISSED events cover exactly the sequence numbers between the old and the new
  watermark that the batch does not contain, and their missed counts add up to how many there are: no loss
  is overlooked, none is invented, none is counted twice, in 64-bit arithmetic.
\<close>

theorem gaps_exact:
  assumes "agent \<noteq> ''''" and "tb_Metrics b \<noteq> []" and "\<not> tb_Replay b" and "watermark h agent \<noteq> 0"
    and "handleTelemetry agent b h = (h', out)"
  shows "(\<Union>e \<in> set (log_events out). reported_span e) = missing (watermark h agent) (watermark h' agent) b \<and>
     (\<Sum>e \<leftarrow> log_events out. reported_count e) = card (missing (watermark h agent) (watermark h' agent) b)"
proof -
  obtain gaps wm' where g: "gap_scan False (sort (batch_seqs b)) (watermark h agent) = (gaps, wm')"
    by (cases "gap_scan False (sort (batch_seqs b)) (watermark h agent)")
  then have "h' = h\<lparr>hb_lastSeq := (hb_lastSeq h)(agent \<mapsto> wm')\<rparr>" "log_events out = map (gap_event agent) gaps"
    using assms by (auto simp: handleTelemetry_def simp flip: comp_def)
  with gap_scan_exact [OF _ assms(4) g] show ?thesis
    by (simp add: missing_def o_def)
qed

theorem gaps_exact_witness:
  "\<exists>h' out. handleTelemetry ''a''
     \<lparr>tb_Metrics = [zero_metric\<lparr>m_Seq := 9\<rparr>, zero_metric\<lparr>m_Seq := 6\<rparr>], tb_Replay = False\<rparr>
     ((NewHub '''')\<lparr>hb_lastSeq := [''a'' \<mapsto> 4]\<rparr>) = (h', out) \<and>
     (\<Sum>e \<leftarrow> log_events out. reported_count e) = card {5, 7, 8 :: nat}"
proof -
  let ?b = "\<lparr>tb_Metrics = [zero_metric\<lparr>m_Seq := 9\<rparr>, zero_metric\<lparr>m_Seq := 6\<rparr>], tb_Replay = False\<rparr>"
  let ?h = "(NewHub '''')\<lparr>hb_lastSeq := [''a'' \<mapsto> 4]\<rparr>"
  obtain h' out where ho: "handleTelemetry ''a'' ?b ?h = (h', out)"
    by (cases "handleTelemetry ''a'' ?b ?h")
  have w: "watermark ?h ''a'' = 4" "batch_seqs ?b = [9, 6]"
    by (simp_all add: watermark_def batch_seqs_def zero_metric_def)
  with ho have w': "watermark h' ''a'' = 9"
    by (auto simp: handleTelemetry_def watermark_def)
  have "missing 4 9 ?b = {5, 7, 8}"
    unfolding missing_def w(2) by auto
  with gaps_exact [OF _ _ _ _ ho] w w' ho show ?thesis
    by simp
qed

text \<open>
  The watermark of an agent is the highest sequence number it ever sent: a batch raises it to
  the maximum of its old value and the batch's numbers (never lowers it), whatever the order,
  duplicates or zero numbers inside; other agents and the registry are untouched; and a replayed
  batch advances it without reporting any loss.
\<close>

theorem watermark_is_maximum:
  assumes "agent \<noteq> ''''" and "handleTelemetry agent b h = (h', out)"
  shows "unat (watermark h' agent) = Max (insert (unat (watermark h agent)) (unat ` set (batch_seqs b))) \<and>
     (\<forall>other. other \<noteq> agent \<longrightarrow> watermark h' other = watermark h other) \<and>
     hb_agents h' = hb_agents h \<and> hb_conns h' = hb_conns h \<and>
     (tb_Replay b \<longrightarrow> log_events out = [])"
proof (cases "tb_Metrics b = []")
  case True
  with assms show ?thesis
    by (auto simp: handleTelemetry_def batch_seqs_def)
next
  case False
  obtain gaps wm' where g: "gap_scan (tb_Replay b) (sort (batch_seqs b)) (watermark h agent) = (gaps, wm')"
    by (cases "gap_scan (tb_Replay b) (sort (batch_seqs b)) (watermark h agent)")
  with False assms have "h' = h\<lparr>hb_lastSeq := (hb_lastSeq h)(agent \<mapsto> wm')\<rparr>"
    "log_events out = map (gap_event agent) gaps"
    by (auto simp: handleTelemetry_def simp flip: comp_def)
  with gap_scan_last [of "sort (batch_seqs b)" "tb_Replay b" "watermark h agent"] g
    gap_scan_quiet [of "tb_Replay b" "watermark h agent" "sort (batch_seqs b)"]
  show ?thesis by auto
qed

theorem watermark_is_maximum_witness:
  "log_events (snd (handleTelemetry ''a'' \<lparr>tb_Metrics = [zero_metric\<lparr>m_Seq := 9\<rparr>], tb_Replay = True\<rparr>
     ((NewHub '''')\<lparr>hb_lastSeq := [''a'' \<mapsto> 4]\<rparr>))) = []"
  using watermark_is_maximum [of "''a''" "\<lparr>tb_Metrics = [zero_metric\<lparr>m_Seq := 9\<rparr>], tb_Replay = True\<rparr>"
      "(NewHub '''')\<lparr>hb_lastSeq := [''a'' \<mapsto> 4]\<rparr>"]
  by (metis eq_snd_iff list.distinct(1) telemetry_batch.select_convs(2))

text \<open>
  C39: Reordering and retransmission inside a batch are not mistaken for loss: two batches with the same
  set of sequence numbers (in any order, any number of times each) and the same replay flag
  raise the same events and leave the same watermarks.
\<close>

theorem order_and_duplicates_ignored:
  assumes "set (batch_seqs b) = set (batch_seqs b')" and "tb_Replay b = tb_Replay b'"
    and "tb_Metrics b \<noteq> []" and "tb_Metrics b' \<noteq> []"
  shows "log_events (snd (handleTelemetry agent b h)) = log_events (snd (handleTelemetry agent b' h)) \<and>
     fst (handleTelemetry agent b h) = fst (handleTelemetry agent b' h)"
  using assms gap_scan_set [OF assms(1)]
  by (simp add: handleTelemetry_def split: prod.splits flip: comp_def)

theorem order_and_duplicates_ignored_witness:
  "log_events (snd (handleTelemetry ''a'' \<lparr>tb_Metrics = [zero_metric\<lparr>m_Seq := 2\<rparr>, zero_metric\<lparr>m_Seq := 1\<rparr>,
      zero_metric\<lparr>m_Seq := 2\<rparr>], tb_Replay = False\<rparr> (NewHub ''''))) =
   log_events (snd (handleTelemetry ''a'' \<lparr>tb_Metrics = [zero_metric\<lparr>m_Seq := 1\<rparr>, zero_metric\<lparr>m_Seq := 2\<rparr>],
      tb_Replay = False\<rparr> (NewHub '''')))"
  by (rule order_and_duplicates_ignored [THEN conjunct1]) (auto simp: batch_seqs_def zero_metric_def)

subsection \<open>The registry\<close>

text \<open>The identity a REGISTER announces.\<close>

definition announced :: "envelope \<Rightarrow> register \<Rightarrow> string" where
  "announced env reg = (if rg_AgentID reg = '''' then en_AgentID env else rg_AgentID reg)"

text \<open>Histories of the hub, with the set of connections whose \<open>Run\<close> has not returned and
  the set of those that announced an empty or a second identity.  \<open>Client.connectOnce\<close> announces its
  constant agent ID, so its connections are steady; a connection may announce the same identity repeatedly,
  and any number of connections may announce the same one.  The end of a connection is processed
  after its \<open>Run\<close> has returned.\<close>

definition steady :: "nat \<Rightarrow> envelope \<Rightarrow> hub \<Rightarrow> bool" where
  "steady c env h \<longleftrightarrow>
     (\<forall>reg. en_Type env = TypeRegister \<and> DecodePayload dec_register env = Some reg \<longrightarrow>
        announced env reg \<noteq> '''' \<and> ac_id (hb_conns h c) \<in> {'''', announced env reg})"

inductive hub_run :: "string \<Rightarrow> hub \<Rightarrow> nat set \<Rightarrow> nat set \<Rightarrow> bool" for token where
  new: "hub_run token (NewHub token) {} {}"
| accept: "hub_run token h live fickle \<Longrightarrow> ServeAgent got remote up now h = (Accepted c, h', out) \<Longrightarrow>
    hub_run token h' (insert c live) fickle"
| message: "hub_run token h live fickle \<Longrightarrow> c \<in> live \<Longrightarrow>
    onMessage ptime pick now c env h = (h', out) \<Longrightarrow>
    hub_run token h' live (if steady c env h then fickle else insert c fickle)"
| pump: "hub_run token h live fickle \<Longrightarrow> c \<in> live \<Longrightarrow>
    pump_step (ac_peer (hb_conns h c)) fs p \<Longrightarrow>
    hub_run token (upd_conn c (\<lambda>ac. ac\<lparr>ac_peer := p\<rparr>) h) live fickle"
| ended: "hub_run token h live fickle \<Longrightarrow> c \<in> live \<Longrightarrow> run_returned (ac_peer (hb_conns h c)) \<Longrightarrow>
    conn_ended c h = (h', out) \<Longrightarrow> hub_run token h' (live - {c}) fickle"
| send_to: "hub_run token h live fickle \<Longrightarrow> SendTo pick now a t v h = (r, h') \<Longrightarrow> hub_run token h' live fickle"
| broadcast: "hub_run token h live fickle \<Longrightarrow> Broadcast ord pick now t v h = (rest, h') \<Longrightarrow>
    hub_run token h' live fickle"
| evict: "hub_run token h live fickle \<Longrightarrow> Evict a h = Some h' \<Longrightarrow> hub_run token h' live fickle"

definition registry_ok :: "hub \<Rightarrow> nat set \<Rightarrow> nat set \<Rightarrow> bool" where
  "registry_ok h live fickle \<longleftrightarrow>
     (\<forall>a c. hb_agents h a = Some c \<longrightarrow> c \<in> fickle \<or> c \<in> live \<and> ac_id (hb_conns h c) = a \<and> a \<noteq> '''') \<and>
     (\<forall>c \<in> live. c < hb_next h)"

text \<open>Operations that leave registry and identities alone.\<close>

definition same_registry :: "hub \<Rightarrow> hub \<Rightarrow> bool" where
  "same_registry h h' \<longleftrightarrow> hb_agents h' = hb_agents h \<and> hb_next h' = hb_next h \<and>
     (\<forall>c. ac_id (hb_conns h' c) = ac_id (hb_conns h c))"

lemma same_registry_refl [simp]: "same_registry h h"
  by (simp add: same_registry_def)

lemma same_registry_trans: "same_registry h1 h2 \<Longrightarrow> same_registry h2 h3 \<Longrightarrow> same_registry h1 h3"
  by (simp add: same_registry_def)

lemma registry_ok_same: "same_registry h h' \<Longrightarrow> registry_ok h live fickle \<Longrightarrow> registry_ok h' live fickle"
  by (simp add: same_registry_def registry_ok_def)

lemma same_registry_conn [simp]:
  "same_registry h (conn_close c h)" "same_registry h (snd (conn_send pick now t v c h))"
  "same_registry h (upd_conn c (\<lambda>ac. ac\<lparr>ac_peer := p\<rparr>) h)"
  "same_registry h (upd_conn c (\<lambda>ac. ac\<lparr>ac_ports := ps\<rparr>) h)"
  by (auto simp: same_registry_def conn_close_def conn_send_def split: prod.splits)

lemma same_registry_send: "conn_send pick now t v c h = (r, h') \<Longrightarrow> same_registry h h'"
  by (metis same_registry_conn(2) snd_conv)

lemma same_registry_SendTo: "SendTo pick now a t v h = (r, h') \<Longrightarrow> same_registry h h'"
  by (auto simp: SendTo_def dest: same_registry_send split: option.splits prod.splits)

lemma same_registry_loop: "broadcast_loop pick now t v cs h = (rest, h') \<Longrightarrow> same_registry h h'"
  by (induction pick now t v cs h arbitrary: rest rule: broadcast_loop.induct)
    (auto dest!: same_registry_send intro: same_registry_trans split: prod.splits send_result.splits)

lemma same_registry_Evict: "Evict a h = Some h' \<Longrightarrow> same_registry h h'"
  by (auto simp: Evict_def split: option.splits)

lemma same_registry_telemetry: "handleTelemetry a b h = (h', out) \<Longrightarrow> same_registry h h'"
  by (auto simp: handleTelemetry_def same_registry_def split: if_splits prod.splits)

lemma hub_register_effect:
  assumes "hub_register c reg h = (h', out)"
  shows "hb_agents h' = (hb_agents h)(rg_AgentID reg \<mapsto> c) \<and> hb_next h' = hb_next h \<and>
     (\<forall>d. ac_id (hb_conns h' d) = ac_id (hb_conns h d))"
  using assms same_registry_conn(1) [of h]
  by (auto simp: hub_register_def Let_def same_registry_def split: option.splits if_splits)

lemma onRegister_effect:
  assumes "onRegister pick now env reg c h = (h', out)"
  shows "hb_agents h' = (hb_agents h)(announced env reg \<mapsto> c) \<and> hb_next h' = hb_next h \<and>
     (\<forall>d. ac_id (hb_conns h' d) = (if d = c then announced env reg else ac_id (hb_conns h d)))"
proof -
  let ?reg = "if rg_AgentID reg = '''' then reg\<lparr>rg_AgentID := en_AgentID env\<rparr> else reg"
  let ?h1 = "upd_conn c (\<lambda>ac. ac\<lparr>ac_id := rg_AgentID ?reg, ac_host := rg_Hostname ?reg,
                                  ac_dport := rg_DataPort ?reg\<rparr>) h"
  obtain h2 o2 where r: "hub_register c ?reg ?h1 = (h2, o2)"
    by (cases "hub_register c ?reg ?h1")
  with assms have h': "h' = snd (conn_send pick now TypeRegisterAck (Some (enc_register_ack
            \<lparr>ra_AgentID = rg_AgentID ?reg, ra_Accepted = True, ra_Reason = ''''\<rparr>)) c h2)"
    by (simp add: onRegister_def Let_def)
  have id: "rg_AgentID ?reg = announced env reg"
    by (simp add: announced_def)
  from hub_register_effect [OF r] have "hb_agents h2 = (hb_agents h)(announced env reg \<mapsto> c)"
    "hb_next h2 = hb_next h"
    "\<forall>d. ac_id (hb_conns h2 d) = (if d = c then announced env reg else ac_id (hb_conns h d))"
    by (simp_all add: id)
  with h' same_registry_conn(2) [of h2] show ?thesis
    by (simp add: same_registry_def)
qed

lemma onMessage_cases:
  assumes "onMessage ptime pick now c env h = (h', out)"
  shows "same_registry h h' \<or>
     (\<exists>reg. en_Type env = TypeRegister \<and> DecodePayload dec_register env = Some reg \<and>
        onRegister pick now env reg c h = (h', out))"
  using assms
  by (auto simp: onMessage_def dest: same_registry_telemetry split: if_splits option.splits)

lemma registry_ok_message:
  assumes "registry_ok h live fickle" and "c \<in> live" and "onMessage ptime pick now c env h = (h', out)"
  shows "registry_ok h' live (if steady c env h then fickle else insert c fickle)"
  using onMessage_cases [OF assms(3)]
proof
  assume "same_registry h h'"
  from registry_ok_same [OF this assms(1)] show ?thesis
    by (auto simp: registry_ok_def)
next
  assume "\<exists>reg. en_Type env = TypeRegister \<and> DecodePayload dec_register env = Some reg \<and>
        onRegister pick now env reg c h = (h', out)"
  then obtain reg where reg: "en_Type env = TypeRegister" "DecodePayload dec_register env = Some reg"
    "onRegister pick now env reg c h = (h', out)"
    by blast
  note eff = onRegister_effect [OF reg(3)]
  have "steady c env h \<Longrightarrow> announced env reg \<noteq> '''' \<and> ac_id (hb_conns h c) \<in> {'''', announced env reg}"
    using reg(1,2) by (simp add: steady_def)
  with eff assms(1,2) show ?thesis
    by (auto simp: registry_ok_def)
qed

lemma registry_ok_ended:
  assumes "registry_ok h live fickle" and "conn_ended c h = (h', out)"
  shows "registry_ok h' (live - {c}) fickle"
proof -
  let ?id = "ac_id (hb_conns h c)"
  have same: "h' = h \<or> h' = h\<lparr>hb_agents := (hb_agents h)(?id := None)\<rparr>"
    and gone: "hb_agents h' ?id = Some c \<Longrightarrow> ?id = ''''"
    using assms(2) by (auto simp: conn_ended_def unregister_def Let_def split: if_splits)
  have sel: "hb_conns h' = hb_conns h" "hb_next h' = hb_next h"
    using same by auto
  have left: "hb_agents h a = Some d" if "hb_agents h' a = Some d" for a d
    using same that by (auto split: if_splits)
  have "d \<in> fickle \<or> d \<in> live - {c} \<and> ac_id (hb_conns h' d) = a \<and> a \<noteq> ''''" if "hb_agents h' a = Some d" for a d
    using assms(1) left [OF that] gone that by (auto simp: registry_ok_def sel)
  then show ?thesis
    using assms(1) by (simp add: registry_ok_def sel)
qed

lemma hub_run_ok: "hub_run token h live fickle \<Longrightarrow> registry_ok h live fickle"
proof (induction rule: hub_run.induct)
  case new
  show ?case by (simp add: registry_ok_def NewHub_def)
next
  case (accept h live fickle got remote up now c h' out)
  then have "hb_agents h' = hb_agents h" "hb_next h' = Suc (hb_next h)" "c = hb_next h"
    "\<forall>d. d \<noteq> c \<longrightarrow> hb_conns h' d = hb_conns h d"
    by (auto simp: ServeAgent_def Let_def split: if_splits)
  with accept.IH show ?case
    by (fastforce simp: registry_ok_def)
next
  case (message h live fickle c env ptime pick now h' out)
  then show ?case by (blast intro: registry_ok_message)
next
  case (ended h live fickle c h' out)
  then show ?case by (blast intro: registry_ok_ended)
next
  case (broadcast h live fickle ord pick now t v rest h')
  then show ?case by (metis Broadcast_def same_registry_loop registry_ok_same)
qed (auto intro: registry_ok_same same_registry_SendTo same_registry_Evict same_registry_conn(3))

text \<open>
  C8: The registry holds no ghosts: in every history of the hub an identity maps only to a connection
  that is still being served and that announced exactly this non-empty identity, unless that very connection
  announced an empty or a second identity at some time (what then happens is
  \<open>renamed_agent_lingers\<close>); what other connections announce does not matter.  A reconnect may
  overtake the end of the stale session in any interleaving: the old session's unregister never removes the new one.
\<close>

theorem registry_has_no_ghosts:
  assumes "hub_run token h live fickle" and "hb_agents h agent = Some c"
  shows "c \<in> fickle \<or> c \<in> live \<and> ac_id (hb_conns h c) = agent \<and> agent \<noteq> ''''"
  using hub_run_ok [OF assms(1)] assms(2) by (auto simp: registry_ok_def)

definition demo_register :: "string \<Rightarrow> envelope" where
  "demo_register a = NewEnvelope TypeRegister a 1 0
     (Some (enc_register (zero_register\<lparr>rg_AgentID := a, rg_DataPort := 6000\<rparr>)))"

lemma demo_register_decodes:
  "DecodePayload dec_register (demo_register a) = Some (zero_register\<lparr>rg_AgentID := a, rg_DataPort := 6000\<rparr>)"
  by (simp add: demo_register_def register_wire.open_new register_ok_def zero_register_def int64_range_def)

lemma demo_register_type: "en_Type (demo_register a) = TypeRegister" "announced (demo_register a) (zero_register\<lparr>rg_AgentID := a, rg_DataPort := 6000\<rparr>) = a"
  by (simp_all add: demo_register_def announced_def zero_register_def)

text \<open>A connection whose pumps have nothing to do.\<close>

definition idle_conn :: "nat \<Rightarrow> hub \<Rightarrow> bool" where
  "idle_conn c h \<longleftrightarrow> pe_writer (ac_peer (hb_conns h c)) = NotStarted \<and>
     pe_reader (ac_peer (hb_conns h c)) = Running \<and> pe_pong (ac_peer (hb_conns h c)) = None"

lemma idle_send: "idle_conn d (snd (conn_send pick now t v c h)) = idle_conn d h"
  by (auto simp: idle_conn_def conn_send_def Send_def stamp_def Let_def enqueue_def split: if_splits prod.splits)

lemma onRegister_idle:
  assumes "onRegister pick now env reg c h = (h', out)"
  shows "idle_conn d h' = idle_conn d h"
proof -
  have "idle_conn d (conn_close e g) = idle_conn d g" for e g
    by (simp add: idle_conn_def conn_close_def peer_Close_def)
  then have "idle_conn d (fst (hub_register c r g)) = idle_conn d g" for r g
    by (simp add: hub_register_def Let_def idle_conn_def split: option.split)
  then have reg: "idle_conn d g' = idle_conn d g" if "hub_register c r g = (g', evs)" for r g g' evs
    using that by (metis fst_conv)
  have "idle_conn d (upd_conn c (\<lambda>ac. ac\<lparr>ac_id := a, ac_host := b, ac_dport := p\<rparr>) h) = idle_conn d h" for a b p
    by (simp add: idle_conn_def)
  with assms show ?thesis
    by (auto simp: onRegister_def Let_def idle_send dest!: reg split: prod.splits simp del: fun_upd_apply)
qed

text \<open>One connection opens and registers.\<close>

lemma demo_join:
  assumes "hub_run '''' h live {}" and "hb_joinToken h = ''''" and "a \<noteq> ''''"
  shows "\<exists>h'. hub_run '''' h' (insert (hb_next h) live) {} \<and> hb_joinToken h' = '''' \<and>
     hb_next h' = Suc (hb_next h) \<and> hb_agents h' = (hb_agents h)(a \<mapsto> hb_next h) \<and>
     (\<forall>d. ac_id (hb_conns h' d) = (if d = hb_next h then a else ac_id (hb_conns h d))) \<and>
     (\<forall>d. idle_conn d h' \<longleftrightarrow> d = hb_next h \<or> idle_conn d h)"
proof -
  let ?c = "hb_next h"
  let ?h1 = "fst (snd (ServeAgent '''' ''peer'' True 0 h))"
  have acc: "ServeAgent '''' ''peer'' True 0 h = (Accepted ?c, ?h1, [])"
    using assms(2) by (simp add: ServeAgent_def Let_def)
  have h1: "hb_next ?h1 = Suc ?c" "hb_agents ?h1 = hb_agents h" "hb_joinToken ?h1 = ''''"
    "hb_conns ?h1 = (hb_conns h)(?c := zero_conn\<lparr>ac_remoteAddr := ''peer'', ac_joinedAt := 0\<rparr>)"
    using assms(2) by (simp_all add: ServeAgent_def Let_def)
  have idle: "idle_conn d ?h1 \<longleftrightarrow> d = ?c \<or> idle_conn d h" for d
    unfolding idle_conn_def h1 by (simp add: zero_conn_def NewPeer_def)
  obtain h2 out where m: "onMessage (\<lambda>_. None) False 0 ?c (demo_register a) ?h1 = (h2, out)"
    by (cases "onMessage (\<lambda>_. None) False 0 ?c (demo_register a) ?h1")
  have st: "steady ?c (demo_register a) ?h1"
    using assms(3) h1 by (auto simp: steady_def demo_register_decodes demo_register_type zero_conn_def)
  have reg: "onRegister False 0 (demo_register a) (zero_register\<lparr>rg_AgentID := a, rg_DataPort := 6000\<rparr>) ?c ?h1 = (h2, out)"
    using m by (simp add: onMessage_def demo_register_type demo_register_decodes)
  note eff = onRegister_effect [OF reg] and idle2 = onRegister_idle [OF reg]
  have tok: "hb_joinToken h2 = hb_joinToken ?h1"
    using m by (auto simp: onMessage_def demo_register_type demo_register_decodes onRegister_def Let_def
        hub_register_def conn_send_def conn_close_def split: option.splits if_splits prod.splits)
  have "hub_run '''' h2 (insert ?c live) {}"
    using hub_run.message [OF hub_run.accept [OF assms(1) acc] _ m] st by simp
  with eff h1 tok idle idle2 show ?thesis
    by (auto simp: demo_register_type zero_conn_def)
qed

text \<open>An idle connection breaks, both its pumps end, and its \<open>Run\<close> returns.\<close>

lemma demo_break:
  assumes "hub_run token h live fickle" and "c \<in> live" and "idle_conn c h"
  shows "\<exists>h'. hub_run token h' live fickle \<and> run_returned (ac_peer (hb_conns h' c)) \<and> same_registry h h'"
proof -
  let ?p = "ac_peer (hb_conns h c)"
  let ?w = "write_ping 0 (Some ''broken pipe'') ?p"
  let ?u = "\<lambda>p h. upd_conn c (\<lambda>ac. ac\<lparr>ac_peer := p\<rparr>) h"
  have w: "pe_writer ?w = Exited" "pe_reader ?w = Running" "pe_pong ?w = None"
    using assms(3) by (simp_all add: idle_conn_def write_ping_def sendPing_def pingFrame_def stamp_def Let_def
        writeFrame_def write_result_def)
  have 1: "hub_run token (?u ?w h) live fickle"
    by (rule hub_run.pump [OF assms(1,2) pump_step.start]) (use assms(3) in \<open>simp add: idle_conn_def\<close>)
  have "pump_step (ac_peer (hb_conns (?u ?w h) c)) [] (read_error ''EOF'' ?w)"
    using pump_step.read_fails [OF w(2,3)] by simp
  note 2 = hub_run.pump [OF 1 assms(2) this]
  have "run_returned (read_error ''EOF'' ?w)"
    using w by (simp add: run_returned_def read_error_def reader_exit_def)
  with 2 show ?thesis
    by (intro exI conjI) (auto intro: same_registry_trans)
qed

theorem registry_has_no_ghosts_witness:
  "\<exists>h. hub_run '''' h {1} {} \<and> hb_agents h ''a'' = Some 1 \<and> ac_id (hb_conns h 1) = ''a''"
proof -
  have 0: "hub_run '''' (NewHub '''') {} {}" by (rule hub_run.new)
  obtain h1 where 1: "hub_run '''' h1 {0} {}" "hb_joinToken h1 = ''''" "hb_next h1 = 1"
    "hb_agents h1 = [''a'' \<mapsto> 0]" "ac_id (hb_conns h1 0) = ''a''" "idle_conn 0 h1"
    using demo_join [OF 0, of "''a''"] by (auto simp: NewHub_def)
  obtain h2 where 2: "hub_run '''' h2 {1, 0} {}" "hb_agents h2 ''a'' = Some 1"
    "ac_id (hb_conns h2 0) = ''a''" "idle_conn 0 h2"
    using demo_join [OF 1(1,2), of "''a''"] 1 by auto
  obtain h3 where 3: "hub_run '''' h3 {1, 0} {}" "run_returned (ac_peer (hb_conns h3 0))" "same_registry h2 h3"
    using demo_break [OF 2(1) _ 2(4)] by auto
  then have agent: "hb_agents h3 ''a'' = Some 1" "ac_id (hb_conns h3 0) = ''a''"
    using 2(2,3) by (simp_all add: same_registry_def)
  obtain h4 out where e: "conn_ended 0 h3 = (h4, out)" by (cases "conn_ended 0 h3")
  with agent have "h4 = h3" by (auto simp: conn_ended_def unregister_def Let_def)
  moreover have "hub_run '''' h4 ({1, 0} - {0}) {}"
    using hub_run.ended [OF 3(1) _ 3(2) e] by simp
  moreover have "{1, 0} - {0} = {1 :: nat}" by auto
  ultimately have run: "hub_run '''' h3 {1} {}" by simp
  from registry_has_no_ghosts [OF run agent(1)] run agent(1) show ?thesis by blast
qed

text \<open>
  A command reaches its addressee and nobody else: in every history whose connections each announce one
  non-empty identity, sending to an agent either finds no registered connection and changes nothing, or involves exactly one live
  connection, the one that announced this identity; when the frame is accepted it is at the end of
  that connection's queue with the given type and payload.
\<close>

theorem command_reaches_addressee:
  assumes "hub_run token h live {}" and "SendTo pick now agent t v h = (r, h')"
  shows "if hb_agents h agent = None then r = None \<and> h' = h
     else \<exists>c \<in> live. ac_id (hb_conns h c) = agent \<and> (\<forall>d. d \<noteq> c \<longrightarrow> hb_conns h' d = hb_conns h d) \<and>
       (r = Some SendOk \<longrightarrow> (\<exists>b. pe_send (ac_peer (hb_conns h' c)) = pe_send (ac_peer (hb_conns h c)) @ [b] \<and>
          en_Type (frame_env b) = t \<and> en_Payload (frame_env b) = v))"
proof (cases "hb_agents h agent")
  case None
  with assms(2) show ?thesis by (simp add: SendTo_def)
next
  case (Some c)
  let ?p = "ac_peer (hb_conns h c)"
  obtain q p' where s: "Send pick now t v ?p = (q, p')"
    by (cases "Send pick now t v ?p")
  obtain b p1 where st: "stamp now t v ?p = (b, p1)"
    by (cases "stamp now t v ?p")
  have b: "en_Type (frame_env b) = t \<and> en_Payload (frame_env b) = v" "pe_send p1 = pe_send ?p"
    using st by (auto simp: stamp_def Let_def)
  have "q = SendOk \<longrightarrow> pe_send p' = pe_send ?p @ [b]"
    using s st b(2) by (auto simp: Send_def enqueue_def split: if_splits)
  with b(1) have ok: "q = SendOk \<longrightarrow> (\<exists>b. pe_send p' = pe_send ?p @ [b] \<and> en_Type (frame_env b) = t \<and>
      en_Payload (frame_env b) = v)"
    by blast
  have "r = Some q" "h' = upd_conn c (\<lambda>ac. ac\<lparr>ac_peer := p'\<rparr>) h"
    using assms(2) Some s by (auto simp: SendTo_def conn_send_def)
  moreover have "c \<in> live" "ac_id (hb_conns h c) = agent"
    using hub_run_ok [OF assms(1)] Some by (auto simp: registry_ok_def)
  ultimately show ?thesis
    using ok Some by (auto intro!: bexI [of _ c])
qed

theorem command_reaches_addressee_witness:
  "SendTo False 0 ''b'' TypeTestStop None (NewHub '''') = (None, NewHub '''')"
  using command_reaches_addressee [OF hub_run.new, of False 0 "''b''" TypeTestStop None "''''"]
  by (simp add: NewHub_def surjective_pairing [symmetric] prod_eq_iff)

text \<open>
  The join token: with a token configured, exactly the upgrade requests that present it,
  byte for byte, get past the gate; a refused request changes nothing in the hub and is
  logged as one AUTH\_REJECTED event.
\<close>

theorem join_token_gate:
  "if hb_joinToken h \<noteq> '''' \<and> got \<noteq> hb_joinToken h
   then \<exists>e. ServeAgent got remote upgrade now h = (Refused 403, h, [OutEvent e]) \<and> ev_Type e = AuthRejected
   else \<forall>n. fst (ServeAgent got remote upgrade now h) \<noteq> Refused n"
  using ct_compare_strings [of got "hb_joinToken h"]
  by (auto simp: ServeAgent_def Let_def event0_def simp del: One_nat_def)

text \<open>Outside the well-behaved histories: a connection that registers twice under different names leaves
  its first name in the registry when it ends.\<close>

lemma renamed_agent_lingers:
  assumes "a \<noteq> b" and "a \<noteq> ''''" and "b \<noteq> ''''" and "hb_joinToken h = ''''" and "hb_agents h = Map.empty"
  defines "c \<equiv> hb_next h"
  defines "h1 \<equiv> fst (snd (ServeAgent '''' ''peer'' True 0 h))"
  defines "h2 \<equiv> fst (onMessage (\<lambda>_. None) False 0 c (demo_register a) h1)"
  defines "h3 \<equiv> fst (onMessage (\<lambda>_. None) False 0 c (demo_register b) h2)"
  shows "hb_agents (fst (conn_ended c h3)) = [a \<mapsto> c]"
proof -
  have h1: "hb_agents h1 = Map.empty"
    using assms by (simp add: ServeAgent_def Let_def)
  have reg: "fst (onMessage (\<lambda>_. None) False 0 c (demo_register x) g) =
      fst (onRegister False 0 (demo_register x) (zero_register\<lparr>rg_AgentID := x, rg_DataPort := 6000\<rparr>) c g)" for x g
    by (simp add: onMessage_def demo_register_type demo_register_decodes)
  have eff: "hb_agents (fst (onMessage (\<lambda>_. None) False 0 c (demo_register x) g)) = (hb_agents g)(x \<mapsto> c) \<and>
      ac_id (hb_conns (fst (onMessage (\<lambda>_. None) False 0 c (demo_register x) g)) c) = x" for x g
    using onRegister_effect [OF surjective_pairing, of False 0 "demo_register x"
        "zero_register\<lparr>rg_AgentID := x, rg_DataPort := 6000\<rparr>" c g]
    by (simp add: reg demo_register_type)
  have "hb_agents h3 = [a \<mapsto> c, b \<mapsto> c]" "ac_id (hb_conns h3 c) = b"
    using eff h1 by (simp_all add: h3_def h2_def)
  with assms(1,3) show ?thesis
    by (simp add: conn_ended_def unregister_def Let_def fun_upd_twist)
qed

end
