(* ===== verification/FlowPlans.thy ===== *)
theory FlowPlans
  imports FlowStore AdminStore Hub
begin

text \<open>
  \<open>buildFlowPlans\<close> of \<open>internal/controller/controller.go\<close>: from the operator's flows, the settings
  and the connected agents to one plan per agent.  The iteration order of the Go map of
  listen ports is the parameter \<open>perm\<close>.
\<close>

definition agent_host :: "agent_info \<Rightarrow> string" where
  "agent_host ai = (case split_host_port (ai_RemoteAddr ai) of None \<Rightarrow> ai_RemoteAddr ai | Some (h, _) \<Rightarrow> h)"

definition ip_by_id :: "agent_info list \<Rightarrow> string \<rightharpoonup> string" where
  "ip_by_id infos = fold (\<lambda>ai m. m(ai_ID ai \<mapsto> agent_host ai)) infos Map.empty"

definition enabled_by_id :: "admin_store \<Rightarrow> agent_info list \<Rightarrow> string \<rightharpoonup> bool" where
  "enabled_by_id adm infos = fold (\<lambda>ai m. m(ai_ID ai \<mapsto> cg_Enabled (admin_get (ai_ID ai) adm))) infos Map.empty"

record build_plan =
  bp_flows :: "agent_flow list"
  bp_listen :: "(int \<times> listen_port) list"

definition get_plan :: "(string \<rightharpoonup> build_plan) \<Rightarrow> string \<Rightarrow> build_plan" where
  "get_plan plans a = (case plans a of None \<Rightarrow> \<lparr>bp_flows = [], bp_listen = []\<rparr> | Some p \<Rightarrow> p)"

definition add_flow :: "agent_flow \<Rightarrow> build_plan \<Rightarrow> build_plan" where
  "add_flow af p = p\<lparr>bp_flows := bp_flows p @ [af]\<rparr>"

text \<open>The entry for the destination port, created when missing, with the protocol marked.\<close>

definition listen_entry :: "flow \<Rightarrow> (int \<times> listen_port) list \<Rightarrow> listen_port" where
  "listen_entry f l = (case map_of l (fl_DstPort f) of
     None \<Rightarrow> \<lparr>lp_Port = fl_DstPort f, lp_UDP = False, lp_TCP = False\<rparr> | Some lp \<Rightarrow> lp)"

definition mark_listen :: "flow \<Rightarrow> listen_port \<Rightarrow> listen_port" where
  "mark_listen f lp = (if fl_Protocol f = UDP then lp\<lparr>lp_UDP := True\<rparr>
     else if fl_Protocol f = TCP then lp\<lparr>lp_TCP := True\<rparr> else lp)"

definition add_listen :: "flow \<Rightarrow> build_plan \<Rightarrow> build_plan" where
  "add_listen f p = p\<lparr>bp_listen :=
     AList.update (fl_DstPort f) (mark_listen f (listen_entry f (bp_listen p))) (bp_listen p)\<rparr>"

definition agent_flow_of :: "string \<Rightarrow> flow \<Rightarrow> agent_flow" where
  "agent_flow_of dstIP f =
     \<lparr>af_ID = fl_ID f, af_SrcPort = fl_SrcPort f, af_Protocol = fl_Protocol f, af_DstAgent = fl_DstAgent f,
      af_DstAddr = (if profile_HasPorts (fl_Protocol f)
                    then join_host_port dstIP (strconv_itoa (fl_DstPort f)) else dstIP),
      af_DstPort = fl_DstPort f\<rparr>"

text \<open>One round of the loop over the flows.\<close>

definition plan_flow ::
  "(string \<rightharpoonup> string) \<Rightarrow> (string \<rightharpoonup> bool) \<Rightarrow> flow \<Rightarrow> (string \<rightharpoonup> build_plan) \<times> nat \<Rightarrow>
   (string \<rightharpoonup> build_plan) \<times> nat" where
  "plan_flow ip enabled f pt =
     (case pt of (plans, n) \<Rightarrow>
        if \<not> fl_Enabled f \<or> fl_SrcAgent f = fl_DstAgent f \<or> enabled (fl_SrcAgent f) \<noteq> Some True \<or>
           enabled (fl_DstAgent f) \<noteq> Some True then (plans, n)
        else case ip (fl_DstAgent f) of None \<Rightarrow> (plans, n)
        | Some dstIP \<Rightarrow>
            if ip (fl_SrcAgent f) = None then (plans, n)
            else
              let src = fl_SrcAgent f; dst = fl_DstAgent f;
                  plans1 = plans(src \<mapsto> add_flow (agent_flow_of dstIP f) (get_plan plans src));
                  plans2 = (if profile_HasPorts (fl_Protocol f)
                            then plans1(dst \<mapsto> add_listen f (get_plan plans1 dst)) else plans1) in
              (plans2, n + 1))"

definition finish_plan :: "(listen_port list \<Rightarrow> listen_port list) \<Rightarrow> u64 \<Rightarrow> build_plan \<Rightarrow> flow_plan" where
  "finish_plan perm epoch p =
     \<lparr>fp_Epoch = epoch, fp_ListenPorts = perm (map snd (bp_listen p)), fp_Flows = bp_flows p\<rparr>"

definition buildFlowPlans ::
  "(listen_port list \<Rightarrow> listen_port list) \<Rightarrow> int \<Rightarrow> agent_info list \<Rightarrow> admin_store \<Rightarrow> flow list \<Rightarrow>
   (string \<rightharpoonup> flow_plan) \<times> nat" where
  "buildFlowPlans perm now infos adm flows =
     (case fold (plan_flow (ip_by_id infos) (enabled_by_id adm infos)) flows (Map.empty, 0) of
        (plans, n) \<Rightarrow>
          (\<lambda>a. map_option (finish_plan perm (word_of_int (now div 10 ^ 9))) (plans a), n))"

text \<open>The entry of the result for an agent, the zero plan when there is none.\<close>

definition plan_for :: "(string \<rightharpoonup> flow_plan) \<Rightarrow> string \<Rightarrow> flow_plan" where
  "plan_for plans a = (case plans a of None \<Rightarrow> \<lparr>fp_Epoch = 0, fp_ListenPorts = [], fp_Flows = []\<rparr> | Some p \<Rightarrow> p)"

subsection \<open>The specification\<close>

text \<open>The flows that take part, and what an agent has to do for them.\<close>

definition taking_part :: "agent_info list \<Rightarrow> admin_store \<Rightarrow> flow \<Rightarrow> bool" where
  "taking_part infos adm f \<longleftrightarrow> fl_Enabled f \<and> fl_SrcAgent f \<noteq> fl_DstAgent f \<and>
     (\<forall>a \<in> {fl_SrcAgent f, fl_DstAgent f}. a \<in> ai_ID ` set infos \<and> cg_Enabled (admin_get a adm))"

definition wants_port :: "flow list \<Rightarrow> string \<Rightarrow> profile \<Rightarrow> int \<Rightarrow> bool" where
  "wants_port fs a p port \<longleftrightarrow> (\<exists>f \<in> set fs. fl_DstAgent f = a \<and> fl_Protocol f = p \<and> fl_DstPort f = port)"

lemma enabled_by_id_iff:
  "enabled_by_id adm infos a = Some b \<longleftrightarrow> a \<in> ai_ID ` set infos \<and> b = cg_Enabled (admin_get a adm)"
proof -
  have "fold (\<lambda>ai m. m(ai_ID ai \<mapsto> cg_Enabled (admin_get (ai_ID ai) adm))) infos m a =
      (if a \<in> ai_ID ` set infos then Some (cg_Enabled (admin_get a adm)) else m a)" for m
    by (induction infos arbitrary: m) auto
  then show ?thesis by (auto simp: enabled_by_id_def)
qed

lemma ip_by_id_dom: "ip_by_id infos a \<noteq> None \<longleftrightarrow> a \<in> ai_ID ` set infos"
proof -
  have "fold (\<lambda>ai m. m(ai_ID ai \<mapsto> agent_host ai)) infos m a \<noteq> None \<longleftrightarrow> a \<in> ai_ID ` set infos \<or> m a \<noteq> None" for m
    by (induction infos arbitrary: m) auto
  then show ?thesis by (simp add: ip_by_id_def)
qed

lemma ip_by_id_distinct:
  "distinct (map ai_ID infos) \<Longrightarrow> ai \<in> set infos \<Longrightarrow> ip_by_id infos (ai_ID ai) = Some (agent_host ai)"
proof -
  have *: "distinct (map ai_ID infos) \<Longrightarrow> ai \<in> set infos \<Longrightarrow>
      fold (\<lambda>ai m. m(ai_ID ai \<mapsto> agent_host ai)) infos m (ai_ID ai) = Some (agent_host ai)" for m
  proof (induction infos arbitrary: m)
    case (Cons x xs)
    have out: "a \<notin> ai_ID ` set xs \<Longrightarrow> fold (\<lambda>ai m. m(ai_ID ai \<mapsto> agent_host ai)) xs m a = m a" for m a
      by (induction xs arbitrary: m) auto
    show ?case
    proof (cases "ai = x")
      case True
      with Cons.prems out [of "ai_ID x" "m(ai_ID x \<mapsto> agent_host x)"] show ?thesis
        by (simp del: fun_upd_apply) (simp add: fun_upd_same)
    next
      case False
      with Cons.prems Cons.IH show ?thesis by simp
    qed
  qed simp
  then show "distinct (map ai_ID infos) \<Longrightarrow> ai \<in> set infos \<Longrightarrow> ip_by_id infos (ai_ID ai) = Some (agent_host ai)"
    by (simp add: ip_by_id_def)
qed

subsection \<open>The loop\<close>

text \<open>What the accumulated plans say about the flows seen so far.\<close>

definition listens :: "(int \<times> listen_port) list \<Rightarrow> profile \<Rightarrow> int \<Rightarrow> bool" where
  "listens l p port \<longleftrightarrow> (\<exists>lp. map_of l port = Some lp \<and> (p = UDP \<and> lp_UDP lp \<or> p = TCP \<and> lp_TCP lp))"

definition plans_ok :: "(string \<rightharpoonup> string) \<Rightarrow> flow list \<Rightarrow> (string \<rightharpoonup> build_plan) \<Rightarrow> bool" where
  "plans_ok ip fs plans \<longleftrightarrow> (\<forall>a.
     bp_flows (get_plan plans a) =
       map (\<lambda>f. agent_flow_of (the (ip (fl_DstAgent f))) f) (filter (\<lambda>f. fl_SrcAgent f = a) fs) \<and>
     distinct (map fst (bp_listen (get_plan plans a))) \<and>
     (\<forall>port lp. (port, lp) \<in> set (bp_listen (get_plan plans a)) \<longrightarrow> lp_Port lp = port) \<and>
     (\<forall>p port. listens (bp_listen (get_plan plans a)) p port \<longleftrightarrow> profile_HasPorts p \<and> wants_port fs a p port) \<and>
     (\<forall>port. port \<in> fst ` set (bp_listen (get_plan plans a)) \<longleftrightarrow>
        (\<exists>p. profile_HasPorts p \<and> wants_port fs a p port)))"

lemma get_plan_upd [simp]: "get_plan (plans(a \<mapsto> p)) b = (if b = a then p else get_plan plans b)"
  by (simp add: get_plan_def)

lemma listens_update:
  "listens (AList.update port lp l) p port' \<longleftrightarrow>
   (if port' = port then p = UDP \<and> lp_UDP lp \<or> p = TCP \<and> lp_TCP lp else listens l p port')"
  by (auto simp: listens_def update_conv')

lemma set_update_subset: "set (AList.update k v l) \<subseteq> insert (k, v) (set l)"
  by (induction l) auto

lemma wants_port_snoc:
  "wants_port (fs @ [f]) a p port \<longleftrightarrow>
   wants_port fs a p port \<or> fl_DstAgent f = a \<and> fl_Protocol f = p \<and> fl_DstPort f = port"
  by (auto simp: wants_port_def)

lemma add_listen_sel [simp]:
  "bp_flows (add_listen f p) = bp_flows p"
  "bp_listen (add_listen f p) =
     AList.update (fl_DstPort f) (mark_listen f (listen_entry f (bp_listen p))) (bp_listen p)"
  by (simp_all add: add_listen_def)

lemma add_flow_sel [simp]: "bp_flows (add_flow af p) = bp_flows p @ [af]" "bp_listen (add_flow af p) = bp_listen p"
  by (simp_all add: add_flow_def)

lemma add_listen_listens:
  "profile_HasPorts (fl_Protocol f) \<Longrightarrow>
   listens (bp_listen (add_listen f p)) q port \<longleftrightarrow>
   listens (bp_listen p) q port \<or> q = fl_Protocol f \<and> port = fl_DstPort f"
  unfolding add_listen_sel listens_update
  by (auto simp: listens_def profile_HasPorts_def mark_listen_def listen_entry_def split: option.splits)

lemma add_listen_keys:
  "fst ` set (bp_listen (add_listen f p)) = insert (fl_DstPort f) (fst ` set (bp_listen p))"
  by (simp add: dom_update)

lemma add_listen_distinct:
  "distinct (map fst (bp_listen p)) \<Longrightarrow> distinct (map fst (bp_listen (add_listen f p)))"
  by (simp add: distinct_update)

lemma add_listen_ports:
  assumes "\<forall>port lp. (port, lp) \<in> set (bp_listen p) \<longrightarrow> lp_Port lp = port"
    and "(port, lp) \<in> set (bp_listen (add_listen f p))"
  shows "lp_Port lp = port"
proof -
  have "lp_Port (mark_listen f (listen_entry f (bp_listen p))) = fl_DstPort f"
    using assms(1) by (auto simp: mark_listen_def listen_entry_def split: option.splits dest: map_of_SomeD)
  with assms set_update_subset [of "fl_DstPort f" _ "bp_listen p"] show ?thesis
    by fastforce
qed

text \<open>Entries by port, looked up or searched.\<close>

lemma entries_by_port:
  assumes "distinct (map fst l)" and "\<forall>port lp. (port, lp) \<in> set l \<longrightarrow> lp_Port lp = port"
  shows "(\<exists>lp \<in> snd ` set l. lp_Port lp = port \<and> P lp) \<longleftrightarrow> (\<exists>lp. map_of l port = Some lp \<and> P lp)"
  using assms map_of_eq_Some_iff [OF assms(1)] by fastforce

lemma plans_ok_empty: "plans_ok ip [] Map.empty"
  by (simp add: plans_ok_def get_plan_def listens_def wants_port_def)

lemma plans_ok_add:
  assumes ok: "plans_ok ip fs plans" and neq: "fl_SrcAgent f \<noteq> fl_DstAgent f"
    and ip: "ip (fl_DstAgent f) = Some dstIP"
  defines "p1 \<equiv> plans(fl_SrcAgent f \<mapsto> add_flow (agent_flow_of dstIP f) (get_plan plans (fl_SrcAgent f)))"
  shows "plans_ok ip (fs @ [f]) (if profile_HasPorts (fl_Protocol f)
     then p1(fl_DstAgent f \<mapsto> add_listen f (get_plan p1 (fl_DstAgent f))) else p1)"
    (is "plans_ok ip _ ?p2")
  unfolding plans_ok_def
proof (intro allI conjI)
  fix a
  let ?old = "get_plan plans a" and ?new = "get_plan ?p2 a"
  note okD = ok [unfolded plans_ok_def, rule_format, of a]
  have fl: "bp_flows ?new = bp_flows ?old @ (if a = fl_SrcAgent f then [agent_flow_of dstIP f] else [])"
    using neq by (simp add: p1_def)
  have ls: "bp_listen ?new = (if profile_HasPorts (fl_Protocol f) \<and> a = fl_DstAgent f
      then bp_listen (add_listen f ?old) else bp_listen ?old)"
    using neq by (simp add: p1_def)
  show "bp_flows ?new = map (\<lambda>f. agent_flow_of (the (ip (fl_DstAgent f))) f)
      (filter (\<lambda>f. fl_SrcAgent f = a) (fs @ [f]))"
    using okD ip fl by auto
  show "distinct (map fst (bp_listen ?new))"
    unfolding ls using okD add_listen_distinct [of ?old f] by (auto simp del: add_listen_sel)
  show "(port, lp) \<in> set (bp_listen ?new) \<longrightarrow> lp_Port lp = port" for port lp
    unfolding ls using okD add_listen_ports [of ?old port lp f] by (auto simp del: add_listen_sel)
  show "listens (bp_listen ?new) p port \<longleftrightarrow> profile_HasPorts p \<and> wants_port (fs @ [f]) a p port" for p port
    unfolding ls using okD by (auto simp: wants_port_snoc add_listen_listens simp del: add_listen_sel)
  show "port \<in> fst ` set (bp_listen ?new) \<longleftrightarrow>
      (\<exists>p. profile_HasPorts p \<and> wants_port (fs @ [f]) a p port)" for port
    unfolding ls using okD by (auto simp: wants_port_snoc add_listen_keys simp del: add_listen_sel)
qed

lemma plan_flow_step:
  assumes "plans_ok (ip_by_id infos) fs plans"
  shows "case plan_flow (ip_by_id infos) (enabled_by_id adm infos) f (plans, n) of (plans', n') \<Rightarrow>
     (if taking_part infos adm f then plans_ok (ip_by_id infos) (fs @ [f]) plans' \<and> n' = n + 1
      else plans' = plans \<and> n' = n)"
proof (cases "taking_part infos adm f")
  case True
  then have e: "enabled_by_id adm infos (fl_SrcAgent f) = Some True"
    "enabled_by_id adm infos (fl_DstAgent f) = Some True"
    by (auto simp: taking_part_def enabled_by_id_iff)
  have "ip_by_id infos (fl_SrcAgent f) \<noteq> None" "ip_by_id infos (fl_DstAgent f) \<noteq> None"
    using True by (auto simp: taking_part_def ip_by_id_dom simp del: not_None_eq)
  then obtain dstIP where ip: "ip_by_id infos (fl_DstAgent f) = Some dstIP" "ip_by_id infos (fl_SrcAgent f) \<noteq> None"
    by blast
  have "fl_Enabled f" "fl_SrcAgent f \<noteq> fl_DstAgent f"
    using True by (simp_all add: taking_part_def)
  with plans_ok_add [OF assms this(2) ip(1)] e ip True show ?thesis
    by (auto simp: plan_flow_def Let_def)
next
  case False
  then have "\<not> fl_Enabled f \<or> fl_SrcAgent f = fl_DstAgent f \<or>
      enabled_by_id adm infos (fl_SrcAgent f) \<noteq> Some True \<or> enabled_by_id adm infos (fl_DstAgent f) \<noteq> Some True"
    by (auto simp: taking_part_def enabled_by_id_iff)
  with False show ?thesis
    by (auto simp: plan_flow_def)
qed

lemma plan_flow_fold:
  assumes "plans_ok (ip_by_id infos) fs0 plans"
    and "fold (plan_flow (ip_by_id infos) (enabled_by_id adm infos)) fs (plans, n) = (plans', n')"
  shows "plans_ok (ip_by_id infos) (fs0 @ filter (taking_part infos adm) fs) plans' \<and>
     n' = n + length (filter (taking_part infos adm) fs)"
  using assms
proof (induction fs arbitrary: fs0 plans n)
  case (Cons f fs)
  obtain p1 n1 where s: "plan_flow (ip_by_id infos) (enabled_by_id adm infos) f (plans, n) = (p1, n1)"
    by (cases "plan_flow (ip_by_id infos) (enabled_by_id adm infos) f (plans, n)")
  with Cons.prems(2) have r: "fold (plan_flow (ip_by_id infos) (enabled_by_id adm infos)) fs (p1, n1) = (plans', n')"
    by simp
  show ?case
  proof (cases "taking_part infos adm f")
    case True
    with plan_flow_step [OF Cons.prems(1), of adm f n] s
    have "plans_ok (ip_by_id infos) (fs0 @ [f]) p1" "n1 = n + 1" by simp_all
    with Cons.IH [OF this(1) r] True show ?thesis by simp
  next
    case False
    with plan_flow_step [OF Cons.prems(1), of adm f n] s have "p1 = plans" "n1 = n" by simp_all
    with Cons.IH [OF Cons.prems(1)] r False show ?thesis by simp
  qed
qed simp

subsection \<open>Properties\<close>

lemma plan_contents:
  assumes "\<And>xs. set (perm xs) = set xs" and "buildFlowPlans perm now infos adm flows = (plans, n)"
  defines "fs \<equiv> filter (taking_part infos adm) flows"
  shows "n = length fs \<and>
     fp_Flows (plan_for plans a) =
       map (\<lambda>f. agent_flow_of (the (ip_by_id infos (fl_DstAgent f))) f) (filter (\<lambda>f. fl_SrcAgent f = a) fs) \<and>
     (\<forall>p port. (\<exists>lp \<in> set (fp_ListenPorts (plan_for plans a)). lp_Port lp = port \<and>
          (p = UDP \<and> lp_UDP lp \<or> p = TCP \<and> lp_TCP lp)) \<longleftrightarrow>
        profile_HasPorts p \<and> wants_port fs a p port) \<and>
     (\<forall>lp \<in> set (fp_ListenPorts (plan_for plans a)).
        \<exists>p. profile_HasPorts p \<and> wants_port fs a p (lp_Port lp)) \<and>
     (\<forall>lp \<in> set (fp_ListenPorts (plan_for plans a)). \<forall>lp' \<in> set (fp_ListenPorts (plan_for plans a)).
        lp_Port lp = lp_Port lp' \<longrightarrow> lp = lp')"
proof -
  obtain bps m where f: "fold (plan_flow (ip_by_id infos) (enabled_by_id adm infos)) flows (Map.empty, 0) = (bps, m)"
    by (cases "fold (plan_flow (ip_by_id infos) (enabled_by_id adm infos)) flows (Map.empty, 0)")
  from plan_flow_fold [OF plans_ok_empty f] have ok: "plans_ok (ip_by_id infos) fs bps" and m: "m = length fs"
    by (simp_all add: fs_def)
  have pl: "plans = (\<lambda>a. map_option (finish_plan perm (word_of_int (now div 10 ^ 9))) (bps a))" "n = m"
    using assms(2) f by (auto simp: buildFlowPlans_def)
  have flows: "fp_Flows (plan_for plans a) = bp_flows (get_plan bps a)"
    by (simp add: pl plan_for_def get_plan_def finish_plan_def split: option.splits)
  have ports: "set (fp_ListenPorts (plan_for plans a)) = snd ` set (bp_listen (get_plan bps a))"
    using assms(1) by (simp add: pl plan_for_def get_plan_def finish_plan_def split: option.splits)
  note okD = ok [unfolded plans_ok_def, rule_format, of a]
  have key: "(\<exists>lp \<in> snd ` set (bp_listen (get_plan bps a)). lp_Port lp = port \<and>
          (p = UDP \<and> lp_UDP lp \<or> p = TCP \<and> lp_TCP lp)) \<longleftrightarrow> listens (bp_listen (get_plan bps a)) p port" for p port
    unfolding listens_def by (rule entries_by_port) (use okD in auto)
  have "\<exists>p. profile_HasPorts p \<and> wants_port fs a p (lp_Port lp)"
    if lp: "lp \<in> snd ` set (bp_listen (get_plan bps a))" for lp
  proof -
    obtain port where e: "(port, lp) \<in> set (bp_listen (get_plan bps a))" using lp by auto
    have p: "port \<in> fst ` set (bp_listen (get_plan bps a))"
      using e by (rule rev_image_eqI) simp
    have l: "lp_Port lp = port"
      using okD e by blast
    have "\<forall>port. port \<in> fst ` set (bp_listen (get_plan bps a)) \<longleftrightarrow>
        (\<exists>p. profile_HasPorts p \<and> wants_port fs a p port)"
      using okD by simp
    with p l show ?thesis by simp
  qed
  moreover have "lp = lp'" if "lp \<in> snd ` set (bp_listen (get_plan bps a))"
    "lp' \<in> snd ` set (bp_listen (get_plan bps a))" "lp_Port lp = lp_Port lp'" for lp lp'
    using that okD by (auto dest: eq_key_imp_eq_value)
  ultimately show ?thesis
    using okD key flows ports pl(2) m by simp
qed

lemma plans_carry_out_flows_parts:
  assumes "\<And>xs. set (perm xs) = set xs" and "buildFlowPlans perm now infos adm flows = (plans, n)"
  shows "n = length (filter (taking_part infos adm) flows)"
    and "map af_ID (fp_Flows (plan_for plans a)) =
       map fl_ID (filter (\<lambda>f. taking_part infos adm f \<and> fl_SrcAgent f = a) flows)"
    and "(\<exists>lp \<in> set (fp_ListenPorts (plan_for plans a)). lp_Port lp = port \<and>
          (p = UDP \<and> lp_UDP lp \<or> p = TCP \<and> lp_TCP lp)) \<longleftrightarrow>
        profile_HasPorts p \<and> wants_port (filter (taking_part infos adm) flows) a p port"
    and "\<forall>lp \<in> set (fp_ListenPorts (plan_for plans a)).
        \<exists>p. profile_HasPorts p \<and> wants_port (filter (taking_part infos adm) flows) a p (lp_Port lp)"
proof -
  note pc = plan_contents [OF assms, of a]
  show "n = length (filter (taking_part infos adm) flows)" using pc by simp
  show "map af_ID (fp_Flows (plan_for plans a)) =
       map fl_ID (filter (\<lambda>f. taking_part infos adm f \<and> fl_SrcAgent f = a) flows)"
    using pc by (simp add: agent_flow_of_def o_def conj_commute)
  show "(\<exists>lp \<in> set (fp_ListenPorts (plan_for plans a)). lp_Port lp = port \<and>
          (p = UDP \<and> lp_UDP lp \<or> p = TCP \<and> lp_TCP lp)) \<longleftrightarrow>
        profile_HasPorts p \<and> wants_port (filter (taking_part infos adm) flows) a p port"
    using pc by blast
  show "\<forall>lp \<in> set (fp_ListenPorts (plan_for plans a)).
        \<exists>p. profile_HasPorts p \<and> wants_port (filter (taking_part infos adm) flows) a p (lp_Port lp)"
    using pc by blast
qed

text \<open>
  C14: The plans carry out the operator's flows.  The total is the number of flows that are enabled
  and join two different agents, both connected and enabled; an agent originates exactly those
  of them that start at it, in the operator's order; and it listens on a port for UDP or TCP
  exactly if one of them ends at it on that port with that protocol, and on no other port.
\<close>

theorem plans_carry_out_flows:
  assumes "\<And>xs. set (perm xs) = set xs" and "buildFlowPlans perm now infos adm flows = (plans, n)"
  shows "(n = length (filter (taking_part infos adm) flows)) \<and>
     (map af_ID (fp_Flows (plan_for plans a)) =
       map fl_ID (filter (\<lambda>f. taking_part infos adm f \<and> fl_SrcAgent f = a) flows)) \<and>
     ((\<exists>lp \<in> set (fp_ListenPorts (plan_for plans a)). lp_Port lp = port \<and>
          (p = UDP \<and> lp_UDP lp \<or> p = TCP \<and> lp_TCP lp)) \<longleftrightarrow>
        profile_HasPorts p \<and> wants_port (filter (taking_part infos adm) flows) a p port) \<and>
     (\<forall>lp \<in> set (fp_ListenPorts (plan_for plans a)).
        \<exists>p. profile_HasPorts p \<and> wants_port (filter (taking_part infos adm) flows) a p (lp_Port lp))"
  by (intro conjI plans_carry_out_flows_parts [OF assms])

definition demo_info :: "string \<Rightarrow> string \<Rightarrow> agent_info" where
  "demo_info a addr = \<lparr>ai_ID = a, ai_Hostname = a, ai_RemoteAddr = addr, ai_DataPort = 6000, ai_JoinedAt = 0,
     ai_LastSeq = 0, ai_WSRttMicros = 0, ai_FramesRx = 0, ai_FramesTx = 0, ai_Ports = []\<rparr>"

definition demo_ab_flow :: flow where
  "demo_ab_flow = zero_flow\<lparr>fl_ID := ''f1'', fl_SrcAgent := ''a'', fl_DstAgent := ''b'', fl_Protocol := UDP,
     fl_DstPort := 7000, fl_Enabled := True\<rparr>"

theorem plans_carry_out_flows_witness:
  "\<exists>plans n. buildFlowPlans (\<lambda>xs. xs) 0 [demo_info ''a'' ''10.0.0.1:5000'', demo_info ''b'' ''10.0.0.2:5000'']
       (newAdminStore '''' None) [demo_ab_flow] = (plans, n) \<and> n = 1 \<and>
     (\<exists>lp \<in> set (fp_ListenPorts (plan_for plans ''b'')). lp_Port lp = 7000 \<and> (lp_UDP lp \<or> lp_TCP lp))"
proof -
  let ?is = "[demo_info ''a'' ''10.0.0.1:5000'', demo_info ''b'' ''10.0.0.2:5000'']"
  let ?adm = "newAdminStore '''' None"
  obtain plans n where b: "buildFlowPlans (\<lambda>xs. xs) 0 ?is ?adm [demo_ab_flow] = (plans, n)"
    by (cases "buildFlowPlans (\<lambda>xs. xs) 0 ?is ?adm [demo_ab_flow]")
  have "taking_part ?is ?adm demo_ab_flow"
    by (simp add: taking_part_def demo_ab_flow_def demo_info_def newAdminStore_def admin_load_def admin_get_def
        defaultConfig_def)
  then have "filter (taking_part ?is ?adm) [demo_ab_flow] = [demo_ab_flow]" by simp
  with plans_carry_out_flows [OF _ b] plans_carry_out_flows [OF _ b, of "''b''" 7000 UDP] b show ?thesis
    by (intro exI [of _ plans] exI [of _ n])
      (auto simp: wants_port_def demo_ab_flow_def profile_HasPorts_def)
qed


lemma probes_have_listeners_parts:
  assumes "\<And>xs. set (perm xs) = set xs" and "buildFlowPlans perm now infos adm flows = (plans, n)"
    and "af \<in> set (fp_Flows (plan_for plans a))" and "profile_HasPorts (af_Protocol af)"
    and "distinct (map ai_ID infos)"
  shows "\<exists>lp \<in> set (fp_ListenPorts (plan_for plans (af_DstAgent af))). lp_Port lp = af_DstPort af \<and>
      (af_Protocol af = UDP \<and> lp_UDP lp \<or> af_Protocol af = TCP \<and> lp_TCP lp)"
    and "\<exists>ai \<in> set infos. ai_ID ai = af_DstAgent af \<and> ai_ID ai \<noteq> a \<and>
      (\<forall>h p. ai_RemoteAddr ai = join_host_port h p \<and> plain_host h \<and> plain_port p \<longrightarrow>
        split_host_port (af_DstAddr af) = Some (h, strconv_itoa (af_DstPort af)))"
proof -
  let ?fs = "filter (taking_part infos adm) flows"
  obtain f where f: "f \<in> set ?fs" "fl_SrcAgent f = a"
    "af = agent_flow_of (the (ip_by_id infos (fl_DstAgent f))) f"
    using assms(3) plan_contents [OF assms(1,2), of a] by auto
  then have sel: "af_DstAgent af = fl_DstAgent f" "af_Protocol af = fl_Protocol f" "af_DstPort af = fl_DstPort f"
    by (simp_all add: agent_flow_of_def)
  have "wants_port ?fs (fl_DstAgent f) (fl_Protocol f) (fl_DstPort f)"
    using f(1) by (auto simp: wants_port_def)
  then show "\<exists>lp \<in> set (fp_ListenPorts (plan_for plans (af_DstAgent af))). lp_Port lp = af_DstPort af \<and>
      (af_Protocol af = UDP \<and> lp_UDP lp \<or> af_Protocol af = TCP \<and> lp_TCP lp)"
    using plan_contents [OF assms(1,2), of "af_DstAgent af"] assms(4) sel by simp
  obtain ai where ai: "ai \<in> set infos" "ai_ID ai = fl_DstAgent f" "ai_ID ai \<noteq> a"
    using f(1,2) by (auto simp: taking_part_def)
  have ip: "ip_by_id infos (fl_DstAgent f) = Some (agent_host ai)"
    using ip_by_id_distinct [OF assms(5) ai(1)] ai(2) by simp
  have "split_host_port (af_DstAddr af) = Some (h, strconv_itoa (af_DstPort af))"
    if "ai_RemoteAddr ai = join_host_port h p" "plain_host h" "plain_port p" for h p
    using that f(3) assms(4) sel ip
    by (simp add: agent_flow_of_def agent_host_def split_join_host_port plain_port_itoa)
  with ai sel show "\<exists>ai \<in> set infos. ai_ID ai = af_DstAgent af \<and> ai_ID ai \<noteq> a \<and>
      (\<forall>h p. ai_RemoteAddr ai = join_host_port h p \<and> plain_host h \<and> plain_port p \<longrightarrow>
        split_host_port (af_DstAddr af) = Some (h, strconv_itoa (af_DstPort af)))"
    by auto
qed

text \<open>
  C15: Every probe has a responder.  A UDP or TCP flow in some agent's plan names another connected
  agent whose plan lists the flow's port with the flow's protocol; and when that agent
  connected from a host and port, the address the flow is sent to is that host with the flow's
  port.
\<close>

theorem probes_have_listeners:
  assumes "\<And>xs. set (perm xs) = set xs" and "buildFlowPlans perm now infos adm flows = (plans, n)"
    and "af \<in> set (fp_Flows (plan_for plans a))" and "profile_HasPorts (af_Protocol af)"
    and "distinct (map ai_ID infos)"
  shows "(\<exists>lp \<in> set (fp_ListenPorts (plan_for plans (af_DstAgent af))). lp_Port lp = af_DstPort af \<and>
      (af_Protocol af = UDP \<and> lp_UDP lp \<or> af_Protocol af = TCP \<and> lp_TCP lp)) \<and>
     (\<exists>ai \<in> set infos. ai_ID ai = af_DstAgent af \<and> ai_ID ai \<noteq> a \<and>
      (\<forall>h p. ai_RemoteAddr ai = join_host_port h p \<and> plain_host h \<and> plain_port p \<longrightarrow>
        split_host_port (af_DstAddr af) = Some (h, strconv_itoa (af_DstPort af))))"
  by (intro conjI probes_have_listeners_parts [OF assms])

lemma demo_plans:
  "\<exists>plans n. buildFlowPlans (\<lambda>xs. xs) 0 [demo_info ''a'' ''10.0.0.1:5000'', demo_info ''b'' ''10.0.0.2:5000'']
       (newAdminStore '''' None) [demo_ab_flow] = (plans, n) \<and>
     fp_Flows (plan_for plans ''a'') = [agent_flow_of ''10.0.0.2'' demo_ab_flow]"
proof -
  let ?is = "[demo_info ''a'' ''10.0.0.1:5000'', demo_info ''b'' ''10.0.0.2:5000'']"
  let ?adm = "newAdminStore '''' None"
  obtain plans n where b: "buildFlowPlans (\<lambda>xs. xs) 0 ?is ?adm [demo_ab_flow] = (plans, n)"
    by (cases "buildFlowPlans (\<lambda>xs. xs) 0 ?is ?adm [demo_ab_flow]")
  have t: "taking_part ?is ?adm demo_ab_flow"
    by (simp add: taking_part_def demo_ab_flow_def demo_info_def newAdminStore_def admin_load_def admin_get_def
        defaultConfig_def)
  have "split_host_port ''10.0.0.2:5000'' = Some (''10.0.0.2'', ''5000'')" by code_simp
  then have "ip_by_id ?is ''b'' = Some ''10.0.0.2''"
    by (simp add: ip_by_id_def demo_info_def agent_host_def)
  with plan_contents [OF _ b, of "''a''"] t b show ?thesis
    by (intro exI [of _ plans] exI [of _ n]) (simp add: demo_ab_flow_def [THEN arg_cong, of fl_SrcAgent]
        demo_ab_flow_def [THEN arg_cong, of fl_DstAgent])
qed

theorem probes_have_listeners_witness:
  "\<exists>plans n. buildFlowPlans (\<lambda>xs. xs) 0 [demo_info ''a'' ''10.0.0.1:5000'', demo_info ''b'' ''10.0.0.2:5000'']
       (newAdminStore '''' None) [demo_ab_flow] = (plans, n) \<and>
     (\<exists>lp \<in> set (fp_ListenPorts (plan_for plans ''b'')). lp_Port lp = 7000)"
proof -
  obtain plans n where b: "buildFlowPlans (\<lambda>xs. xs) 0 [demo_info ''a'' ''10.0.0.1:5000'', demo_info ''b'' ''10.0.0.2:5000'']
       (newAdminStore '''' None) [demo_ab_flow] = (plans, n)"
    "fp_Flows (plan_for plans ''a'') = [agent_flow_of ''10.0.0.2'' demo_ab_flow]"
    using demo_plans by blast
  from probes_have_listeners [OF _ b(1), of "agent_flow_of ''10.0.0.2'' demo_ab_flow" "''a''"] b show ?thesis
    by (auto simp: agent_flow_of_def demo_ab_flow_def profile_HasPorts_def demo_info_def)
qed

end
