(* ===== verification/FlowEvents.thy ===== *)
theory FlowEvents
  imports AdminStore UIStream
begin

text \<open>
  The test-activity events of \<open>internal/controller/controller.go\<close>: the health of a flow, the
  events on its changes with their throttle, and the periodic summary.  Health is a
  datatype ordered by severity instead of the strings of the code.  Clock readings are inputs,
  and so is \<open>fmt\<close>, the text of a float with a number of decimals.
\<close>

subsection \<open>Health\<close>

datatype health = Healthy | Degraded | Critical

fun health_String :: "health \<Rightarrow> string" where
  "health_String Healthy = ''healthy''"
| "health_String Degraded = ''degraded''"
| "health_String Critical = ''critical''"

fun severity :: "health \<Rightarrow> nat" where
  "severity Healthy = 0"
| "severity Degraded = 1"
| "severity Critical = 2"

lemma severity_inject: "severity h = severity h' \<longleftrightarrow> h = h'"
  by (cases h; cases h') simp_all

instantiation health :: linorder
begin

definition less_eq_health :: "health \<Rightarrow> health \<Rightarrow> bool" where
  "h \<le> h' \<longleftrightarrow> severity h \<le> severity h'"

definition less_health :: "health \<Rightarrow> health \<Rightarrow> bool" where
  "h < h' \<longleftrightarrow> severity h < severity h'"

instance
  by standard (auto simp: less_eq_health_def less_health_def severity_inject)

end

lemma health_order [simp]:
  "Healthy \<le> h" "h \<le> Critical" "\<not> Degraded \<le> Healthy" "\<not> Critical \<le> Healthy" "\<not> Critical \<le> Degraded"
  by (cases h; simp add: less_eq_health_def)+

definition latency_ms :: "metric \<Rightarrow> rat" where
  "latency_ms m = rat_of_int (m_RTTMicros m) / 1000"

definition metricStatus :: "metric \<Rightarrow> health" where
  "metricStatus m =
     (if \<not> m_Success m \<or> m_PacketLoss m > 5 then Critical
      else if latency_ms m > 50 \<or> m_PacketLoss m \<ge> 1 then Degraded
      else Healthy)"

definition profDisplay :: "profile \<Rightarrow> string" where
  "profDisplay p = (if p = UDP then ''UDP'' else if p = TCP then ''TCP'' else if p = ICMP then ''ICMP'' else p)"

definition agentDisplay :: "string \<Rightarrow> admin_store \<Rightarrow> string" where
  "agentDisplay a s =
     (if a = '''' then a
      else if cg_Label (admin_get a s) \<noteq> '''' then cg_Label (admin_get a s) else a)"

subsection \<open>Events on changes of health\<close>

record flow_state =
  fw_status :: "string \<rightharpoonup> health"
  fw_lastEmit :: "string \<rightharpoonup> int"

definition resetFlows :: "flow_state" where
  "resetFlows = \<lparr>fw_status = Map.empty, fw_lastEmit = Map.empty\<rparr>"

definition flow_key :: "metric \<Rightarrow> string" where
  "flow_key m = m_AgentID m @ ''>'' @ m_PeerID m @ ''/'' @ m_Profile m @ ''/'' @ m_FlowID m"

definition last_emit :: "flow_state \<Rightarrow> string \<Rightarrow> int" where
  "last_emit st k = (case fw_lastEmit st k of None \<Rightarrow> 0 | Some t \<Rightarrow> t)"

text \<open>The separators of the messages are UTF-8: an arrow and a middle dot.\<close>

definition arrow :: string where
  "arrow = [CHR 0xE2, CHR 0x86, CHR 0x92]"

definition dot :: string where
  "dot = '' '' @ [CHR 0xC2, CHR 0xB7] @ '' ''"

definition change_event :: "(nat \<Rightarrow> rat \<Rightarrow> string) \<Rightarrow> admin_store \<Rightarrow> metric \<Rightarrow> health \<Rightarrow> event" where
  "change_event fmt adm m cur =
     (let flow = agentDisplay (m_AgentID m) adm @ arrow @ agentDisplay (m_PeerID m) adm @ '' '' @
            profDisplay (m_Profile m);
          (typ, detail) = (case cur of
            Healthy \<Rightarrow> (FlowRecovered, flow @ '' recovered'' @ dot @ fmt 1 (latency_ms m) @ ''ms'')
          | Critical \<Rightarrow> (FlowCritical, flow @ (if \<not> m_Success m then '' unreachable'' else '' critical'') @ dot @
              fmt 0 (m_PacketLoss m) @ ''% loss'')
          | Degraded \<Rightarrow> (FlowDegraded, flow @ '' degraded'' @ dot @ fmt 1 (latency_ms m) @ ''ms'' @ dot @
              fmt 1 (m_PacketLoss m) @ ''% loss'')) in
      (event0 typ)\<lparr>ev_AgentID := m_AgentID m, ev_PeerID := m_PeerID m, ev_Detail := detail\<rparr>)"

text \<open>One metric of the loop: the new state, and the key and event of a change to be emitted.\<close>

definition flow_change ::
  "(nat \<Rightarrow> rat \<Rightarrow> string) \<Rightarrow> admin_store \<Rightarrow> int \<Rightarrow> metric \<Rightarrow> flow_state \<Rightarrow> flow_state \<times> (string \<times> event) list" where
  "flow_change fmt adm now m st =
     (if m_PeerID m = '''' \<or> m_PeerID m = m_AgentID m then (st, [])
      else
        let k = flow_key m; cur = metricStatus m; prev = fw_status st k in
        if prev = Some cur then (st, [])
        else
          let st1 = st\<lparr>fw_status := (fw_status st)(k \<mapsto> cur)\<rparr> in
          if prev = None \<and> cur = Healthy then (st1, [])
          else if now - last_emit st1 k < 10000 then (st1, [])
          else (st1\<lparr>fw_lastEmit := (fw_lastEmit st1)(k \<mapsto> now)\<rparr>, [(k, change_event fmt adm m cur)]))"

fun flow_changes ::
  "(nat \<Rightarrow> rat \<Rightarrow> string) \<Rightarrow> admin_store \<Rightarrow> int \<Rightarrow> metric list \<Rightarrow> flow_state \<Rightarrow> flow_state \<times> (string \<times> event) list" where
  "flow_changes fmt adm now [] st = (st, [])"
| "flow_changes fmt adm now (m # ms) st =
     (case flow_change fmt adm now m st of (st1, out) \<Rightarrow>
        case flow_changes fmt adm now ms st1 of (st2, outs) \<Rightarrow> (st2, out @ outs))"

definition emitFlowTransitions ::
  "(nat \<Rightarrow> rat \<Rightarrow> string) \<Rightarrow> admin_store \<Rightarrow> int \<Rightarrow> metric list \<Rightarrow> flow_state \<Rightarrow> flow_state \<times> event list" where
  "emitFlowTransitions fmt adm now ms st =
     (case flow_changes fmt adm now ms st of (st', out) \<Rightarrow> (st', map snd out))"

subsection \<open>The summary\<close>

record mesh_counts =
  mc_healthy :: nat
  mc_degraded :: nat
  mc_critical :: nat
  mc_latN :: nat
  mc_latSum :: rat
  mc_lossSum :: rat

definition count_metric :: "metric \<Rightarrow> mesh_counts \<Rightarrow> mesh_counts" where
  "count_metric m c =
     (if m_PeerID m = '''' \<or> m_PeerID m = m_AgentID m then c
      else
        let c1 = (case metricStatus m of
              Healthy \<Rightarrow> c\<lparr>mc_healthy := mc_healthy c + 1\<rparr>
            | Degraded \<Rightarrow> c\<lparr>mc_degraded := mc_degraded c + 1\<rparr>
            | Critical \<Rightarrow> c\<lparr>mc_critical := mc_critical c + 1\<rparr>);
            c2 = (if m_Success m then c1\<lparr>mc_latSum := mc_latSum c1 + latency_ms m, mc_latN := mc_latN c1 + 1\<rparr>
                  else c1) in
        c2\<lparr>mc_lossSum := mc_lossSum c2 + m_PacketLoss m\<rparr>)"

definition mesh_counts_of :: "metric list \<Rightarrow> mesh_counts" where
  "mesh_counts_of ms = fold count_metric ms
     \<lparr>mc_healthy = 0, mc_degraded = 0, mc_critical = 0, mc_latN = 0, mc_latSum = 0, mc_lossSum = 0\<rparr>"

definition mesh_total :: "mesh_counts \<Rightarrow> nat" where
  "mesh_total c = mc_healthy c + mc_degraded c + mc_critical c"

definition mesh_avgLat :: "mesh_counts \<Rightarrow> rat" where
  "mesh_avgLat c = (if mc_latN c > 0 then mc_latSum c / rat_of_nat (mc_latN c) else 0)"

definition mesh_avgLoss :: "mesh_counts \<Rightarrow> rat" where
  "mesh_avgLoss c = mc_lossSum c / rat_of_nat (mesh_total c)"

text \<open>One tick of the loop on the snapshot of the store.\<close>

definition meshSummary :: "(nat \<Rightarrow> rat \<Rightarrow> string) \<Rightarrow> bool \<Rightarrow> metric list \<Rightarrow> event list" where
  "meshSummary fmt running ms =
     (let c = mesh_counts_of ms; num = (\<lambda>n. strconv_itoa (int n)) in
      if \<not> running \<or> mesh_total c = 0 then []
      else [(event0 MeshSummary)\<lparr>ev_Detail := ''probe cycle'' @ dot @ num (mesh_total c) @ '' flows'' @ dot @
              num (mc_healthy c) @ '' ok'' @ dot @ num (mc_degraded c) @ '' degraded'' @ dot @
              num (mc_critical c) @ '' critical'' @ dot @ ''avg '' @ fmt 1 (mesh_avgLat c) @ ''ms'' @ dot @
              fmt 1 (mesh_avgLoss c) @ ''% loss''\<rparr>])"

subsection \<open>The classification\<close>

definition loss_level :: "rat \<Rightarrow> health" where
  "loss_level q = (if q > 5 then Critical else if q \<ge> 1 then Degraded else Healthy)"

definition latency_level :: "int \<Rightarrow> health" where
  "latency_level us = (if us > 50000 then Degraded else Healthy)"

text \<open>
  The health of a flow is its worst criterion: the most severe of reachability (a failed probe
  is critical), loss (above 5 percent critical, from 1 percent degraded) and latency (above 50
  ms degraded).  So a measurement that is worse in every respect is never classed
  healthier.
\<close>

theorem status_is_worst_criterion:
  "metricStatus m = max (if m_Success m then Healthy else Critical)
     (max (loss_level (m_PacketLoss m)) (latency_level (m_RTTMicros m)))"
proof -
  have "latency_ms m > 50 \<longleftrightarrow> m_RTTMicros m > 50000"
    by (simp add: latency_ms_def field_simps flip: of_int_less_iff)
  then show ?thesis
    by (auto simp: metricStatus_def loss_level_def latency_level_def max_def)
qed

subsection \<open>The latest status is kept\<close>

definition mesh_metric :: "metric \<Rightarrow> bool" where
  "mesh_metric m \<longleftrightarrow> m_PeerID m \<noteq> '''' \<and> m_PeerID m \<noteq> m_AgentID m"

lemma flow_change_status:
  "flow_change fmt adm now m st = (st', out) \<Longrightarrow>
   fw_status st' = (if mesh_metric m then (fw_status st)(flow_key m \<mapsto> metricStatus m) else fw_status st)"
  by (auto simp: flow_change_def mesh_metric_def Let_def split: if_splits)

text \<open>
  The controller knows the latest health of every flow: after a batch the status of a flow is
  the one of its last measurement in the batch, throttled or not, and a flow without a
  measurement keeps its status.
\<close>

theorem latest_status_kept:
  "fw_status (fst (flow_changes fmt adm now ms st)) k =
   (case filter (\<lambda>m. mesh_metric m \<and> flow_key m = k) ms of
      [] \<Rightarrow> fw_status st k | xs \<Rightarrow> Some (metricStatus (last xs)))"
proof (induction ms arbitrary: st)
  case (Cons m ms)
  obtain st1 out where c: "flow_change fmt adm now m st = (st1, out)"
    by (cases "flow_change fmt adm now m st")
  with flow_change_status [OF c] Cons.IH [of st1] show ?case
    by (auto split: prod.splits list.splits)
qed simp

subsection \<open>The throttle\<close>

text \<open>A history of the controller's flow states: the live batches, each with the settings and the clock
  it is handled with, and the resets of \<open>handleTestStart\<close> and \<open>handleTestStop\<close>.  Every event is logged with
  the number of resets before it, its flow and the clock of its batch.\<close>

datatype flow_input = LiveBatch admin_store int "metric list" | TestSwitch

type_synonym flow_entry = "nat \<times> string \<times> int \<times> event"

fun flow_log :: "(nat \<Rightarrow> rat \<Rightarrow> string) \<Rightarrow> nat \<Rightarrow> flow_input list \<Rightarrow> flow_state \<Rightarrow> flow_entry list" where
  "flow_log fmt n [] st = []"
| "flow_log fmt n (LiveBatch adm now ms # bs) st =
     (case flow_changes fmt adm now ms st of (st1, out) \<Rightarrow>
        map (\<lambda>(k, e). (n, k, now, e)) out @ flow_log fmt n bs st1)"
| "flow_log fmt n (TestSwitch # bs) st = flow_log fmt (Suc n) bs resetFlows"

definition times_of :: "nat \<Rightarrow> string \<Rightarrow> flow_entry list \<Rightarrow> int list" where
  "times_of n k es = map (\<lambda>(_, _, t, _). t) (filter (\<lambda>(n', k', _). n' = n \<and> k' = k) es)"

lemma times_of_simps [simp]:
  "times_of n k [] = []" "times_of n k (xs @ ys) = times_of n k xs @ times_of n k ys"
  "times_of n k ((n', k', t, e) # xs) = (if n' = n \<and> k' = k then t # times_of n k xs else times_of n k xs)"
  by (simp_all add: times_of_def)

lemma times_of_earlier: "n < n' \<Longrightarrow> times_of n k (flow_log fmt n' bs st) = []"
proof (induction fmt n' bs st rule: flow_log.induct)
  case (2 fmt n' adm now ms bs st)
  have "times_of n k (map (\<lambda>(k, e). (n', k, now, e)) out) = []" for out
    using 2(2) by (induction out) auto
  with 2 show ?case by (simp split: prod.split)
qed simp_all

text \<open>Times that start from \<open>a\<close>, end at \<open>c\<close> and are ten seconds apart.\<close>

fun spaced :: "int \<Rightarrow> int list \<Rightarrow> int \<Rightarrow> bool" where
  "spaced a [] c \<longleftrightarrow> a = c"
| "spaced a (t # ts) c \<longleftrightarrow> a + 10000 \<le> t \<and> spaced t ts c"

lemma spaced_append: "spaced a ts b \<Longrightarrow> spaced b us c \<Longrightarrow> spaced a (ts @ us) c"
  by (induction ts arbitrary: a) auto

lemma spaced_sorted: "spaced a ts c \<Longrightarrow> sorted_wrt (\<lambda>t t'. t + 10000 \<le> t') ts \<and> (\<forall>t \<in> set ts. a + 10000 \<le> t)"
  by (induction ts arbitrary: a) fastforce+

lemma flow_change_spaced:
  "flow_change fmt adm now m st = (st1, out) \<Longrightarrow>
   spaced (last_emit st k) (times_of n k (map (\<lambda>(k, e). (n, k, now, e)) out)) (last_emit st1 k)"
  by (auto simp: flow_change_def Let_def last_emit_def split: if_splits)

lemma flow_changes_spaced:
  "flow_changes fmt adm now ms st = (st1, out) \<Longrightarrow>
   spaced (last_emit st k) (times_of n k (map (\<lambda>(k, e). (n, k, now, e)) out)) (last_emit st1 k)"
proof (induction ms arbitrary: st out)
  case (Cons m ms)
  obtain st2 o1 where c: "flow_change fmt adm now m st = (st2, o1)"
    by (cases "flow_change fmt adm now m st")
  with Cons.prems obtain o2 where o2: "flow_changes fmt adm now ms st2 = (st1, o2)" "out = o1 @ o2"
    by (auto split: prod.splits)
  from spaced_append [OF flow_change_spaced [OF c] Cons.IH [OF o2(1)]] o2(2) show ?case
    by simp
qed simp

lemma flow_log_spaced:
  "\<exists>a c. (n = i \<longrightarrow> a = last_emit st k) \<and> spaced a (times_of n k (flow_log fmt i bs st)) c"
proof (induction fmt i bs st rule: flow_log.induct)
  case (2 fmt i adm now ms bs st)
  obtain st1 out where c: "flow_changes fmt adm now ms st = (st1, out)"
    by (cases "flow_changes fmt adm now ms st")
  have "times_of n k (map (\<lambda>(k, e). (i, k, now, e)) out) = []" if "n \<noteq> i"
    using that by (induction out) auto
  with "2.IH" [OF c [symmetric]] flow_changes_spaced [OF c, of k i] c show ?case
    by (cases "n = i") (auto intro: spaced_append)
next
  case (3 fmt i bs st)
  then show ?case
    by (cases "n = i") (auto simp: times_of_earlier)
qed auto

text \<open>
  C34: An oscillating link cannot flood the log.  In any history of live batches and of tests started
  and stopped, whatever the clock reads (even when it is set back), any two events about one
  flow with no start or stop of a test between them are at least ten seconds apart.  (A start or a stop
  forgets when the flows last had an event.)
\<close>

theorem flow_events_throttled:
  "sorted_wrt (\<lambda>t t'. t + 10000 \<le> t') (times_of n k (flow_log fmt i bs st))"
  using flow_log_spaced [of n i st k fmt bs] spaced_sorted by blast

definition probe_metric :: "bool \<Rightarrow> int \<Rightarrow> metric" where
  "probe_metric ok us = zero_metric\<lparr>m_AgentID := ''a'', m_PeerID := ''b'', m_Profile := UDP, m_FlowID := ''f1'',
     m_Success := ok, m_RTTMicros := us, m_PacketLoss := (if ok then 0 else 100)\<rparr>"

text \<open>A link that is slow once and dead from the next second on, for \<open>n\<close> more seconds.\<close>

definition dying_link :: "admin_store \<Rightarrow> int \<Rightarrow> nat \<Rightarrow> flow_input list" where
  "dying_link adm t n = LiveBatch adm t [probe_metric True 60000] #
     map (\<lambda>i. LiveBatch adm (t + 1000 * (int i + 1)) [probe_metric False 0]) [0..<Suc n]"

lemma dead_link_silent:
  "fw_status st (flow_key (probe_metric False 0)) = Some Critical \<Longrightarrow>
   flow_log fmt n (map (\<lambda>i. LiveBatch adm (t i) [probe_metric False 0]) is) st = []"
proof (induction "is" arbitrary: st)
  case (Cons i js)
  have "flow_change fmt adm (t i) (probe_metric False 0) st = (st, [])"
    using Cons.prems by (simp add: flow_change_def metricStatus_def probe_metric_def)
  with Cons show ?case by simp
qed simp

text \<open>
  The throttle can swallow an outage.  A change that falls into the ten seconds after the
  last event updates the status without an event, and nothing catches up later: a link that
  is slow in one second and unreachable from the next one on, for as long as one
  likes, leaves \<open>FLOW\_DEGRADED\<close> as the only and last word of the log.
\<close>

theorem throttled_outage_unreported:
  "map (\<lambda>(_, _, _, e). ev_Type e) (flow_log fmt 0 (dying_link adm 1700000000000 n) resetFlows) = [FlowDegraded]"
proof -
  let ?m1 = "probe_metric True 60000" and ?m2 = "probe_metric False 0"
  let ?k = "flow_key ?m1"
  let ?st1 = "\<lparr>fw_status = [?k \<mapsto> Degraded], fw_lastEmit = [?k \<mapsto> 1700000000000]\<rparr>"
  let ?st2 = "?st1\<lparr>fw_status := [?k \<mapsto> Critical]\<rparr>"
  have k: "flow_key ?m2 = ?k" by (simp add: flow_key_def probe_metric_def)
  have 1: "flow_change fmt adm 1700000000000 ?m1 resetFlows = (?st1, [(?k, change_event fmt adm ?m1 Degraded)])"
    by (simp add: flow_change_def resetFlows_def last_emit_def metricStatus_def latency_ms_def Let_def
        probe_metric_def [of True] flow_key_def)
  have 2: "flow_change fmt adm 1700000001000 ?m2 ?st1 = (?st2, [])"
    using k by (simp add: flow_change_def last_emit_def metricStatus_def Let_def probe_metric_def [of False])
  have "[0..<Suc n] = 0 # [1..<Suc n]" by (simp add: upt_conv_Cons)
  then have "flow_log fmt 0 (dying_link adm 1700000000000 n) resetFlows =
      [(0, ?k, 1700000000000, change_event fmt adm ?m1 Degraded)] @
      flow_log fmt 0 (map (\<lambda>i. LiveBatch adm (1700000000000 + 1000 * (int i + 1)) [?m2]) [1..<Suc n]) ?st2"
    using 1 2 by (simp add: dying_link_def)
  also have "flow_log fmt 0 (map (\<lambda>i. LiveBatch adm (1700000000000 + 1000 * (int i + 1)) [?m2]) [1..<Suc n]) ?st2 = []"
    by (rule dead_link_silent) (simp add: k)
  finally show ?thesis
    by (simp add: change_event_def Let_def event0_def)
qed

subsection \<open>The averages\<close>

lemma count_metric_inv:
  assumes "fold count_metric ms c0 = c"
  shows "mesh_total c = mesh_total c0 + length (filter mesh_metric ms) \<and>
     mc_latN c = mc_latN c0 + length (filter (\<lambda>m. mesh_metric m \<and> m_Success m) ms) \<and>
     mc_latSum c = mc_latSum c0 + sum_list (map latency_ms (filter (\<lambda>m. mesh_metric m \<and> m_Success m) ms)) \<and>
     mc_lossSum c = mc_lossSum c0 + sum_list (map m_PacketLoss (filter mesh_metric ms))"
  using assms
proof (induction ms arbitrary: c0)
  case (Cons m ms)
  from Cons.IH [of "count_metric m c0"] Cons.prems show ?case
    by (cases "metricStatus m")
      (auto simp: count_metric_def mesh_metric_def mesh_total_def Let_def add.assoc)
qed simp

lemma average_bounds:
  assumes "xs \<noteq> []" and "\<forall>x \<in> set xs. lo \<le> x \<and> x \<le> (hi :: rat)"
  shows "lo \<le> sum_list xs / rat_of_nat (length xs) \<and> sum_list xs / rat_of_nat (length xs) \<le> hi"
proof -
  have "rat_of_nat (length ys) * lo \<le> sum_list ys \<and> sum_list ys \<le> rat_of_nat (length ys) * hi"
    if "\<forall>x \<in> set ys. lo \<le> x \<and> x \<le> hi" for ys
    using that by (induction ys) (auto simp: algebra_simps)
  with assms show ?thesis
    by (auto simp: field_simps)
qed

text \<open>
  The summary is a true account of the grid.  Its classes add up to the rows between
  different agents; if those rows report losses of at most 100 percent, so does the average,
  and the average latency is that of the successful rows: not below 0 and not above the
  slowest.
\<close>

theorem mesh_summary_sound:
  assumes "\<forall>m \<in> set ms. mesh_metric m \<longrightarrow> 0 \<le> m_PacketLoss m \<and> m_PacketLoss m \<le> 100"
    and "\<forall>m \<in> set ms. mesh_metric m \<and> m_Success m \<longrightarrow> 0 \<le> m_RTTMicros m \<and> m_RTTMicros m \<le> worst"
    and "0 \<le> worst"
  shows "mesh_total (mesh_counts_of ms) = length (filter mesh_metric ms)"
    and "0 \<le> mesh_avgLoss (mesh_counts_of ms) \<and> mesh_avgLoss (mesh_counts_of ms) \<le> 100"
    and "0 \<le> mesh_avgLat (mesh_counts_of ms) \<and> mesh_avgLat (mesh_counts_of ms) \<le> rat_of_int worst / 1000"
proof -
  note inv = count_metric_inv [OF refl, of ms "\<lparr>mc_healthy = 0, mc_degraded = 0, mc_critical = 0, mc_latN = 0,
    mc_latSum = 0, mc_lossSum = 0\<rparr>", folded mesh_counts_of_def]
  show t: "mesh_total (mesh_counts_of ms) = length (filter mesh_metric ms)"
    using inv by (simp add: mesh_total_def)
  show "0 \<le> mesh_avgLoss (mesh_counts_of ms) \<and> mesh_avgLoss (mesh_counts_of ms) \<le> 100"
  proof (cases "filter mesh_metric ms = []")
    case False
    with average_bounds [of "map m_PacketLoss (filter mesh_metric ms)" 0 100] assms(1) inv t show ?thesis
      by (simp add: mesh_avgLoss_def)
  qed (use inv t in \<open>simp add: mesh_avgLoss_def\<close>)
  let ?ok = "filter (\<lambda>m. mesh_metric m \<and> m_Success m) ms"
  show "0 \<le> mesh_avgLat (mesh_counts_of ms) \<and> mesh_avgLat (mesh_counts_of ms) \<le> rat_of_int worst / 1000"
  proof (cases "?ok = []")
    case False
    have "\<forall>x \<in> set (map latency_ms ?ok). 0 \<le> x \<and> x \<le> rat_of_int worst / 1000"
      using assms(2) by (auto simp: latency_ms_def divide_right_mono)
    with average_bounds [of "map latency_ms ?ok" 0 "rat_of_int worst / 1000"] False inv show ?thesis
      by (simp add: mesh_avgLat_def)
  qed (use inv assms(3) in \<open>simp add: mesh_avgLat_def\<close>)
qed

theorem mesh_summary_sound_witness:
  "mesh_total (mesh_counts_of [probe_metric True 60000, probe_metric False 0]) = 2 \<and>
   mesh_avgLoss (mesh_counts_of [probe_metric True 60000, probe_metric False 0]) \<le> 100"
  using mesh_summary_sound [of "[probe_metric True 60000, probe_metric False 0]" 60000]
  by (simp add: probe_metric_def mesh_metric_def)

end
