(* ===== verification/Controller.thy ===== *)
theory Controller
  imports FlowPlans FlowEvents Config Diag Auth
begin

text \<open>
  \<open>internal/controller/controller.go\<close>: the master.  HTTP handlers are functions of the request and
  the controller; what they take from outside (clock, random IDs, map order, the outcome of
  file writes, the choice of a \<open>select\<close>) is collected in the record \<open>web_env\<close>.  A handler
  that has to wait, for the lock \<open>applyMu\<close> or for room in the queue of a connection, leaves a
  \<open>job\<close>: the rest of its work, taken step by step and interleaved with everything else, and the
  response and events that follow it.
\<close>

subsection \<open>State\<close>

datatype apply_item = PlanTo string flow_plan | StartTo string test_spec

text \<open>Waiting for \<open>applyMu\<close> (with the interval and whether a start is to be announced); holding it
  with the plans made, before the second look at the list of agents; sending plans and starts
  while holding it; broadcasting TEST\_STOP; sending a diagnostic request.  A blocked send is the connection
  with its frame.\<close>

datatype work =
  NeedLock int bool
| Planned "string \<rightharpoonup> flow_plan" test_spec
| Sending "apply_item list" "(nat \<times> json) option"
| Stopping "nat list" "(nat \<times> json) option"
| Asking "nat \<times> json"

record job =
  jb_work :: work
  jb_resp :: response
  jb_events :: "event list"

record controller =
  ct_cfg :: config
  ct_auth :: authenticator
  ct_hub :: hub
  ct_store :: ui_store
  ct_ui :: ui_hub
  ct_uiToken :: string
  ct_admin :: admin_store
  ct_flows :: flow_store
  ct_running :: bool
  ct_curInterval :: int
  ct_flow :: flow_state
  ct_jobs :: "job list"

text \<open>\<open>rand\<close> is the hexadecimal text of sixteen random bytes.\<close>

definition randomToken :: "string option \<Rightarrow> string" where
  "randomToken rand = (case rand of None \<Rightarrow> ''netmesh-ui'' | Some h \<Rightarrow> h)"

definition controller_New :: "string option \<Rightarrow> disk \<Rightarrow> disk \<Rightarrow> config \<Rightarrow> controller" where
  "controller_New rand adm_file flow_file cfg =
     \<lparr>ct_cfg = cfg, ct_auth = auth_New (cf_AuthEnabled cfg) (cf_AdminUser cfg) (cf_AdminPass cfg),
      ct_hub = NewHub (cf_Token cfg), ct_store = Map.empty, ct_ui = uiNewHub, ct_uiToken = randomToken rand,
      ct_admin = newAdminStore ''netmesh-admin.json'' adm_file,
      ct_flows = newFlowStore ''netmesh-flows.json'' flow_file,
      ct_running = False, ct_curInterval = 0, ct_flow = resetFlows, ct_jobs = []\<rparr>"

definition controller_started_event :: "config \<Rightarrow> event" where
  "controller_started_event cfg = (event0 ControllerStarted)\<lparr>ev_Detail := ListenAddr cfg,
     ev_Fields := [(''authEnabled'', ABool (cf_AuthEnabled cfg)), (''joinTokenSet'', ABool (cf_Token cfg \<noteq> ''''))]\<rparr>"

text \<open>Clock (nanoseconds, and the two texts made from it), the choice of the \<open>select\<close>, map iteration
  orders, random identifiers, the outcomes of file writes, whether a websocket upgrade succeeds
  as far as the library decides it and the library's answer when it does not, what \<open>url.Parse\<close> finds as
  the host of an origin, Unicode's case folding, platform, host name and address, the JSON form of a time,
  the file server of the embedded pages, and the text of a number with so many decimals.\<close>

record web_env =
  we_now :: int
  we_clock :: string
  we_clockMs :: string
  we_pick :: bool
  we_ord :: "string list"
  we_perm :: "listen_port list \<Rightarrow> listen_port list"
  we_rand :: "nat \<Rightarrow> string option"
  we_wr :: "nat \<Rightarrow> disk option"
  we_upgrade :: bool
  we_deny :: response
  we_urlhost :: "string \<Rightarrow> string option"
  we_unifold :: "string \<Rightarrow> string \<Rightarrow> bool"
  we_windows :: bool
  we_host :: string
  we_addr :: string
  we_time :: "int \<Rightarrow> string"
  we_asset :: "request \<Rightarrow> response"
  we_fmt :: "nat \<Rightarrow> rat \<Rightarrow> string"

subsection \<open>Callbacks of the hub\<close>

text \<open>\<^const>\<open>None\<close> is a panic of the fan-out.\<close>

definition onTelemetry :: "web_env \<Rightarrow> metric list \<Rightarrow> bool \<Rightarrow> controller \<Rightarrow> (controller \<times> event list) option" where
  "onTelemetry w ms replay c =
     (case uiBroadcast (KTelemetry ms replay, False) (ct_ui c) of None \<Rightarrow> None
      | Some ui \<Rightarrow>
          let c1 = c\<lparr>ct_store := Ingest ms (ct_store c), ct_ui := ui\<rparr> in
          if replay then Some (c1, [])
          else case emitFlowTransitions (we_fmt w) (ct_admin c1) (we_now w div 1000000) ms (ct_flow c1) of
            (st, evs) \<Rightarrow> Some (c1\<lparr>ct_flow := st\<rparr>, evs))"

definition onDiag :: "diag_chunk \<Rightarrow> controller \<Rightarrow> controller option" where
  "onDiag ch c = map_option (\<lambda>ui. c\<lparr>ct_ui := ui\<rparr>) (uiBroadcast (KDiag ch, au_enabled (ct_auth c)) (ct_ui c))"

definition controller_pump_event :: "event \<Rightarrow> controller \<Rightarrow> controller option" where
  "controller_pump_event e c = map_option (\<lambda>ui. c\<lparr>ct_ui := ui\<rparr>) (uiBroadcast (KEvent e, False) (ct_ui c))"

definition mesh_tick :: "web_env \<Rightarrow> controller \<Rightarrow> event list" where
  "mesh_tick w c = meshSummary (we_fmt w) (ct_running c) (Snapshot (we_ord w) (ct_store c))"

subsection \<open>applyFlows\<close>

definition needs_lock :: "int \<Rightarrow> bool \<Rightarrow> response \<Rightarrow> controller \<Rightarrow> controller" where
  "needs_lock interval announce resp c =
     c\<lparr>ct_jobs := ct_jobs c @ [\<lparr>jb_work = NeedLock interval announce, jb_resp = resp, jb_events = []\<rparr>]\<rparr>"

definition lock_free :: "controller \<Rightarrow> bool" where
  "lock_free c \<longleftrightarrow>
     list_all (\<lambda>j. case jb_work j of Planned _ _ \<Rightarrow> False | Sending _ _ \<Rightarrow> False | _ \<Rightarrow> True) (ct_jobs c)"

definition apply_items :: "(string \<rightharpoonup> flow_plan) \<Rightarrow> agent_info list \<Rightarrow> test_spec \<Rightarrow> apply_item list" where
  "apply_items plans infos spec =
     map (\<lambda>ai. PlanTo (ai_ID ai) (plan_for plans (ai_ID ai))) infos @ map (\<lambda>ai. StartTo (ai_ID ai) spec) infos"

definition started_announcement :: "string \<Rightarrow> int \<Rightarrow> nat \<Rightarrow> event" where
  "started_announcement runID interval n = (event0 TestStarted)\<lparr>ev_Detail := runID,
     ev_Fields := [(''intervalMs'', AInt interval), (''flows'', AInt (int n))]\<rparr>"

definition test_spec_for :: "string \<Rightarrow> int \<Rightarrow> test_spec" where
  "test_spec_for runID interval = \<lparr>ts_RunID = runID, ts_IntervalMS = interval, ts_PayloadSize = 64, ts_Count = 0\<rparr>"

text \<open>With the lock taken: the plans, for the agents connected at this moment.  The two passes go over
  the agents connected at a later one.\<close>

definition apply_begin :: "web_env \<Rightarrow> int \<Rightarrow> bool \<Rightarrow> job \<Rightarrow> controller \<Rightarrow> job \<times> controller" where
  "apply_begin w interval announce j c =
     (let runID = ''run-'' @ we_clock w; infos = Agents (we_ord w) (ct_hub c) in
      case buildFlowPlans (we_perm w) (we_now w) infos (ct_admin c) (flows_all (ct_flows c)) of
        (plans, n) \<Rightarrow>
          (let j1 = j\<lparr>jb_work := Planned plans (test_spec_for runID interval)\<rparr> in
           (if announce
            then j1\<lparr>jb_resp := Response 202 (JObj [(''flows'', JInt (int n)), (''runId'', JStr runID), (''status'', JStr ''started'')]),
                    jb_events := [started_announcement runID interval n]\<rparr>
            else j1,
            c\<lparr>ct_curInterval := interval\<rparr>)))"

text \<open>The settings are read when an item is sent.\<close>

definition item_frame :: "admin_store \<Rightarrow> apply_item \<Rightarrow> (string \<times> string \<times> json option) option" where
  "item_frame adm it = (case it of
       PlanTo a plan \<Rightarrow> Some (if cg_Enabled (admin_get a adm) then (a, TypeFlowPlan, Some (enc_flow_plan plan))
                             else (a, TypeTestStop, None))
     | StartTo a spec \<Rightarrow> if cg_Enabled (admin_get a adm) then Some (a, TypeTestStart, Some (enc_test_spec spec))
                        else None)"

definition blocked_frame :: "nat \<Rightarrow> hub \<Rightarrow> nat \<times> json" where
  "blocked_frame k h = (k, hd (pe_blocked (ac_peer (hb_conns h k))))"

definition retry_conn :: "bool \<Rightarrow> nat \<times> json \<Rightarrow> hub \<Rightarrow> send_result \<times> hub" where
  "retry_conn pick kb h = (case retry pick (snd kb) (ac_peer (hb_conns h (fst kb))) of
     (r, p) \<Rightarrow> (r, upd_conn (fst kb) (\<lambda>ac. ac\<lparr>ac_peer := p\<rparr>) h))"

definition send_item :: "web_env \<Rightarrow> admin_store \<Rightarrow> apply_item list \<Rightarrow> hub \<Rightarrow> work \<times> hub" where
  "send_item w adm items h =
     (case items of [] \<Rightarrow> (Sending [] None, h)
      | it # rest \<Rightarrow>
          (case item_frame adm it of None \<Rightarrow> (Sending rest None, h)
           | Some (a, t, v) \<Rightarrow>
               (case SendTo (we_pick w) (we_now w) a t v h of
                  (Some SendBlocked, h1) \<Rightarrow>
                    (Sending rest (Some (blocked_frame (the (hb_agents h a)) h1)), h1)
                | (_, h1) \<Rightarrow> (Sending rest None, h1))))"

definition send_stop :: "web_env \<Rightarrow> nat list \<Rightarrow> hub \<Rightarrow> work \<times> hub" where
  "send_stop w ks h =
     (case ks of [] \<Rightarrow> (Stopping [] None, h)
      | k # rest \<Rightarrow>
          (case conn_send (we_pick w) (we_now w) TypeTestStop None k h of
             (SendBlocked, h1) \<Rightarrow> (Stopping rest (Some (blocked_frame k h1)), h1)
           | (_, h1) \<Rightarrow> (Stopping rest None, h1)))"

text \<open>One step of job \<open>i\<close>; a finished job disappears and gives its response and events.
  \<^const>\<open>None\<close>: it has to wait.\<close>

definition set_job :: "nat \<Rightarrow> work \<Rightarrow> hub \<Rightarrow> controller \<Rightarrow> controller" where
  "set_job i wk h c = c\<lparr>ct_hub := h, ct_jobs := (ct_jobs c)[i := (ct_jobs c ! i)\<lparr>jb_work := wk\<rparr>]\<rparr>"

definition drop_job :: "nat \<Rightarrow> controller \<Rightarrow> controller" where
  "drop_job i c = c\<lparr>ct_jobs := take i (ct_jobs c) @ drop (Suc i) (ct_jobs c)\<rparr>"

definition job_step :: "web_env \<Rightarrow> nat \<Rightarrow> controller \<Rightarrow> (controller \<times> response option \<times> event list) option" where
  "job_step w i c =
     (let j = ct_jobs c ! i; finished = (drop_job i c, Some (jb_resp j), jb_events j) in
      case jb_work j of
        NeedLock interval announce \<Rightarrow>
          if lock_free c then
            (case apply_begin w interval announce j c of (j1, c1) \<Rightarrow>
               Some (c1\<lparr>ct_jobs := (ct_jobs c1)[i := j1]\<rparr>, None, []))
          else None
      | Planned plans spec \<Rightarrow>
          Some (set_job i (Sending (apply_items plans (Agents (we_ord w) (ct_hub c)) spec) None) (ct_hub c) c, None, [])
      | Sending items (Some kb) \<Rightarrow>
          (case retry_conn (we_pick w) kb (ct_hub c) of
             (SendBlocked, _) \<Rightarrow> None
           | (_, h) \<Rightarrow> Some (set_job i (Sending items None) h c, None, []))
      | Sending [] None \<Rightarrow> Some finished
      | Sending items None \<Rightarrow>
          (case send_item w (ct_admin c) items (ct_hub c) of (wk, h) \<Rightarrow> Some (set_job i wk h c, None, []))
      | Stopping ks (Some kb) \<Rightarrow>
          (case retry_conn (we_pick w) kb (ct_hub c) of
             (SendBlocked, _) \<Rightarrow> None
           | (_, h) \<Rightarrow> Some (set_job i (Stopping ks None) h c, None, []))
      | Stopping [] None \<Rightarrow> Some finished
      | Stopping ks None \<Rightarrow>
          (case send_stop w ks (ct_hub c) of (wk, h) \<Rightarrow> Some (set_job i wk h c, None, []))
      | Asking kb \<Rightarrow>
          (case retry_conn (we_pick w) kb (ct_hub c) of
             (SendBlocked, _) \<Rightarrow> None
           | (SendOk, h) \<Rightarrow> Some ((drop_job i c)\<lparr>ct_hub := h\<rparr>, Some (jb_resp j), jb_events j)
           | (SendClosed, h) \<Rightarrow>
               Some ((drop_job i c)\<lparr>ct_hub := h\<rparr>, Some (HttpError 404 ''transport: peer closed''), [])))"

end
