(* ===== verification/WebApi.thy ===== *)
theory WebApi
  imports Controller
begin

text \<open>
  \<open>internal/controller/controller.go\<close>: the HTTP interface of the controller.  A handler is a
  function of the request and the controller to the response, the new controller and the events
  emitted; when it has to wait it leaves a job (theory \<open>Controller\<close>) and answers \<^const>\<open>Deferred\<close>.
  \<open>serve\<close> is the router, with the write gate of \<open>Auth\<close> in front of the privileged handlers.
\<close>

type_synonym handler = "request \<Rightarrow> controller \<Rightarrow> response \<times> controller \<times> event list"

text \<open>A request body read into a struct, or the 400 response.\<close>

definition decodeJSON :: "(json \<Rightarrow> 'a option) \<Rightarrow> request \<Rightarrow> response + 'a" where
  "decodeJSON dec r = (case Option.bind (rq_body r) dec of
     None \<Rightarrow> Inl (HttpError 400 (''bad request: '' @ rq_err r)) | Some v \<Rightarrow> Inr v)"

abbreviation agent_not_found :: response where
  "agent_not_found \<equiv> HttpError 404 ''transport: agent not connected''"

subsection \<open>Read-only handlers\<close>

text \<open>A map is written with its keys in alphabetical order.\<close>

definition handleInfo :: "web_env \<Rightarrow> handler" where
  "handleInfo w r c =
     (Response 200 (JObj
        [(''agentId'', JStr (cf_AgentID (ct_cfg c))), (''authEnabled'', JBool (cf_AuthEnabled (ct_cfg c))),
         (''authenticated'', JBool (Authenticated (ct_auth c) r)),
         (''diagCommands'', enc_list JStr (Allowed (we_windows w))),
         (''host'', JStr (we_host w)), (''hostAddr'', JStr (we_addr w)), (''port'', JInt (cf_Port (ct_cfg c))),
         (''role'', JStr ''controller''), (''testRunning'', JBool (ct_running c))]), c, [])"

definition handleAuthInfo :: handler where
  "handleAuthInfo r c =
     (let resp = [(''authEnabled'', JBool (cf_AuthEnabled (ct_cfg c))),
                  (''authenticated'', JBool (Authenticated (ct_auth c) r))] in
      (Response 200 (JObj (if Authenticated (ct_auth c) r then resp @ [(''wsToken'', JStr (ct_uiToken c))]
                           else resp)), c, []))"

definition agent_info_members :: "(int \<Rightarrow> string) \<Rightarrow> agent_info \<Rightarrow> members" where
  "agent_info_members time ai =
     [(''id'', JStr (ai_ID ai)), (''hostname'', JStr (ai_Hostname ai)), (''remoteAddr'', JStr (ai_RemoteAddr ai)),
      (''dataPort'', JInt (ai_DataPort ai)), (''joinedAt'', JStr (time (ai_JoinedAt ai))),
      (''lastSeq'', enc_u64 (ai_LastSeq ai)), (''wsRttUs'', JInt (ai_WSRttMicros ai)),
      (''framesRx'', enc_u64 (ai_FramesRx ai)), (''framesTx'', enc_u64 (ai_FramesTx ai))] @
     omit_if (ai_Ports ai = []) ''ports'' (enc_list enc_port_status (ai_Ports ai))"

text \<open>\<open>agentView\<close>: the members of the embedded struct come first.\<close>

definition agent_view :: "(int \<Rightarrow> string) \<Rightarrow> admin_store \<Rightarrow> agent_info \<Rightarrow> json" where
  "agent_view time adm ai =
     (let cfg = admin_get (ai_ID ai) adm in
      JObj (agent_info_members time ai @ [(''label'', JStr (cg_Label cfg)), (''group'', JStr (cg_Group cfg)),
        (''enabled'', JBool (cg_Enabled cfg))]))"

definition handleAgents :: "web_env \<Rightarrow> handler" where
  "handleAgents w r c =
     (Response 200 (JArr (map (agent_view (we_time w) (ct_admin c)) (Agents (we_ord w) (ct_hub c)))), c, [])"

definition handleMetrics :: "web_env \<Rightarrow> handler" where
  "handleMetrics w r c = (Response 200 (JArr (map enc_metric (Snapshot (we_ord w) (ct_store c)))), c, [])"

definition handleFlowsList :: handler where
  "handleFlowsList r c = (Response 200 (JArr (map enc_flow (flows_all (ct_flows c)))), c, [])"

subsection \<open>Agent settings\<close>

definition adminDetail :: "agent_config \<Rightarrow> string" where
  "adminDetail cfg =
     (let state = (if \<not> cg_Enabled cfg then ''disabled'' else ''enabled'');
          d = ''config updated'' @ dot @ state in
      if cg_Label cfg \<noteq> '''' then d @ dot @ [CHR 0x22] @ cg_Label cfg @ [CHR 0x22] else d)"

definition config_event :: "string \<Rightarrow> agent_config \<Rightarrow> event" where
  "config_event a cfg = (event0 AgentConfigUpdated)\<lparr>ev_AgentID := a, ev_Detail := adminDetail cfg,
     ev_Fields := [(''enabled'', ABool (cg_Enabled cfg)), (''label'', AStr (cg_Label cfg)),
       (''group'', AStr (cg_Group cfg))]\<rparr>"

text \<open>\<open>reapplyIfRunning\<close> before the response: the interval is read before waiting for the lock.\<close>

definition reapply :: "response \<Rightarrow> controller \<Rightarrow> response \<times> controller" where
  "reapply resp c =
     (if ct_running c then (Deferred, needs_lock (ct_curInterval c) False resp c) else (resp, c))"

definition handleAdminUpdate :: "web_env \<Rightarrow> handler" where
  "handleAdminUpdate w r c =
     (case decodeJSON dec_agent_update r of Inl e \<Rightarrow> (e, c, [])
      | Inr u \<Rightarrow>
          if au_AgentID u = '''' then (HttpError 400 ''agentId required'', c, [])
          else case admin_update (we_wr w 0) u (ct_admin c) of (cfg, adm) \<Rightarrow>
            (case reapply (Response 200 (enc_agent_config cfg)) (c\<lparr>ct_admin := adm\<rparr>) of
               (resp, c1) \<Rightarrow> (resp, c1, [config_event (au_AgentID u) cfg])))"

definition dec_one :: "string \<Rightarrow> json \<Rightarrow> string option" where
  "dec_one name = dec_struct (\<lambda>ms. fld ms name dec_string '''') ''''"

definition evicted_event :: "string \<Rightarrow> event" where
  "evicted_event a = (event0 AgentEvicted)\<lparr>ev_AgentID := a, ev_Detail := ''evicted by operator''\<rparr>"

definition handleAdminEvict :: handler where
  "handleAdminEvict r c =
     (case decodeJSON (dec_one ''agentId'') r of Inl e \<Rightarrow> (e, c, [])
      | Inr a \<Rightarrow>
          (case Evict a (ct_hub c) of None \<Rightarrow> (agent_not_found, c, [])
           | Some h \<Rightarrow>
               (Response 200 (JObj [(''agentId'', JStr a), (''status'', JStr ''evicted'')]),
                c\<lparr>ct_hub := h\<rparr>, [evicted_event a])))"

subsection \<open>Flows\<close>

definition flow_refusal :: "flow \<Rightarrow> response option" where
  "flow_refusal f =
     (if fl_SrcAgent f = '''' \<or> fl_DstAgent f = '''' \<or> \<not> profile_Valid (fl_Protocol f) then
        Some (HttpError 400 ''srcAgent, dstAgent and a valid protocol are required'')
      else if fl_SrcAgent f = fl_DstAgent f then
        Some (HttpError 400 ''source and destination agent must differ'')
      else if profile_HasPorts (fl_Protocol f) \<and> fl_DstPort f \<le> 0 then
        Some (HttpError 400 ''a destination port is required for UDP/TCP flows'')
      else None)"

text \<open>After a change of the flows: the view is cleared, and a running test gets the new plans.\<close>

definition flows_changed :: "flow_store \<Rightarrow> response \<Rightarrow> controller \<Rightarrow> response \<times> controller \<times> event list" where
  "flows_changed fs resp c =
     (case reapply resp (c\<lparr>ct_flows := fs, ct_store := store_Clear (ct_store c)\<rparr>) of (resp1, c1) \<Rightarrow> (resp1, c1, []))"

definition handleFlowUpsert :: "web_env \<Rightarrow> handler" where
  "handleFlowUpsert w r c =
     (case decodeJSON dec_flow r of Inl e \<Rightarrow> (e, c, [])
      | Inr f \<Rightarrow>
          (case flow_refusal f of Some e \<Rightarrow> (e, c, [])
           | None \<Rightarrow>
               (case upsert (we_wr w 0) (we_rand w 0) f (ct_flows c) of
                  (saved, fs) \<Rightarrow> flows_changed fs (Response 200 (enc_flow saved)) c)))"

definition handleFlowDelete :: "web_env \<Rightarrow> handler" where
  "handleFlowDelete w r c =
     (case decodeJSON (dec_one ''id'') r of Inl e \<Rightarrow> (e, c, [])
      | Inr x \<Rightarrow> flows_changed (flow_remove (we_wr w 0) x (ct_flows c))
          (Response 200 (JObj [(''id'', JStr x), (''status'', JStr ''deleted'')])) c)"

definition handleFlowsClear :: "web_env \<Rightarrow> handler" where
  "handleFlowsClear w r c =
     flows_changed (flow_clear (we_wr w 0) (ct_flows c)) (Response 200 (JObj [(''status'', JStr ''cleared'')])) c"

record mesh_request =
  mq_Port :: int
  mq_Protocols :: "profile list"
  mq_Symmetric :: bool

definition dec_mesh_request :: "json \<Rightarrow> mesh_request option" where
  "dec_mesh_request = dec_struct (\<lambda>ms. do {
     p \<leftarrow> fld ms ''port'' dec_int 0;
     ps \<leftarrow> fld ms ''protocols'' (dec_list dec_string) [];
     s \<leftarrow> fld ms ''symmetric'' dec_bool False;
     Some \<lparr>mq_Port = p, mq_Protocols = ps, mq_Symmetric = s\<rparr>})
     \<lparr>mq_Port = 0, mq_Protocols = [], mq_Symmetric = False\<rparr>"

definition mesh_flow :: "mesh_request \<Rightarrow> string \<Rightarrow> string \<Rightarrow> profile \<Rightarrow> flow" where
  "mesh_flow q a b proto =
     (let f = zero_flow\<lparr>fl_SrcAgent := a, fl_DstAgent := b, fl_Protocol := proto, fl_Enabled := True\<rparr> in
      if profile_HasPorts proto then
        (let f1 = f\<lparr>fl_DstPort := mq_Port q\<rparr> in
         if mq_Symmetric q then f1\<lparr>fl_SrcPort := mq_Port q\<rparr> else f1)
      else f)"

text \<open>The three nested loops, from the inside: the number added so far picks the next random
  identifier and the outcome of the next write.\<close>

type_synonym mesh_state = "flow_store \<times> nat"

definition mesh_proto ::
  "(nat \<Rightarrow> disk option) \<Rightarrow> (nat \<Rightarrow> string option) \<Rightarrow> mesh_request \<Rightarrow> string \<Rightarrow> string \<Rightarrow> profile \<Rightarrow>
   mesh_state \<Rightarrow> mesh_state" where
  "mesh_proto wr rand q a b proto st =
     (case st of (fs, n) \<Rightarrow>
        if \<not> profile_Valid proto then (fs, n)
        else (flow_add (wr n) (rand n) (mesh_flow q a b proto) fs, n + 1))"

definition mesh_pair ::
  "(nat \<Rightarrow> disk option) \<Rightarrow> (nat \<Rightarrow> string option) \<Rightarrow> mesh_request \<Rightarrow> string \<Rightarrow> string \<Rightarrow> mesh_state \<Rightarrow> mesh_state" where
  "mesh_pair wr rand q a b st =
     (if a = b then st else fold (mesh_proto wr rand q a b) (mq_Protocols q) st)"

definition mesh_loops ::
  "(nat \<Rightarrow> disk option) \<Rightarrow> (nat \<Rightarrow> string option) \<Rightarrow> mesh_request \<Rightarrow> string list \<Rightarrow> mesh_state \<Rightarrow> mesh_state" where
  "mesh_loops wr rand q agents st = fold (\<lambda>a st. fold (mesh_pair wr rand q a) agents st) agents st"

definition handleFlowsMesh :: "web_env \<Rightarrow> handler" where
  "handleFlowsMesh w r c =
     (case decodeJSON dec_mesh_request r of Inl e \<Rightarrow> (e, c, [])
      | Inr q0 \<Rightarrow>
          (let q = (if mq_Protocols q0 = [] then q0\<lparr>mq_Protocols := AllProfiles\<rparr> else q0);
               agents = map ai_ID (Agents (we_ord w) (ct_hub c)) in
           case mesh_loops (we_wr w) (we_rand w) q agents (ct_flows c, 0) of
             (fs, added) \<Rightarrow> flows_changed fs
               (Response 202 (JObj [(''added'', JInt (int added)), (''status'', JStr ''mesh-generated'')])) c))"

subsection \<open>Tests\<close>

definition dec_start :: "json \<Rightarrow> int option" where
  "dec_start = dec_struct (\<lambda>ms. fld ms ''intervalMs'' dec_int 0) 0"

text \<open>A blank body stands for an empty request.\<close>

definition start_request :: "request \<Rightarrow> response + int" where
  "start_request r = (if rq_body r = None \<and> rq_empty r then Inr 0 else decodeJSON dec_start r)"

definition handleTestStart :: handler where
  "handleTestStart r c =
     (case start_request r of Inl e \<Rightarrow> (e, c, [])
      | Inr i \<Rightarrow>
          (let interval = (if i \<le> 0 then 250 else i);
               c1 = c\<lparr>ct_flow := resetFlows, ct_store := store_Clear (ct_store c), ct_running := True\<rparr> in
           (Deferred, needs_lock interval True Deferred c1, [])))"

text \<open>\<open>Broadcast\<close> takes the registered connections and sends to one after the other.\<close>

definition handleTestStop :: "web_env \<Rightarrow> handler" where
  "handleTestStop w r c =
     (let c1 = c\<lparr>ct_running := False, ct_flow := resetFlows, ct_store := store_Clear (ct_store c)\<rparr>;
          conns = map (\<lambda>a. the (hb_agents (ct_hub c) a)) (filter (\<lambda>a. hb_agents (ct_hub c) a \<noteq> None) (we_ord w));
          j = \<lparr>jb_work = Stopping conns None,
               jb_resp = Response 202 (JObj [(''status'', JStr ''stopped'')]),
               jb_events = [event0 TestStopped]\<rparr> in
      (Deferred, c1\<lparr>ct_jobs := ct_jobs c1 @ [j]\<rparr>, []))"

subsection \<open>Diagnostics\<close>

definition dec_diag_body :: "json \<Rightarrow> (string \<times> string \<times> string list) option" where
  "dec_diag_body = dec_struct (\<lambda>ms. do {
     a \<leftarrow> fld ms ''agentId'' dec_string '''';
     cmd \<leftarrow> fld ms ''command'' dec_string '''';
     args \<leftarrow> fld ms ''args'' (dec_list dec_string) [];
     Some (a, cmd, args)}) ('''', '''', [])"

definition diag_event :: "string \<Rightarrow> string \<Rightarrow> string \<Rightarrow> event" where
  "diag_event a cmd reqID = (event0 DiagRequested)\<lparr>ev_AgentID := a, ev_Detail := cmd,
     ev_Fields := [(''requestId'', AStr reqID)]\<rparr>"

definition handleDiag :: "web_env \<Rightarrow> handler" where
  "handleDiag w r c =
     (case decodeJSON dec_diag_body r of Inl e \<Rightarrow> (e, c, [])
      | Inr (a, cmd, args) \<Rightarrow>
          (let reqID = a @ ''-'' @ cmd @ ''-'' @ we_clockMs w;
               dr = \<lparr>dr_RequestID = reqID, dr_Command = cmd, dr_Args = args\<rparr>;
               resp = Response 202 (JObj [(''requestId'', JStr reqID)]);
               evs = [diag_event a cmd reqID] in
           case SendTo (we_pick w) (we_now w) a TypeDiagRequest (Some (enc_diag_request dr)) (ct_hub c) of
             (None, h) \<Rightarrow> (agent_not_found, c, [])
           | (Some SendOk, h) \<Rightarrow> (resp, c\<lparr>ct_hub := h\<rparr>, evs)
           | (Some SendClosed, h) \<Rightarrow> (HttpError 404 ''transport: peer closed'', c\<lparr>ct_hub := h\<rparr>, [])
           | (Some SendBlocked, h) \<Rightarrow>
               (Deferred, c\<lparr>ct_hub := h, ct_jobs := ct_jobs c @
                  [\<lparr>jb_work = Asking (blocked_frame (the (hb_agents (ct_hub c) a)) h), jb_resp = resp,
                    jb_events = evs\<rparr>]\<rparr>, [])))"

subsection \<open>Websockets\<close>

definition session_privileged :: "request \<Rightarrow> controller \<Rightarrow> bool" where
  "session_privileged r c \<longleftrightarrow>
     \<not> cf_AuthEnabled (ct_cfg c) \<or> ct_compare (bytes_of (rq_token r)) (bytes_of (ct_uiToken c)) = 1"

text \<open>\<open>CheckOrigin\<close> of the upgrader: no Origin header, or one whose host is the one addressed.
  \<open>urlhost\<close> is \<open>url.Parse\<close>, then the field Host; \<^const>\<open>None\<close> is its error.\<close>

definition sameOrigin :: "(string \<Rightarrow> string option) \<Rightarrow> (string \<Rightarrow> string \<Rightarrow> bool) \<Rightarrow> request \<Rightarrow> bool" where
  "sameOrigin urlhost uni r \<longleftrightarrow>
     rq_origin r = '''' \<or>
     (case urlhost (rq_origin r) of None \<Rightarrow> False | Some h \<Rightarrow> equal_fold uni h (rq_host r))"

text \<open>The connection is taken over: no body is written.\<close>

definition switching :: response where
  "switching = Response 101 JNull"

definition serveUI :: "web_env \<Rightarrow> handler" where
  "serveUI w r c =
     (if \<not> we_upgrade w \<or> \<not> sameOrigin (we_urlhost w) (we_unifold w) r then (we_deny w, c, [])
      else (switching, c\<lparr>ct_ui := snd (uiAdd (session_privileged r c) (ct_ui c))\<rparr>, []))"

text \<open>The end of a session: the reader's error or the deferred call.\<close>

definition closeUI :: "nat \<Rightarrow> controller \<Rightarrow> controller option" where
  "closeUI cl c = map_option (\<lambda>ui. c\<lparr>ct_ui := ui\<rparr>) (uiRemove cl (ct_ui c))"

definition serve_agent :: "web_env \<Rightarrow> handler" where
  "serve_agent w r c =
     (case ServeAgent (rq_token r) (rq_remote r) (we_upgrade w) (we_now w) (ct_hub c) of
        (Refused n, h, out) \<Rightarrow> (HttpError n ''forbidden'', c\<lparr>ct_hub := h\<rparr>, log_events out)
      | (UpgradeFailed, h, out) \<Rightarrow> (we_deny w, c\<lparr>ct_hub := h\<rparr>, log_events out)
      | (Accepted k, h, out) \<Rightarrow> (switching, c\<lparr>ct_hub := h\<rparr>, log_events out))"

subsection \<open>routes\<close>

definition RequireWriteFunc :: "handler \<Rightarrow> handler" where
  "RequireWriteFunc h r c = RequireWrite (ct_auth c) h r c"

definition privileged_routes :: "web_env \<Rightarrow> (string \<times> handler) list" where
  "privileged_routes w =
     [(''/api/tests/start'', handleTestStart),
      (''/api/tests/stop'', handleTestStop w),
      (''/api/flows/upsert'', handleFlowUpsert w),
      (''/api/flows/delete'', handleFlowDelete w),
      (''/api/flows/mesh'', handleFlowsMesh w),
      (''/api/flows/clear'', handleFlowsClear w),
      (''/api/diag'', handleDiag w),
      (''/api/admin/agents'', handleAdminUpdate w),
      (''/api/admin/agents/evict'', handleAdminEvict)]"

definition open_routes :: "web_env \<Rightarrow> (string \<times> handler) list" where
  "open_routes w =
     [(''/ws/agent'', serve_agent w),
      (''/ws/ui'', serveUI w),
      (''/api/info'', handleInfo w),
      (''/api/auth'', handleAuthInfo),
      (''/api/agents'', handleAgents w),
      (''/api/metrics'', handleMetrics w),
      (''/api/flows'', handleFlowsList)]"

text \<open>Exact paths first; everything else is the file server.\<close>

definition serve :: "web_env \<Rightarrow> handler" where
  "serve w r c =
     (case map_of (open_routes w) (rq_path r) of Some h \<Rightarrow> h r c
      | None \<Rightarrow>
          (case map_of (privileged_routes w) (rq_path r) of Some h \<Rightarrow> RequireWriteFunc h r c
           | None \<Rightarrow> (we_asset w r, c, [])))"


subsection \<open>Who may do what\<close>

definition secured :: "controller \<Rightarrow> bool" where
  "secured c \<longleftrightarrow> cf_AuthEnabled (ct_cfg c) \<and>
     ct_auth c = auth_New True (cf_AdminUser (ct_cfg c)) (cf_AdminPass (ct_cfg c))"

definition has_credentials :: "request \<Rightarrow> controller \<Rightarrow> bool" where
  "has_credentials r c \<longleftrightarrow> rq_auth r = Some (cf_AdminUser (ct_cfg c), cf_AdminPass (ct_cfg c))"

lemma secured_Authenticated: "secured c \<Longrightarrow> Authenticated (ct_auth c) r \<longleftrightarrow> has_credentials r c"
  by (simp add: secured_def has_credentials_def Authenticated_iff auth_New_def)

lemma map_of_In: "map_of xs k = None \<longleftrightarrow> k \<notin> fst ` set xs"
  by (rule map_of_eq_None_iff)

lemma routes_disjoint:
  "p \<in> fst ` set (privileged_routes w) \<Longrightarrow> map_of (open_routes w) p = None"
  by (auto simp: privileged_routes_def open_routes_def)

lemma serve_open:
  assumes "rq_path r \<notin> fst ` set (privileged_routes w)"
  shows "serve w r c =
    (if rq_path r = ''/ws/agent'' then serve_agent w r c
     else if rq_path r = ''/ws/ui'' then serveUI w r c
     else if rq_path r = ''/api/info'' then handleInfo w r c
     else if rq_path r = ''/api/auth'' then handleAuthInfo r c
     else if rq_path r = ''/api/agents'' then handleAgents w r c
     else if rq_path r = ''/api/metrics'' then handleMetrics w r c
     else if rq_path r = ''/api/flows'' then handleFlowsList r c
     else (we_asset w r, c, []))"
  using assms by (simp add: serve_def open_routes_def map_of_In [THEN iffD2])

lemma serve_privileged:
  "rq_path r \<in> fst ` set (privileged_routes w) \<Longrightarrow>
   \<exists>h. map_of (privileged_routes w) (rq_path r) = Some h \<and> (\<forall>c. serve w r c = RequireWriteFunc h r c)"
  using map_of_In [of "privileged_routes w" "rq_path r"]
  by (auto simp: serve_def routes_disjoint)

text \<open>
  C10: Nobody writes without credentials.  On a secured controller a request without the configured
  credentials gets 401 from every privileged route, changes nothing and is reported as one
  AUTH\_REJECTED event; on every route but the two websockets it leaves the whole state as
  it is, and the response does not depend on the secret that privileges browser sessions; and a
  browser session it opens is privileged only if it presents that secret.
\<close>

theorem anonymous_is_read_only:
  assumes "secured c" and "\<not> has_credentials r c"
  shows "(if rq_path r \<in> fst ` set (privileged_routes w) then
       serve w r c = (HttpError 401 ''authentication required'', c, [rejected_event r]) \<and>
       fst (serve w r (c\<lparr>ct_uiToken := t\<rparr>)) = fst (serve w r c)
     else if rq_path r = ''/ws/ui'' then
       fst (snd (serve w r c)) = c\<lparr>ct_ui := ct_ui (fst (snd (serve w r c)))\<rparr> \<and>
       ui_privileged (ct_ui (fst (snd (serve w r c)))) =
         (if we_upgrade w \<and> sameOrigin (we_urlhost w) (we_unifold w) r
          then (ui_privileged (ct_ui c))(ui_next (ct_ui c) := (rq_token r = ct_uiToken c))
          else ui_privileged (ct_ui c))
     else if rq_path r = ''/ws/agent'' then
       fst (snd (serve w r c)) = c\<lparr>ct_hub := ct_hub (fst (snd (serve w r c)))\<rparr>
     else fst (snd (serve w r c)) = c \<and> fst (serve w r (c\<lparr>ct_uiToken := t\<rparr>)) = fst (serve w r c))"
proof -
  have na: "\<not> Authenticated (ct_auth c) r"
    using assms by (simp add: secured_Authenticated)
  have gate: "RequireWriteFunc h r c = (HttpError 401 ''authentication required'', c, [rejected_event r])"
    "fst (RequireWriteFunc h r (c\<lparr>ct_uiToken := t\<rparr>)) = HttpError 401 ''authentication required''" for h
    using auth_gate.refuse [OF na] auth_gate.refuse [of "ct_auth (c\<lparr>ct_uiToken := t\<rparr>)" r h] na
    by (simp_all add: RequireWriteFunc_def)
  show ?thesis
  proof (cases "rq_path r \<in> fst ` set (privileged_routes w)")
    case True
    from serve_privileged [OF True] obtain h where "\<forall>c. serve w r c = RequireWriteFunc h r c"
      by blast
    with True gate show ?thesis by simp
  next
    case False
    have sess: "session_privileged r c \<longleftrightarrow> rq_token r = ct_uiToken c"
      using assms(1) by (simp add: session_privileged_def secured_def ct_compare_strings del: One_nat_def)
    show ?thesis
      unfolding serve_open [OF False] if_not_P [OF False]
      using na by (simp add: serveUI_def sess uiAdd_def Let_def handleInfo_def handleAuthInfo_def
          handleAgents_def handleMetrics_def handleFlowsList_def serve_agent_def
          split: prod.splits accept_result.splits)
  qed
qed


definition demo_secured :: config where
  "demo_secured = \<lparr>cf_Mode = ModeController, cf_Port = 5999, cf_MasterAddr = '''', cf_AuthEnabled = True,
     cf_AdminUser = ''admin'', cf_AdminPass = ''pw'', cf_AgentID = ''ctl'', cf_Token = '''', cf_DataPort = 0\<rparr>"

definition demo_post :: "string \<Rightarrow> json option \<Rightarrow> request" where
  "demo_post path body = \<lparr>rq_method = ''POST'', rq_path = path, rq_remote = ''10.0.0.9:4000'',
     rq_host = ''10.0.0.1:5999'', rq_origin = '''', rq_auth = None,
     rq_token = '''', rq_body = body, rq_empty = (body = None), rq_err = ''EOF''\<rparr>"

definition demo_env :: web_env where
  "demo_env = \<lparr>we_now = 0, we_clock = ''120000'', we_clockMs = ''120000.000'', we_pick = False, we_ord = [''a''],
     we_perm = (\<lambda>ps. ps), we_rand = (\<lambda>_. None), we_wr = (\<lambda>_. None), we_upgrade = True,
     we_deny = HttpError 400 '''', we_urlhost = (\<lambda>_. None), we_unifold = (=), we_windows = False, we_host = ''ctl'', we_addr = ''10.0.0.1'',
     we_time = (\<lambda>_. ''''), we_asset = (\<lambda>_. HttpError 404 ''404 page not found''),
     we_fmt = (\<lambda>_ _. '''')\<rparr>"

theorem anonymous_is_read_only_witness:
  "serve demo_env (demo_post ''/api/tests/stop'' None) (controller_New None None None demo_secured) =
     (HttpError 401 ''authentication required'', controller_New None None None demo_secured,
      [rejected_event (demo_post ''/api/tests/stop'' None)])"
  using anonymous_is_read_only [of "controller_New None None None demo_secured"
      "demo_post ''/api/tests/stop'' None" demo_env]
  by (simp add: secured_def has_credentials_def controller_New_def demo_secured_def demo_post_def
      privileged_routes_def)

subsection \<open>Changing flows over HTTP\<close>

text \<open>What a flow has to be.\<close>

definition sound_flow :: "flow \<Rightarrow> bool" where
  "sound_flow f \<longleftrightarrow> '''' \<notin> {fl_SrcAgent f, fl_DstAgent f} \<and> fl_SrcAgent f \<noteq> fl_DstAgent f \<and>
     fl_Protocol f \<in> {UDP, TCP, ICMP} \<and> (fl_Protocol f \<in> {UDP, TCP} \<longrightarrow> fl_DstPort f > 0)"

lemma flow_refusal_sound: "flow_refusal f = None \<longleftrightarrow> sound_flow f"
  by (auto simp: flow_refusal_def sound_flow_def profile_Valid_def profile_HasPorts_def)

lemma flow_refusal_400: "flow_refusal f = Some e \<Longrightarrow> \<exists>t. e = HttpError 400 t"
  by (auto simp: flow_refusal_def split: if_splits)

lemma reapply_effect:
  "snd (reapply resp c) = c\<lparr>ct_jobs := ct_jobs (snd (reapply resp c))\<rparr>"
  "\<not> ct_running c \<Longrightarrow> reapply resp c = (resp, c)"
  "ct_running c \<Longrightarrow> reapply resp c = (Deferred, needs_lock (ct_curInterval c) False resp c)"
  by (simp_all add: reapply_def needs_lock_def)

lemma flows_changed_effect:
  "flows_changed fs resp c =
     (if ct_running c then Deferred else resp,
      c\<lparr>ct_flows := fs, ct_store := Map.empty,
        ct_jobs := ct_jobs c @ (if ct_running c then
          [\<lparr>jb_work = NeedLock (ct_curInterval c) False, jb_resp = resp, jb_events = []\<rparr>] else [])\<rparr>, [])"
  by (simp add: flows_changed_def reapply_def needs_lock_def store_Clear_def)

text \<open>
  The flow editor checks its input.  A posted flow whose endpoints are two different agents, whose
  protocol is known and which has a destination port where the protocol needs one is saved and answered
  with 200, at once or, while a test runs, after new plans have been sent to the agents; any
  other flow is answered with 400, and then nothing changes at all.
\<close>

theorem flow_editor_checks_input:
  assumes "rq_body r = Some (enc_flow f)" and "flow_ok f"
  shows "if sound_flow f then
       (case upsert (we_wr w 0) (we_rand w 0) f (ct_flows c) of (saved, fs) \<Rightarrow>
          handleFlowUpsert w r c =
            (if ct_running c then Deferred else Response 200 (enc_flow saved),
             c\<lparr>ct_flows := fs, ct_store := Map.empty,
               ct_jobs := ct_jobs c @ (if ct_running c then
                 [\<lparr>jb_work = NeedLock (ct_curInterval c) False, jb_resp = Response 200 (enc_flow saved),
                   jb_events = []\<rparr>] else [])\<rparr>, []) \<and>
          saved = f\<lparr>fl_ID := fl_ID saved\<rparr> \<and> (fl_ID f \<noteq> '''' \<longrightarrow> saved = f) \<and> saved \<in> set (flows_all fs))
     else \<exists>text. handleFlowUpsert w r c = (HttpError 400 text, c, [])"
proof -
  have dec: "decodeJSON dec_flow r = Inr f"
    using assms by (simp add: decodeJSON_def flow_wire.dec_enc)
  obtain saved fs where u: "upsert (we_wr w 0) (we_rand w 0) f (ct_flows c) = (saved, fs)"
    by (cases "upsert (we_wr w 0) (we_rand w 0) f (ct_flows c)")
  have "f \<in> set gs" if "replace_flow f xs = Some gs" for xs gs
    using replace_flow_Some [OF that] by auto
  with u have s: "saved = f\<lparr>fl_ID := fl_ID saved\<rparr> \<and> (fl_ID f \<noteq> '''' \<longrightarrow> saved = f) \<and> saved \<in> set (flows_all fs)"
    by (auto simp: upsert_def Let_def flows_all_def split: if_splits option.splits)
  show ?thesis
    using flow_refusal_sound [of f] flow_refusal_400 [of f] u s
    by (auto simp: handleFlowUpsert_def dec flows_changed_effect split: option.splits)
qed


theorem flow_editor_checks_input_witness:
  "\<exists>saved. fst (handleFlowUpsert demo_env (demo_post ''/api/flows/upsert'' (Some (enc_flow
       (zero_flow\<lparr>fl_SrcAgent := ''a'', fl_DstAgent := ''b'', fl_Protocol := ICMP\<rparr>))))
       (controller_New None None None demo_secured)) = Response 200 (enc_flow saved) \<and> fl_Protocol saved = ICMP"
proof -
  let ?f = "zero_flow\<lparr>fl_SrcAgent := ''a'', fl_DstAgent := ''b'', fl_Protocol := ICMP\<rparr>"
  let ?r = "demo_post ''/api/flows/upsert'' (Some (enc_flow ?f))"
  let ?c = "controller_New None None None demo_secured"
  obtain saved fs where u: "upsert (we_wr demo_env 0) (we_rand demo_env 0) ?f (ct_flows ?c) = (saved, fs)"
    by (cases "upsert (we_wr demo_env 0) (we_rand demo_env 0) ?f (ct_flows ?c)")
  have "sound_flow ?f" "\<not> ct_running ?c"
    by (simp_all add: sound_flow_def zero_flow_def controller_New_def)
  with flow_editor_checks_input [of ?r ?f demo_env ?c] u
  have "fst (handleFlowUpsert demo_env ?r ?c) = Response 200 (enc_flow saved)" "saved = ?f\<lparr>fl_ID := fl_ID saved\<rparr>"
    by (simp_all add: demo_post_def flow_ok_def zero_flow_def int64_range_def)
  moreover from this(2) have "fl_Protocol saved = ICMP"
    by (metis flow.select_convs(5) flow.surjective flow.update_convs(1) flow.update_convs(3)
        flow.update_convs(5) flow.update_convs(6) zero_flow_def)
  ultimately show ?thesis by blast
qed

subsection \<open>The mesh generator\<close>

text \<open>The flows appended by a stretch of the loops, up to their random IDs.\<close>

definition meshed :: "mesh_state \<Rightarrow> mesh_state \<Rightarrow> flow list \<Rightarrow> bool" where
  "meshed st st' fl \<longleftrightarrow>
     (\<exists>ms. fs_flows (fst st') = fs_flows (fst st) @ ms \<and> snd st' = snd st + length ms \<and>
        map (\<lambda>f. f\<lparr>fl_ID := ''''\<rparr>) ms = fl)"

lemma meshed_refl: "meshed st st []"
  by (simp add: meshed_def)

lemma meshed_trans: "meshed st1 st2 fl1 \<Longrightarrow> meshed st2 st3 fl2 \<Longrightarrow> meshed st1 st3 (fl1 @ fl2)"
  unfolding meshed_def by (elim exE conjE) (rule_tac x = "ms @ msa" in exI, simp)

lemma meshed_fold:
  "(\<And>x st. x \<in> set xs \<Longrightarrow> meshed st (f x st) (g x)) \<Longrightarrow> meshed st (fold f xs st) (concat (map g xs))"
proof (induction xs arbitrary: st)
  case (Cons x xs)
  have "meshed st (f x st) (g x)" "meshed (f x st) (fold f xs (f x st)) (concat (map g xs))"
    using Cons.prems Cons.IH by simp_all
  from meshed_trans [OF this] show ?case by simp
qed (simp add: meshed_refl)

lemma mesh_flow_anonymous: "(mesh_flow q a b p)\<lparr>fl_ID := ''''\<rparr> = mesh_flow q a b p"
  by (simp add: mesh_flow_def zero_flow_def Let_def)

lemma meshed_proto:
  "meshed st (mesh_proto wr rand q a b p st) (if profile_Valid p then [mesh_flow q a b p] else [])"
  by (cases st) (auto simp: meshed_def mesh_proto_def flow_add_def mesh_flow_anonymous)

lemma meshed_pair:
  "meshed st (mesh_pair wr rand q a b st)
     (if a \<noteq> b then map (mesh_flow q a b) (filter profile_Valid (mq_Protocols q)) else [])"
proof -
  have "concat (map (\<lambda>p. if profile_Valid p then [mesh_flow q a b p] else []) ps) =
      map (mesh_flow q a b) (filter profile_Valid ps)" for ps
    by (induction ps) auto
  moreover have "meshed st (fold (mesh_proto wr rand q a b) (mq_Protocols q) st)
      (concat (map (\<lambda>p. if profile_Valid p then [mesh_flow q a b p] else []) (mq_Protocols q)))"
    by (rule meshed_fold) (rule meshed_proto)
  ultimately show ?thesis
    by (simp add: mesh_pair_def meshed_refl)
qed

definition full_mesh :: "mesh_request \<Rightarrow> string list \<Rightarrow> flow list" where
  "full_mesh q ids = [mesh_flow q a b p. a \<leftarrow> ids, b \<leftarrow> ids, a \<noteq> b, p \<leftarrow> filter profile_Valid (mq_Protocols q)]"

lemma meshed_loops: "meshed st (mesh_loops wr rand q ids st) (full_mesh q ids)"
  unfolding mesh_loops_def full_mesh_def
  by (rule meshed_fold, rule meshed_fold) (use meshed_pair in \<open>simp add: map_concat\<close>)

lemma count_others:
  "distinct ids \<Longrightarrow> (\<Sum>b \<leftarrow> ids. if a \<noteq> b then k else 0) = (length ids - (if a \<in> set ids then 1 else 0)) * (k :: nat)"
proof (induction ids)
  case (Cons x xs)
  have "a \<in> set xs \<Longrightarrow> 1 \<le> length xs"
    by (cases xs) auto
  with Cons show ?case
    by (auto simp: algebra_simps diff_mult_distrib)
qed simp

lemma full_mesh_length:
  assumes "distinct ids"
  shows "length (full_mesh q ids) = length ids * (length ids - 1) * length (filter profile_Valid (mq_Protocols q))"
proof -
  let ?k = "length (filter profile_Valid (mq_Protocols q))"
  have row: "(\<Sum>b \<leftarrow> ids. length (if a \<noteq> b then map (mesh_flow q a b) (filter profile_Valid (mq_Protocols q)) else []))
      = (length ids - 1) * ?k" if "a \<in> set ids" for a
    using count_others [OF assms, of a ?k] that by (simp add: if_distrib [of length] cong: if_cong)
  have "length (full_mesh q ids) = (\<Sum>a \<leftarrow> ids. (length ids - 1) * ?k)"
    unfolding full_mesh_def length_concat map_map o_def
    by (intro arg_cong [of _ _ sum_list] map_cong refl) (use row in \<open>simp add: length_concat o_def\<close>)
  then show ?thesis
    by (simp add: sum_list_triv mult.assoc)
qed

lemma Agents_ids: "map ai_ID (Agents ord h) = filter (\<lambda>a. hb_agents h a \<noteq> None) ord"
  by (simp add: Agents_def agent_info_of_def Let_def o_def)


text \<open>
  The mesh generator produces a full mesh.  With the connected agents in whatever order the map
  yields them, it appends to the existing flows exactly one flow for every ordered pair of different
  agents and every valid protocol asked for (all three when none is named), n * (n - 1) * k
  flows for n agents and k protocols, and reports this number.
\<close>

theorem mesh_is_complete:
  assumes "decodeJSON dec_mesh_request r = Inr q0" and "distinct (we_ord w)"
  shows "let q = (if mq_Protocols q0 = [] then q0\<lparr>mq_Protocols := AllProfiles\<rparr> else q0);
       ids = filter (\<lambda>a. hb_agents (ct_hub c) a \<noteq> None) (we_ord w);
       k = length (filter profile_Valid (mq_Protocols q));
       (resp, c', evs) = handleFlowsMesh w r c in
     (\<exists>ms. flows_all (ct_flows c') = flows_all (ct_flows c) @ ms \<and> length ms = length ids * (length ids - 1) * k \<and>
        map (\<lambda>f. f\<lparr>fl_ID := ''''\<rparr>) ms =
          [mesh_flow q a b p. a \<leftarrow> ids, b \<leftarrow> ids, a \<noteq> b, p \<leftarrow> filter profile_Valid (mq_Protocols q)]) \<and>
     (\<not> ct_running c \<longrightarrow> resp = Response 202 (JObj
        [(''added'', JInt (int (length ids * (length ids - 1) * k))), (''status'', JStr ''mesh-generated'')]))"
proof -
  let ?q = "if mq_Protocols q0 = [] then q0\<lparr>mq_Protocols := AllProfiles\<rparr> else q0"
  let ?ids = "filter (\<lambda>a. hb_agents (ct_hub c) a \<noteq> None) (we_ord w)"
  obtain fs n where l: "mesh_loops (we_wr w) (we_rand w) ?q ?ids (ct_flows c, 0) = (fs, n)"
    by (cases "mesh_loops (we_wr w) (we_rand w) ?q ?ids (ct_flows c, 0)")
  from meshed_loops [of "(ct_flows c, 0)" "we_wr w" "we_rand w" ?q ?ids] l obtain ms where ms:
    "fs_flows fs = fs_flows (ct_flows c) @ ms" "n = length ms" "map (\<lambda>f. f\<lparr>fl_ID := ''''\<rparr>) ms = full_mesh ?q ?ids"
    by (auto simp: meshed_def)
  have len: "length ms = length ?ids * (length ?ids - 1) * length (filter profile_Valid (mq_Protocols ?q))"
    using full_mesh_length [of ?ids ?q] assms(2) ms(3) by (metis distinct_filter length_map)
  have h: "handleFlowsMesh w r c = flows_changed fs
      (Response 202 (JObj [(''added'', JInt (int (length ms))), (''status'', JStr ''mesh-generated'')])) c"
    using l ms(2) by (simp add: handleFlowsMesh_def assms(1) Agents_ids Let_def)
  show ?thesis
    unfolding Let_def h flows_changed_effect prod.case
  proof (intro conjI impI)
    show "\<exists>ms. flows_all (ct_flows (c\<lparr>ct_flows := fs, ct_store := Map.empty, ct_jobs := js\<rparr>)) = flows_all (ct_flows c) @ ms \<and>
        length ms = length ?ids * (length ?ids - 1) * length (filter profile_Valid (mq_Protocols ?q)) \<and>
        map (\<lambda>f. f\<lparr>fl_ID := ''''\<rparr>) ms =
          [mesh_flow ?q a b p. a \<leftarrow> ?ids, b \<leftarrow> ?ids, a \<noteq> b, p \<leftarrow> filter profile_Valid (mq_Protocols ?q)]" for js
      using ms(1,3) len by (intro exI [of _ ms]) (simp add: flows_all_def full_mesh_def)
  qed (simp add: len)
qed

text \<open>Two connected agents and an empty JSON object: six flows, four of which the flow editor would
  refuse, since the generator does not ask for a port.\<close>

definition demo_two :: controller where
  "demo_two = (controller_New None None None demo_secured)\<lparr>ct_hub :=
     (NewHub '''')\<lparr>hb_agents := [''a'' \<mapsto> 0, ''b'' \<mapsto> 1]\<rparr>\<rparr>"

theorem mesh_is_complete_witness:
  "\<exists>ms. flows_all (ct_flows (fst (snd (handleFlowsMesh (demo_env\<lparr>we_ord := [''a'', ''b'']\<rparr>)
     (demo_post ''/api/flows/mesh'' (Some (JObj []))) demo_two)))) = ms \<and>
     length ms = 6 \<and> length (filter (\<lambda>f. \<not> sound_flow f) ms) = 4"
proof -
  let ?w = "demo_env\<lparr>we_ord := [''a'', ''b'']\<rparr>"
  let ?q = "\<lparr>mq_Port = 0, mq_Protocols = AllProfiles, mq_Symmetric = False\<rparr>"
  have dec: "decodeJSON dec_mesh_request (demo_post ''/api/flows/mesh'' (Some (JObj []))) =
      Inr \<lparr>mq_Port = 0, mq_Protocols = [], mq_Symmetric = False\<rparr>"
    by (simp add: decodeJSON_def demo_post_def dec_mesh_request_def)
  from mesh_is_complete [OF dec, of ?w demo_two] obtain ms where ms:
    "flows_all (ct_flows (fst (snd (handleFlowsMesh ?w (demo_post ''/api/flows/mesh'' (Some (JObj []))) demo_two)))) = ms"
    "map (\<lambda>f. f\<lparr>fl_ID := ''''\<rparr>) ms =
       [mesh_flow ?q a b p. a \<leftarrow> [''a'', ''b''], b \<leftarrow> [''a'', ''b''], a \<noteq> b, p \<leftarrow> AllProfiles]"
    by (auto simp: demo_two_def controller_New_def Let_def flows_all_def newFlowStore_def flow_load_def
        AllProfiles_def profile_Valid_def split: prod.splits)
  have sound: "sound_flow (f\<lparr>fl_ID := ''''\<rparr>) = sound_flow f" for f
    by (simp add: sound_flow_def)
  have "length (filter (\<lambda>f. \<not> sound_flow f) ms) = length (filter (\<lambda>f. \<not> sound_flow f) (map (\<lambda>f. f\<lparr>fl_ID := ''''\<rparr>) ms))"
    by (simp add: filter_map o_def sound)
  also have "\<dots> = 4"
    unfolding ms(2) by (simp add: AllProfiles_def mesh_flow_def sound_flow_def zero_flow_def
        profile_HasPorts_def Let_def)
  finally have four: "length (filter (\<lambda>f. \<not> sound_flow f) ms) = 4" .
  have "length ms = 6"
    using arg_cong [OF ms(2), of length] by (simp add: AllProfiles_def del: length_0_conv)
  with four ms(1) show ?thesis by blast
qed

end
