(* ===== verification/ControllerRun.thy ===== *)
theory ControllerRun
  imports WebApi
begin

text \<open>
  The controller as a whole: a step relation over the HTTP requests, the waiting jobs, the hub's
  connections with its sinks, the event pump and the browser sessions, and what holds in every
  history.  The predicate \<open>P\<close> restricts the requests that may be made.
\<close>

subsection \<open>The sinks of the hub\<close>

definition sink_out :: "web_env \<Rightarrow> hub_out \<Rightarrow> controller \<Rightarrow> (controller \<times> event list) option" where
  "sink_out w x c = (case x of
       OutEvent e \<Rightarrow> Some (c, [e])
     | OutTelemetry a ms replay \<Rightarrow> onTelemetry w ms replay c
     | OutDiag ch \<Rightarrow> map_option (\<lambda>c'. (c', [])) (onDiag ch c))"

fun sink_all :: "web_env \<Rightarrow> hub_out list \<Rightarrow> controller \<Rightarrow> (controller \<times> event list) option" where
  "sink_all w [] c = Some (c, [])"
| "sink_all w (x # xs) c =
     (case sink_out w x c of None \<Rightarrow> None
      | Some (c1, evs) \<Rightarrow>
          (case sink_all w xs c1 of None \<Rightarrow> None | Some (c2, evs2) \<Rightarrow> Some (c2, evs @ evs2)))"

text \<open>The writer of a session takes the oldest message of its channel.\<close>

definition session_take :: "nat \<Rightarrow> controller \<Rightarrow> (ui_kind \<times> controller) option" where
  "session_take cl c =
     (case ch_buf (ui_heap (ct_ui c) cl) of [] \<Rightarrow> None
      | m # ms \<Rightarrow> Some (m, c\<lparr>ct_ui := (ct_ui c)\<lparr>ui_heap :=
          (ui_heap (ct_ui c))(cl := (ui_heap (ct_ui c) cl)\<lparr>ch_buf := ms\<rparr>)\<rparr>\<rparr>))"

subsection \<open>Histories\<close>

inductive controller_step :: "(request \<Rightarrow> bool) \<Rightarrow> controller \<Rightarrow> controller \<Rightarrow> bool" for P where
  request: "P r \<Longrightarrow> serve w r c = (resp, c', evs) \<Longrightarrow> controller_step P c c'"
| job: "i < length (ct_jobs c) \<Longrightarrow> job_step w i c = Some (c', resp, evs) \<Longrightarrow> controller_step P c c'"
| message: "k < hb_next (ct_hub c) \<Longrightarrow> onMessage ptime pick now k env (ct_hub c) = (h, out) \<Longrightarrow>
    sink_all w out (c\<lparr>ct_hub := h\<rparr>) = Some (c', evs) \<Longrightarrow> controller_step P c c'"
| pump: "k < hb_next (ct_hub c) \<Longrightarrow> pump_step (ac_peer (hb_conns (ct_hub c) k)) fs p \<Longrightarrow>
    controller_step P c (c\<lparr>ct_hub := upd_conn k (\<lambda>ac. ac\<lparr>ac_peer := p\<rparr>) (ct_hub c)\<rparr>)"
| ended: "k < hb_next (ct_hub c) \<Longrightarrow> conn_ended k (ct_hub c) = (h, out) \<Longrightarrow>
    controller_step P c (c\<lparr>ct_hub := h\<rparr>)"
| event: "controller_pump_event e c = Some c' \<Longrightarrow> controller_step P c c'"
| session_take: "session_take cl c = Some (m, c') \<Longrightarrow> controller_step P c c'"
| session_end: "closeUI cl c = Some c' \<Longrightarrow> controller_step P c c'"

inductive controller_run :: "(request \<Rightarrow> bool) \<Rightarrow> controller \<Rightarrow> controller \<Rightarrow> bool" for P c0 where
  start: "controller_run P c0 c0"
| step: "controller_run P c0 c \<Longrightarrow> controller_step P c c' \<Longrightarrow> controller_run P c0 c'"

inductive_cases controller_stepE: "controller_step P c c'"

subsection \<open>What the parts leave alone\<close>

text \<open>The configuration and the secrets.\<close>

definition same_setup :: "controller \<Rightarrow> controller \<Rightarrow> bool" where
  "same_setup c c' \<longleftrightarrow> ct_cfg c' = ct_cfg c \<and> ct_auth c' = ct_auth c \<and> ct_uiToken c' = ct_uiToken c"

text \<open>What an operator decides, and the work under way.\<close>

definition same_decisions :: "controller \<Rightarrow> controller \<Rightarrow> bool" where
  "same_decisions c c' \<longleftrightarrow> ct_admin c' = ct_admin c \<and> ct_flows c' = ct_flows c \<and> ct_running c' = ct_running c \<and>
     ct_curInterval c' = ct_curInterval c \<and> ct_jobs c' = ct_jobs c"

lemma same_refl [simp]: "same_setup c c" "same_decisions c c"
  by (simp_all add: same_setup_def same_decisions_def)

lemma same_trans:
  "same_setup c1 c2 \<Longrightarrow> same_setup c2 c3 \<Longrightarrow> same_setup c1 c3"
  "same_decisions c1 c2 \<Longrightarrow> same_decisions c2 c3 \<Longrightarrow> same_decisions c1 c3"
  by (simp_all add: same_setup_def same_decisions_def)

definition broadcasts :: "controller \<Rightarrow> ui_hub \<Rightarrow> ui_hub \<Rightarrow> bool" where
  "broadcasts c ui ui' \<longleftrightarrow> ui' = ui \<or>
     (\<exists>m only. uiBroadcast (m, only) ui = Some ui' \<and> (\<forall>ch. m = KDiag ch \<longrightarrow> only = au_enabled (ct_auth c)))"

lemma broadcastsI [intro]:
  "broadcasts c ui ui"
  "uiBroadcast (KDiag ch, au_enabled (ct_auth c)) ui = Some ui' \<Longrightarrow> broadcasts c ui ui'"
  "uiBroadcast (KTelemetry ms r, only) ui = Some ui' \<Longrightarrow> broadcasts c ui ui'"
  "uiBroadcast (KEvent e, only) ui = Some ui' \<Longrightarrow> broadcasts c ui ui'"
  by (auto simp: broadcasts_def)

lemma onTelemetry_effect:
  assumes "onTelemetry w ms replay c = Some (c', evs)"
  shows "same_setup c c' \<and> same_decisions c c' \<and> ct_hub c' = ct_hub c \<and> broadcasts c (ct_ui c) (ct_ui c')"
  using assms
  by (auto simp: onTelemetry_def same_setup_def same_decisions_def Let_def
      split: option.splits if_splits prod.splits)

lemma onDiag_effect:
  assumes "onDiag ch c = Some c'"
  shows "same_setup c c' \<and> same_decisions c c' \<and> ct_hub c' = ct_hub c \<and> broadcasts c (ct_ui c) (ct_ui c')"
  using assms by (auto simp: onDiag_def same_setup_def same_decisions_def)

lemma pump_event_effect:
  assumes "controller_pump_event e c = Some c'"
  shows "same_setup c c' \<and> same_decisions c c' \<and> broadcasts c (ct_ui c) (ct_ui c')"
  using assms by (auto simp: controller_pump_event_def same_setup_def same_decisions_def)

lemma sink_out_effect:
  assumes "sink_out w x c = Some (c', evs)"
  shows "same_setup c c' \<and> same_decisions c c' \<and> ct_hub c' = ct_hub c \<and> broadcasts c (ct_ui c) (ct_ui c')"
  using assms onTelemetry_effect onDiag_effect
  by (cases x) (auto simp: sink_out_def)

text \<open>The jobs touch the hub and themselves; \<open>curInterval\<close> is set under the lock.\<close>

lemma job_step_effect:
  assumes "job_step w i c = Some (c', resp, evs)"
  shows "same_setup c c' \<and> ct_admin c' = ct_admin c \<and> ct_flows c' = ct_flows c \<and> ct_running c' = ct_running c \<and>
     ct_ui c' = ct_ui c"
  using assms
  by (auto simp: job_step_def Let_def set_job_def drop_job_def same_setup_def apply_begin_def
      split: work.splits if_splits option.splits list.splits prod.splits send_result.splits)

lemma reapply_sel [simp]:
  "ct_cfg (snd (reapply resp c)) = ct_cfg c" "ct_auth (snd (reapply resp c)) = ct_auth c"
  "ct_uiToken (snd (reapply resp c)) = ct_uiToken c" "ct_ui (snd (reapply resp c)) = ct_ui c"
  by (simp_all add: reapply_def needs_lock_def)

lemma privileged_effect:
  assumes "(p, h) \<in> set (privileged_routes w)" and "h r c = (resp, c', evs)"
  shows "same_setup c c' \<and> ct_ui c' = ct_ui c"
  using assms
  by (auto simp: privileged_routes_def same_setup_def handleTestStart_def handleTestStop_def
      handleFlowUpsert_def handleFlowDelete_def handleFlowsMesh_def handleFlowsClear_def handleDiag_def
      handleAdminUpdate_def handleAdminEvict_def flows_changed_effect needs_lock_def reapply_def Let_def
      split: sum.splits option.splits prod.splits if_splits send_result.splits)

lemma serve_cases:
  assumes "serve w r c = (resp, c', evs)"
  obtains (privileged) p h where "(p, h) \<in> set (privileged_routes w)" "Authenticated (ct_auth c) r" "h r c = (resp, c', evs)"
  | (session) "rq_path r = ''/ws/ui''" "we_upgrade w" "sameOrigin (we_urlhost w) (we_unifold w) r"
      "c' = c\<lparr>ct_ui := snd (uiAdd (session_privileged r c) (ct_ui c))\<rparr>"
  | (hub) h where "c' = c\<lparr>ct_hub := h\<rparr>"
  | (same) "c' = c"
proof (cases "rq_path r \<in> fst ` set (privileged_routes w)")
  case True
  from serve_privileged [OF True] obtain h where h: "map_of (privileged_routes w) (rq_path r) = Some h"
    "serve w r c = RequireWriteFunc h r c" by blast
  with assms privileged [OF map_of_SomeD [OF h(1)]] same show ?thesis
    by (cases "Authenticated (ct_auth c) r") (auto simp: RequireWriteFunc_def RequireWrite_def)
next
  case False
  note s = assms [unfolded serve_open [OF False]]
  consider "serve_agent w r c = (resp, c', evs)" | "rq_path r = ''/ws/ui''" "serveUI w r c = (resp, c', evs)" | "c' = c"
    using s by (auto simp: handleInfo_def handleAuthInfo_def Let_def handleAgents_def handleMetrics_def
        handleFlowsList_def split: if_splits)
  then show ?thesis
  proof cases
    case 1
    with hub show ?thesis by (auto simp: serve_agent_def split: prod.splits accept_result.splits)
  next
    case 2
    with session same show ?thesis by (auto simp: serveUI_def split: if_splits)
  qed (rule same)
qed


subsection \<open>Browser sessions\<close>

text \<open>No diagnostic output waits in the channel of a session that is not privileged.\<close>

definition diag_private :: "ui_hub \<Rightarrow> bool" where
  "diag_private ui \<longleftrightarrow>
     (\<forall>cl ch. KDiag ch \<in> set (ch_buf (ui_heap ui cl)) \<longrightarrow> ui_privileged ui cl)"

lemma offer_set: "set (ch_buf (offer m c)) \<subseteq> insert m (set (ch_buf c))"
  by (auto simp: offer_def)

lemma broadcasts_keeps [keeps]:
  assumes "broadcasts c ui ui'" and "ui_ok ui"
  shows "ui_ok ui' \<and> ui_privileged ui' = ui_privileged ui \<and>
     (au_enabled (ct_auth c) \<longrightarrow> diag_private ui \<longrightarrow> diag_private ui')"
proof (cases "ui' = ui")
  case False
  then obtain m only where b: "uiBroadcast (m, only) ui = Some ui'"
    "\<forall>ch. m = KDiag ch \<longrightarrow> only = au_enabled (ct_auth c)"
    using assms(1) by (auto simp: broadcasts_def)
  then have ui': "ui' = ui\<lparr>ui_heap := \<lambda>i. if i \<in> set (ui_clients ui) \<and> ui_wants ui (m, only) i
      then offer m (ui_heap ui i) else ui_heap ui i\<rparr>"
    using uiBroadcast_open [OF assms(2), of "(m, only)"] by (simp cong: if_cong)
  then have "ui_ok ui'" "ui_privileged ui' = ui_privileged ui"
    using assms(2) by (simp_all add: ui_ok_def)
  moreover have "diag_private ui'" if "au_enabled (ct_auth c)" "diag_private ui"
    unfolding diag_private_def
  proof (intro allI impI)
    fix cl ch
    assume d: "KDiag ch \<in> set (ch_buf (ui_heap ui' cl))"
    then have "KDiag ch \<in> set (ch_buf (ui_heap ui cl)) \<or> m = KDiag ch \<and> ui_wants ui (m, only) cl"
      using offer_set [of m "ui_heap ui cl"] by (auto simp: ui' split: if_splits)
    with that b(2) show "ui_privileged ui' cl"
      by (auto simp: diag_private_def ui_wants_def ui')
  qed
  ultimately show ?thesis by blast
qed (use assms(2) in simp)

lemma add_keeps [keeps]:
  "diag_private ui \<Longrightarrow> ui_ok ui \<Longrightarrow> diag_private (snd (uiAdd p ui))"
  by (auto simp: diag_private_def uiAdd_def Let_def)

lemma remove_keeps [keeps]:
  assumes "uiRemove cl ui = Some ui'" and "ui_ok ui"
  shows "ui_ok ui' \<and> ui_privileged ui' = ui_privileged ui \<and> (diag_private ui \<longrightarrow> diag_private ui')"
proof -
  have "ui_ok ui'"
    using assms ui_ok_remove [OF assms(2), of cl] by auto
  moreover have "ui_privileged ui' = ui_privileged ui" "\<forall>i. ch_buf (ui_heap ui' i) = ch_buf (ui_heap ui i)"
    using assms(1) by (auto simp: uiRemove_def close_chan_def split: if_splits)
  ultimately show ?thesis
    by (simp add: diag_private_def)
qed

lemma take_keeps [keeps]:
  assumes "session_take cl c = Some (m, c')" and "ui_ok (ct_ui c)"
  shows "ui_ok (ct_ui c') \<and> ui_privileged (ct_ui c') = ui_privileged (ct_ui c) \<and>
     (diag_private (ct_ui c) \<longrightarrow> diag_private (ct_ui c')) \<and> same_setup c c' \<and> same_decisions c c'"
proof -
  have "\<forall>i. set (ch_buf (ui_heap (ct_ui c') i)) \<subseteq> set (ch_buf (ui_heap (ct_ui c) i)) \<and>
      ch_closed (ui_heap (ct_ui c') i) = ch_closed (ui_heap (ct_ui c) i)"
    "ui_privileged (ct_ui c') = ui_privileged (ct_ui c)" "same_setup c c'" "same_decisions c c'"
    "ui_clients (ct_ui c') = ui_clients (ct_ui c)" "ui_next (ct_ui c') = ui_next (ct_ui c)"
    using assms(1) by (auto simp: session_take_def same_setup_def same_decisions_def split: list.splits if_splits)
  note f = this
  have "ui_ok (ct_ui c')"
    using assms(2) f by (simp add: ui_ok_def)
  moreover have "diag_private (ct_ui c) \<longrightarrow> diag_private (ct_ui c')"
    unfolding diag_private_def f(2) using f(1) by blast
  ultimately show ?thesis using f(2-4) by simp
qed

lemma sink_all_keeps [keeps]:
  assumes "sink_all w xs c = Some (c', evs)" and "ui_ok (ct_ui c)"
  shows "same_setup c c' \<and> same_decisions c c' \<and> ct_hub c' = ct_hub c \<and> ui_ok (ct_ui c') \<and>
     ui_privileged (ct_ui c') = ui_privileged (ct_ui c) \<and>
     (au_enabled (ct_auth c) \<longrightarrow> diag_private (ct_ui c) \<longrightarrow> diag_private (ct_ui c'))"
  using assms
proof (induction xs arbitrary: c evs)
  case (Cons x xs)
  then obtain c1 e1 e2 where c1: "sink_out w x c = Some (c1, e1)" "sink_all w xs c1 = Some (c', e2)"
    by (auto split: option.splits)
  note s = sink_out_effect [OF c1(1)]
  then have k: "ui_ok (ct_ui c1)" "ui_privileged (ct_ui c1) = ui_privileged (ct_ui c)"
    "au_enabled (ct_auth c) \<longrightarrow> diag_private (ct_ui c) \<longrightarrow> diag_private (ct_ui c1)"
    using broadcasts_keeps [of c "ct_ui c" "ct_ui c1"] Cons.prems(2) by blast+
  from Cons.IH [OF c1(2) k(1)] s k show ?case
    by (auto simp: same_setup_def same_decisions_def)
qed simp

subsection \<open>The invariant of a secured controller\<close>

definition run_inv :: "(request \<Rightarrow> bool) \<Rightarrow> controller \<Rightarrow> controller \<Rightarrow> bool" where
  "run_inv P c0 c \<longleftrightarrow> same_setup c0 c \<and> ui_ok (ct_ui c) \<and> diag_private (ct_ui c) \<and>
     ((\<forall>r. P r \<longrightarrow> rq_token r \<noteq> ct_uiToken c0) \<longrightarrow> (\<forall>cl. \<not> ui_privileged (ct_ui c) cl)) \<and>
     ((\<forall>r. P r \<longrightarrow> \<not> has_credentials r c0) \<longrightarrow> same_decisions c0 c)"

lemma same_setup_secured: "same_setup c0 c \<Longrightarrow> secured c0 \<Longrightarrow> secured c \<and> has_credentials r c = has_credentials r c0"
  by (simp add: same_setup_def secured_def has_credentials_def)

lemma run_inv_parts:
  assumes "run_inv P c0 c" and "same_setup c c'" and "same_decisions c c'" and "ui_ok (ct_ui c')"
    and "ui_privileged (ct_ui c') = ui_privileged (ct_ui c)" and "diag_private (ct_ui c')"
  shows "run_inv P c0 c'"
  using assms same_trans unfolding run_inv_def by metis

lemma run_inv_request:
  assumes inv: "run_inv P c0 c" and sec: "secured c0" and r: "P r" and s: "serve w r c = (resp, c', evs)"
  shows "run_inv P c0 c'"
proof -
  have su: "same_setup c0 c" "ui_ok (ct_ui c)" "diag_private (ct_ui c)"
    using inv by (simp_all add: run_inv_def)
  note sc = same_setup_secured [OF su(1) sec]
  from s show ?thesis
  proof (cases rule: serve_cases)
    case (privileged p h)
    have "same_setup c c'" "ct_ui c' = ct_ui c"
      using privileged_effect [OF privileged(1,3)] by simp_all
    moreover have "has_credentials r c0"
      using privileged(2) secured_Authenticated [of c r] sc by blast
    ultimately show ?thesis
      using inv r same_trans(1) [of c0 c c'] by (auto simp: run_inv_def)
  next
    case session
    have "session_privileged r c \<longleftrightarrow> rq_token r = ct_uiToken c0"
      using sc su(1)
      by (simp add: session_privileged_def secured_def same_setup_def ct_compare_strings del: One_nat_def)
    with session inv r ui_ok_add [OF su(2)] add_keeps [OF su(3,2)] show ?thesis
      by (auto simp: run_inv_def same_setup_def same_decisions_def uiAdd_def Let_def)
  next
    case (hub h)
    with inv show ?thesis
      by (simp add: run_inv_def same_setup_def same_decisions_def)
  next
    case same
    with inv show ?thesis by simp
  qed
qed

lemma run_inv_job:
  assumes "run_inv P c0 c" and "ct_jobs c0 = []" and "i < length (ct_jobs c)"
    and "job_step w i c = Some (c', resp, evs)"
  shows "run_inv P c0 c'"
  using assms job_step_effect [OF assms(4)] same_trans(1) [of c0 c c']
  by (auto simp: run_inv_def same_decisions_def)

lemma run_inv_step:
  assumes "controller_step P c c'" and inv: "run_inv P c0 c" and "secured c0" and "ct_jobs c0 = []"
  shows "run_inv P c0 c'"
  using assms(1)
proof (cases rule: controller_step.cases)
  case (request r w resp evs)
  then show ?thesis using run_inv_request [OF inv assms(3)] by blast
next
  case (job i w resp evs)
  then show ?thesis using run_inv_job [OF inv assms(4)] by blast
next
  case (message k ptime pick now env h out w evs)
  have "same_setup c (c\<lparr>ct_hub := h\<rparr>)" "same_decisions c (c\<lparr>ct_hub := h\<rparr>)" "au_enabled (ct_auth c)"
    using inv assms(3) by (simp_all add: same_setup_def same_decisions_def run_inv_def secured_def auth_New_def)
  with sink_all_keeps [OF message(3)] inv show ?thesis
    by (intro run_inv_parts [OF inv]) (auto simp: run_inv_def dest: same_trans)
next
  case (event e)
  have "au_enabled (ct_auth c)"
    using inv assms(3) by (simp add: same_setup_def run_inv_def secured_def auth_New_def)
  with pump_event_effect [OF event] broadcasts_keeps [of c "ct_ui c" "ct_ui c'"] inv show ?thesis
    by (intro run_inv_parts [OF inv]) (auto simp: run_inv_def)
next
  case (session_take cl m)
  with take_keeps [OF this] inv show ?thesis
    by (intro run_inv_parts [OF inv]) (auto simp: run_inv_def)
next
  case (session_end cl)
  then obtain ui where "uiRemove cl (ct_ui c) = Some ui" "c' = c\<lparr>ct_ui := ui\<rparr>"
    by (auto simp: closeUI_def)
  with remove_keeps [OF this(1)] inv show ?thesis
    by (intro run_inv_parts [OF inv]) (auto simp: run_inv_def same_setup_def same_decisions_def)
qed (use inv in \<open>simp_all add: run_inv_def same_setup_def same_decisions_def\<close>)

lemma controller_run_inv:
  assumes "controller_run P c0 c" and "secured c0" and "ct_jobs c0 = []" and "ct_ui c0 = uiNewHub"
  shows "run_inv P c0 c"
  using assms
proof (induction rule: controller_run.induct)
  case start
  then show ?case
    using ui_ok_new by (simp add: run_inv_def diag_private_def) (simp add: uiNewHub_def)
next
  case (step c c')
  then show ?case by (blast intro: run_inv_step)
qed


lemma secured_New:
  "cf_AuthEnabled cfg \<Longrightarrow> secured (controller_New rand af ff cfg) \<and>
   ct_jobs (controller_New rand af ff cfg) = [] \<and> ct_ui (controller_New rand af ff cfg) = uiNewHub \<and>
   ct_uiToken (controller_New rand af ff cfg) = randomToken rand \<and>
   has_credentials r (controller_New rand af ff cfg) = (rq_auth r = Some (cf_AdminUser cfg, cf_AdminPass cfg))"
  by (simp add: secured_def controller_New_def has_credentials_def)

text \<open>
  C1: A secured controller stays secured in every history, whatever agents, browsers and HTTP clients
  do and in whatever order: diagnostic output is only ever queued for privileged browser sessions; a
  privileged session exists only if somebody presented the session secret; and settings,
  flows, the running flag, the interval and the jobs under way are those of the start unless
  somebody presented the configured credentials.
\<close>

theorem secured_controller:
  assumes "controller_run P (controller_New rand af ff cfg) c" and "cf_AuthEnabled cfg"
  shows "(\<forall>cl ch. KDiag ch \<in> set (ch_buf (ui_heap (ct_ui c) cl)) \<longrightarrow> ui_privileged (ct_ui c) cl) \<and>
     (\<forall>cl. ui_privileged (ct_ui c) cl \<longrightarrow> (\<exists>r. P r \<and> rq_token r = randomToken rand)) \<and>
     (\<not> same_decisions (controller_New rand af ff cfg) c \<longrightarrow>
        (\<exists>r. P r \<and> rq_auth r = Some (cf_AdminUser cfg, cf_AdminPass cfg)))"
proof -
  note new = secured_New [OF assms(2), of rand af ff]
  have "run_inv P (controller_New rand af ff cfg) c"
    using controller_run_inv [OF assms(1)] new by blast
  with new show ?thesis
    unfolding run_inv_def diag_private_def by metis
qed

text \<open>An anonymous browser session on a secured controller, and a diagnostic chunk from an agent.\<close>

lemma demo_session_run:
  assumes "P (demo_post ''/ws/ui'' None)"
  shows "\<exists>c. controller_run P (controller_New rand af ff cfg) c \<and> ui_next (ct_ui c) = 1 \<and>
     ui_clients (ct_ui c) = [0]"
proof -
  let ?c0 = "controller_New rand af ff cfg" and ?r = "demo_post ''/ws/ui'' None"
  obtain resp c evs where s: "serve demo_env ?r ?c0 = (resp, c, evs)"
    by (cases "serve demo_env ?r ?c0")
  have "controller_step P ?c0 c"
    by (rule controller_step.request [OF _ s]) (rule assms)
  then have run: "controller_run P ?c0 c"
    by (rule controller_run.step [OF controller_run.start])
  then show ?thesis
    using s by (auto simp: serve_def open_routes_def demo_post_def serveUI_def demo_env_def uiAdd_def
        sameOrigin_def controller_New_def uiNewHub_def Let_def)
qed

theorem secured_controller_witness:
  "\<exists>c. controller_run (\<lambda>r. rq_auth r = None \<and> rq_token r = '''') (controller_New (Some ''s3cret'') None None demo_secured) c \<and>
     ui_next (ct_ui c) = 1 \<and> \<not> ui_privileged (ct_ui c) 0 \<and> ct_running c = False"
proof -
  let ?P = "\<lambda>r. rq_auth r = None \<and> rq_token r = ''''"
  let ?c0 = "controller_New (Some ''s3cret'') None None demo_secured"
  obtain c where run: "controller_run ?P ?c0 c" and one: "ui_next (ct_ui c) = 1"
    using demo_session_run [of ?P "Some ''s3cret''" None None demo_secured]
    by (auto simp: demo_post_def)
  have "\<not> ui_privileged (ct_ui c) 0" "same_decisions ?c0 c"
    using secured_controller [OF run] by (auto simp: demo_secured_def randomToken_def)
  then have "ct_running c = False"
    by (simp add: same_decisions_def controller_New_def)
  with run one \<open>\<not> ui_privileged (ct_ui c) 0\<close> show ?thesis by blast
qed

subsection \<open>No panic\<close>

lemma serve_ui_ok:
  assumes "serve w r c = (resp, c', evs)" and "ui_ok (ct_ui c)"
  shows "ui_ok (ct_ui c')"
  using assms(1)
proof (cases rule: serve_cases)
  case (privileged p h)
  then show ?thesis using privileged_effect [OF privileged(1,3)] assms(2) by simp
qed (use assms(2) ui_ok_add in simp_all)

lemma controller_step_ui_ok:
  assumes "controller_step P c c'" and "ui_ok (ct_ui c)"
  shows "ui_ok (ct_ui c')"
  using assms(1)
proof (cases rule: controller_step.cases)
  case (request r w resp evs)
  then show ?thesis using serve_ui_ok assms(2) by blast
next
  case (job i w resp evs)
  then show ?thesis using job_step_effect assms(2) by metis
next
  case (message k ptime pick now env h out w evs)
  then show ?thesis using sink_all_keeps [OF message(3)] assms(2) by simp
next
  case (event e)
  then show ?thesis using pump_event_effect broadcasts_keeps assms(2) by blast
next
  case (session_take cl m)
  then show ?thesis using take_keeps assms(2) by blast
next
  case (session_end cl)
  then show ?thesis using remove_keeps assms(2) by (auto simp: closeUI_def)
qed (use assms(2) in simp_all)

lemma sink_out_total: "ui_ok (ct_ui c) \<Longrightarrow> sink_out w x c \<noteq> None"
  by (cases x) (auto simp: sink_out_def onTelemetry_def onDiag_def uiBroadcast_open Let_def split: prod.splits)

lemma sink_all_total: "ui_ok (ct_ui c) \<Longrightarrow> sink_all w out c \<noteq> None"
proof (induction out arbitrary: c)
  case (Cons x xs)
  obtain c1 e1 where c1: "sink_out w x c = Some (c1, e1)"
    using sink_out_total [OF Cons.prems, of w x] by auto
  then have "ui_ok (ct_ui c1)"
    using sink_out_effect [OF c1] broadcasts_keeps Cons.prems by blast
  with Cons.IH [of c1] c1 show ?case by (auto split: option.splits)
qed simp

text \<open>
  C30: The controller never sends on or closes a closed channel.  In every history every frame an
  agent sends is handed to the sinks, every event is pumped to the browsers, and every session can
  be ended, however often and in whatever order sessions come and go.
\<close>

theorem controller_never_panics:
  assumes "controller_run P (controller_New rand af ff cfg) c"
  shows "sink_all w out c \<noteq> None \<and> controller_pump_event e c \<noteq> None \<and> closeUI cl c \<noteq> None"
proof -
  have ok: "ui_ok (ct_ui c)"
    using assms
  proof (induction rule: controller_run.induct)
    case start
    show ?case using ui_ok_new by (simp add: controller_New_def)
  next
    case (step c c')
    then show ?case by (blast intro: controller_step_ui_ok)
  qed
  obtain ui where "uiRemove cl (ct_ui c) = Some ui"
    using ui_ok_remove [OF ok] by blast
  then show ?thesis
    using sink_all_total [OF ok] uiBroadcast_open [OF ok]
    by (simp add: controller_pump_event_def closeUI_def)
qed

definition demo_event :: event where
  "demo_event = event0 ''AGENT_CONNECTED''"

definition demo_chunk :: diag_chunk where
  "demo_chunk = \<lparr>dc_RequestID = ''r1'', dc_Stream = ''stdout'', dc_Data = ''64 bytes'', dc_EOF = False,
     dc_ExitCode = 0, dc_Err = ''''\<rparr>"

theorem controller_never_panics_witness:
  "\<exists>c. controller_run (\<lambda>r. True) (controller_New None None None demo_secured) c \<and> ui_clients (ct_ui c) = [0] \<and>
     sink_all demo_env [OutDiag demo_chunk, OutEvent demo_event] c \<noteq> None \<and>
     controller_pump_event demo_event c \<noteq> None \<and> closeUI 0 c \<noteq> None"
proof -
  obtain c where c: "controller_run (\<lambda>r. True) (controller_New None None None demo_secured) c"
    "ui_clients (ct_ui c) = [0]"
    using demo_session_run [of "\<lambda>r. True" None None None demo_secured] by blast
  have "sink_all demo_env [OutDiag demo_chunk, OutEvent demo_event] c \<noteq> None"
    "controller_pump_event demo_event c \<noteq> None" "closeUI 0 c \<noteq> None"
    using controller_never_panics [OF c(1), of demo_env "[OutDiag demo_chunk, OutEvent demo_event]" demo_event 0]
    by (iprover elim: conjE)+
  with c show ?thesis by iprover
qed


subsection \<open>Pages of other sites\<close>

lemma sameOrigin_ascii:
  assumes "is_ascii (rq_host r)" and "\<forall>h. urlhost (rq_origin r) = Some h \<longrightarrow> is_ascii h"
  shows "sameOrigin urlhost uni r \<longleftrightarrow>
     rq_origin r = '''' \<or> map_option (map lower_char) (urlhost (rq_origin r)) = Some (map lower_char (rq_host r))"
  using assms by (auto simp: sameOrigin_def equal_fold_ascii split: option.splits)

text \<open>
  C38: On a controller, secured or open, exactly one kind of request opens a browser session, whatever the
  route: an upgrade of /ws/ui that carries no Origin header or one whose host is the host
  addressed, letters compared without case (the names being ASCII).  A page of another site gets
  no session and no route changes the sessions for it.
\<close>

theorem sessions_are_same_origin:
  assumes "serve w r c = (resp, c', evs)"
    and "is_ascii (rq_host r)" and "\<forall>h. we_urlhost w (rq_origin r) = Some h \<longrightarrow> is_ascii h"
  shows "ct_ui c' =
     (if rq_path r = ''/ws/ui'' \<and> we_upgrade w \<and>
         (rq_origin r = '''' \<or>
          map_option (map lower_char) (we_urlhost w (rq_origin r)) = Some (map lower_char (rq_host r)))
      then snd (uiAdd (session_privileged r c) (ct_ui c)) else ct_ui c)"
proof (cases "rq_path r = ''/ws/ui''")
  case True
  then have "serveUI w r c = (resp, c', evs)"
    using assms(1) by (simp add: serve_def open_routes_def)
  with True show ?thesis
    using sameOrigin_ascii [of r "we_urlhost w" "we_unifold w"] assms(2,3)
    by (auto simp: serveUI_def split: if_splits)
next
  case False
  from assms(1) have "ct_ui c' = ct_ui c"
    using False by (cases rule: serve_cases) (use privileged_effect in auto)
  with False show ?thesis by simp
qed

definition demo_foreign :: "string \<Rightarrow> request" where
  "demo_foreign host = (demo_post ''/ws/ui'' None)\<lparr>rq_origin := ''https://evil.example'', rq_host := host\<rparr>"

definition demo_parser :: "string \<Rightarrow> string option" where
  "demo_parser s = (if s = ''https://evil.example'' then Some ''evil.example'' else None)"

theorem sessions_are_same_origin_witness:
  "let w = demo_env\<lparr>we_urlhost := demo_parser\<rparr>; c = controller_New None None None demo_secured in
   ct_ui (fst (snd (serve w (demo_foreign ''10.0.0.1:5999'') c))) = ct_ui c \<and>
   ui_next (ct_ui (fst (snd (serve w (demo_foreign ''Evil.Example'') c)))) = 1"
proof -
  let ?w = "demo_env\<lparr>we_urlhost := demo_parser\<rparr>" and ?c = "controller_New None None None demo_secured"
  have ascii: "is_ascii ''10.0.0.1:5999''" "is_ascii ''Evil.Example''" "is_ascii ''evil.example''"
    by (simp_all add: is_ascii_def)
  have s: "ct_ui (fst (snd (serve ?w (demo_foreign h) ?c))) =
      (if map lower_char ''evil.example'' = map lower_char h
       then snd (uiAdd (session_privileged (demo_foreign h) ?c) (ct_ui ?c)) else ct_ui ?c)"
    if "is_ascii h" for h
    using sessions_are_same_origin [of ?w "demo_foreign h" ?c] that ascii
    by (cases "serve ?w (demo_foreign h) ?c") (simp add: demo_foreign_def demo_parser_def demo_post_def demo_env_def)
  have "map lower_char ''evil.example'' = map lower_char ''Evil.Example''"
    "map lower_char ''evil.example'' \<noteq> map lower_char ''10.0.0.1:5999''"
    by simp_all
  then show ?thesis
    using s [OF ascii(1)] s [OF ascii(2)]
    by (simp add: Let_def controller_New_def uiNewHub_def uiAdd_def)
qed

end
