(* ===== verification/ApplyFlows.thy ===== *)
theory ApplyFlows
  imports ControllerRun
begin

text \<open>
  Delivering a test: what the jobs of the controller (theory \<open>Controller\<close>) put into the queues of the
  agents when they run to their end, with room in the queues; and the race between
  \<open>handleTestStop\<close>, which does not take \<open>applyMu\<close>, and a start under way.
\<close>

subsection \<open>Queues\<close>

text \<open>The frames waiting for an agent, and whether there is room for more.\<close>

definition queued :: "hub \<Rightarrow> string \<Rightarrow> (string \<times> json option) list" where
  "queued h a = (case hb_agents h a of None \<Rightarrow> []
     | Some k \<Rightarrow> map frame_content (pe_send (ac_peer (hb_conns h k))))"

definition open_for :: "hub \<Rightarrow> string \<Rightarrow> nat \<Rightarrow> bool" where
  "open_for h a n \<longleftrightarrow> (case hb_agents h a of None \<Rightarrow> True
     | Some k \<Rightarrow> \<not> pe_done (ac_peer (hb_conns h k)) \<and> length (pe_send (ac_peer (hb_conns h k))) + n \<le> sendBuffer)"

definition one_conn :: "hub \<Rightarrow> bool" where
  "one_conn h \<longleftrightarrow> (\<forall>a b k. hb_agents h a = Some k \<longrightarrow> hb_agents h b = Some k \<longrightarrow> a = b)"

lemma open_for_mono: "open_for h a n \<Longrightarrow> m \<le> n \<Longrightarrow> open_for h a m"
  by (auto simp: open_for_def split: option.splits)

lemma one_conn_run: "hub_run token h live {} \<Longrightarrow> one_conn h"
  by (drule hub_run_ok) (simp add: one_conn_def registry_ok_def, metis)

text \<open>Frames added to the queues of a hub.\<close>

definition delivered :: "hub \<Rightarrow> (string \<Rightarrow> (string \<times> json option) list) \<Rightarrow> hub \<Rightarrow> bool" where
  "delivered h fr h' \<longleftrightarrow> hb_agents h' = hb_agents h \<and>
     (\<forall>a. hb_agents h a \<noteq> None \<longrightarrow> queued h' a = queued h a @ fr a) \<and>
     (\<forall>a n. open_for h a (length (fr a) + n) \<longrightarrow> open_for h' a n)"

lemma delivered_refl: "delivered h (\<lambda>_. []) h"
  by (simp add: delivered_def)

lemma delivered_trans:
  "delivered h1 f h2 \<Longrightarrow> delivered h2 g h3 \<Longrightarrow> delivered h1 (\<lambda>a. f a @ g a) h3"
  by (simp add: delivered_def add.assoc)

lemma delivered_one_conn: "delivered h f h' \<Longrightarrow> one_conn h \<Longrightarrow> one_conn h'"
  by (simp add: delivered_def one_conn_def)

lemma conn_send_room:
  assumes "hb_agents h a = Some k" and "one_conn h" and "open_for h a 1"
  shows "\<exists>h'. conn_send pick now t v k h = (SendOk, h') \<and>
     delivered h (\<lambda>b. if b = a then [(t, v)] else []) h'"
proof -
  let ?p = "ac_peer (hb_conns h k)"
  have room: "\<not> pe_done ?p" "length (pe_send ?p) < sendBuffer"
    using assms(1,3) by (simp_all add: open_for_def)
  from Send_room [OF this, of pick now t v] obtain p' where s: "Send pick now t v ?p = (SendOk, p')"
    by blast
  note eff = Send_effect [OF s]
  let ?h' = "upd_conn k (\<lambda>ac. ac\<lparr>ac_peer := p'\<rparr>) h"
  have "conn_send pick now t v k h = (SendOk, ?h')"
    using s by (simp add: conn_send_def)
  moreover have "delivered h (\<lambda>b. if b = a then [(t, v)] else []) ?h'"
    unfolding delivered_def
  proof (intro conjI allI impI)
    fix b n
    have other: "hb_agents h b = Some j \<Longrightarrow> b \<noteq> a \<Longrightarrow> hb_conns ?h' j = hb_conns h j" for j
      using assms(1,2) by (auto simp: one_conn_def)
    show "hb_agents h b \<noteq> None \<Longrightarrow> queued ?h' b = queued h b @ (if b = a then [(t, v)] else [])"
      using assms(1) eff other by (cases "b = a") (auto simp: queued_def)
    show "open_for h b (length (if b = a then [(t, v)] else []) + n) \<Longrightarrow> open_for ?h' b n"
      using assms(1) eff other by (cases "b = a"; cases "hb_agents h b") (auto simp: open_for_def)
  qed (rule refl | simp)+
  ultimately show ?thesis by blast
qed

lemma SendTo_room:
  assumes "one_conn h" and "open_for h a 1"
  shows "\<exists>h' r. SendTo pick now a t v h = (r, h') \<and> r \<noteq> Some SendBlocked \<and>
     delivered h (\<lambda>b. if b = a then [(t, v)] else []) h'"
proof (cases "hb_agents h a")
  case None
  then show ?thesis
    by (auto simp: SendTo_def delivered_def open_for_def split: option.splits)
next
  case (Some k)
  from conn_send_room [OF this assms, of pick now t v] Some show ?thesis
    by (auto simp: SendTo_def)
qed

subsection \<open>Running a job to its end\<close>

fun run_job :: "web_env list \<Rightarrow> nat \<Rightarrow> controller \<Rightarrow> (controller \<times> (response \<times> event list) option) option" where
  "run_job [] i c = Some (c, None)"
| "run_job (w # ws) i c =
     (case job_step w i c of None \<Rightarrow> None
      | Some (c', None, evs) \<Rightarrow> run_job ws i c'
      | Some (c', Some resp, evs) \<Rightarrow> Some (c', Some (resp, evs)))"

definition frames_to :: "admin_store \<Rightarrow> apply_item list \<Rightarrow> string \<Rightarrow> (string \<times> json option) list" where
  "frames_to adm items a = concat (map (\<lambda>it. case item_frame adm it of None \<Rightarrow> []
     | Some (b, f) \<Rightarrow> if b = a then [f] else []) items)"

lemma frames_to_simps [simp]:
  "frames_to adm [] a = []"
  "frames_to adm (it # items) a = (case item_frame adm it of None \<Rightarrow> []
     | Some (b, f) \<Rightarrow> if b = a then [f] else []) @ frames_to adm items a"
  "frames_to adm (xs @ ys) a = frames_to adm xs a @ frames_to adm ys a"
  by (simp_all add: frames_to_def)

lemma set_job_sel [simp]:
  "i < length (ct_jobs c) \<Longrightarrow> ct_jobs (set_job i wk h c) ! i = (ct_jobs c ! i)\<lparr>jb_work := wk\<rparr>"
  "length (ct_jobs (set_job i wk h c)) = length (ct_jobs c)"
  "ct_hub (set_job i wk h c) = h" "ct_admin (set_job i wk h c) = ct_admin c"
  "i < length (ct_jobs c) \<Longrightarrow> drop_job i (set_job i wk h c) = (drop_job i c)\<lparr>ct_hub := h\<rparr>"
  by (simp_all add: set_job_def drop_job_def)

lemma item_step:
  assumes "one_conn h" and "\<forall>a. open_for h a (length (frames_to adm (it # items) a))"
  shows "\<exists>h'. send_item w adm (it # items) h = (Sending items None, h') \<and>
     delivered h (\<lambda>a. frames_to adm [it] a) h'"
proof (cases "item_frame adm it")
  case None
  then show ?thesis by (simp add: send_item_def delivered_def)
next
  case (Some atv)
  obtain a t v where atv: "atv = (a, t, v)" by (cases atv)
  have "open_for h a 1"
    using assms(2) [rule_format, of a] Some atv by (auto simp: open_for_def split: option.splits)
  from SendTo_room [OF assms(1) this, of "we_pick w" "we_now w" t v] obtain h' r where s:
    "SendTo (we_pick w) (we_now w) a t v h = (r, h')" "r \<noteq> Some SendBlocked"
    "delivered h (\<lambda>b. if b = a then [(t, v)] else []) h'" by blast
  have "(\<lambda>b. if a = b then [(t, v)] else []) = (\<lambda>b. if b = a then [(t, v)] else [])"
    by auto
  with s Some atv show ?thesis
    by (cases r) (auto simp: send_item_def split: send_result.splits)
qed

lemma sending_run:
  assumes "i < length (ct_jobs c)" and "jb_work (ct_jobs c ! i) = Sending items None"
    and "one_conn (ct_hub c)" and "\<forall>a. open_for (ct_hub c) a (length (frames_to (ct_admin c) items a))"
    and "length ws = Suc (length items)"
  shows "\<exists>h'. run_job ws i c =
       Some ((drop_job i c)\<lparr>ct_hub := h'\<rparr>, Some (jb_resp (ct_jobs c ! i), jb_events (ct_jobs c ! i))) \<and>
     delivered (ct_hub c) (frames_to (ct_admin c) items) h'"
  using assms
proof (induction items arbitrary: c ws)
  case Nil
  then obtain w where "ws = [w]" by (auto simp: length_Suc_conv)
  with Nil show ?case
    by (auto simp: job_step_def Let_def drop_job_def delivered_def intro!: exI [of _ "ct_hub c"])
next
  case (Cons it items)
  obtain w ws' where ws: "ws = w # ws'" "length ws' = Suc (length items)"
    using Cons.prems(5) by (auto simp: length_Suc_conv)
  obtain h1 where h1: "send_item w (ct_admin c) (it # items) (ct_hub c) = (Sending items None, h1)"
    "delivered (ct_hub c) (frames_to (ct_admin c) [it]) h1"
    using item_step [OF Cons.prems(3,4), of w] by blast
  let ?c1 = "set_job i (Sending items None) h1 c"
  have st: "job_step w i c = Some (?c1, None, [])"
    using Cons.prems(2) h1(1) by (simp add: job_step_def Let_def)
  have room: "\<forall>a. open_for h1 a (length (frames_to (ct_admin c) items a))"
  proof
    fix a
    have "length (frames_to (ct_admin c) (it # items) a) =
        length (frames_to (ct_admin c) [it] a) + length (frames_to (ct_admin c) items a)"
      by simp
    with Cons.prems(4) h1(2) show "open_for h1 a (length (frames_to (ct_admin c) items a))"
      unfolding delivered_def by metis
  qed
  have "\<exists>h'. run_job ws' i ?c1 =
       Some ((drop_job i ?c1)\<lparr>ct_hub := h'\<rparr>, Some (jb_resp (ct_jobs ?c1 ! i), jb_events (ct_jobs ?c1 ! i))) \<and>
     delivered (ct_hub ?c1) (frames_to (ct_admin ?c1) items) h'"
    by (rule Cons.IH)
      (use Cons.prems(1) room ws(2) delivered_one_conn [OF h1(2) Cons.prems(3)] in simp_all)
  then obtain h' where h': "run_job ws' i ?c1 =
       Some ((drop_job i c)\<lparr>ct_hub := h'\<rparr>, Some (jb_resp (ct_jobs c ! i), jb_events (ct_jobs c ! i)))"
    "delivered h1 (frames_to (ct_admin c) items) h'"
    using Cons.prems(1) by auto
  have "delivered (ct_hub c) (frames_to (ct_admin c) (it # items)) h'"
    using delivered_trans [OF h1(2) h'(2)] by (simp add: frames_to_def [abs_def])
  with h'(1) st ws(1) show ?case by (intro exI [of _ h']) (simp del: frames_to_simps)
qed


lemma stopping_run:
  assumes "i < length (ct_jobs c)" and "one_conn (ct_hub c)"
    and "jb_work (ct_jobs c ! i) = Stopping (map (\<lambda>a. the (hb_agents (ct_hub c) a)) as) None"
    and "set as \<subseteq> dom (hb_agents (ct_hub c))" and "distinct as" and "\<forall>a. open_for (ct_hub c) a 1"
    and "length ws = Suc (length as)"
  shows "\<exists>h'. run_job ws i c =
       Some ((drop_job i c)\<lparr>ct_hub := h'\<rparr>, Some (jb_resp (ct_jobs c ! i), jb_events (ct_jobs c ! i))) \<and>
     delivered (ct_hub c) (\<lambda>a. if a \<in> set as then [(TypeTestStop, None)] else []) h'"
proof -
  have "\<forall>a \<in> set as. open_for (ct_hub c) a 1"
    using assms(6) by simp
  from this assms(1-5,7) show ?thesis
  proof (induction as arbitrary: c ws)
    case Nil
    then obtain w where "ws = [w]" by (auto simp: length_Suc_conv)
    with Nil show ?case
      by (auto simp: job_step_def Let_def drop_job_def delivered_def intro!: exI [of _ "ct_hub c"])
  next
    case (Cons a as)
    obtain w ws' where ws: "ws = w # ws'" "length ws' = Suc (length as)"
      using Cons.prems(7) by (auto simp: length_Suc_conv)
    obtain k where k: "hb_agents (ct_hub c) a = Some k"
      using Cons.prems(5) by auto
    obtain h1 where h1: "conn_send (we_pick w) (we_now w) TypeTestStop None k (ct_hub c) = (SendOk, h1)"
      "delivered (ct_hub c) (\<lambda>b. if b = a then [(TypeTestStop, None)] else []) h1"
      using conn_send_room [OF k Cons.prems(3), of "we_pick w" "we_now w" TypeTestStop None] Cons.prems(1)
      by auto
    have ag: "hb_agents h1 = hb_agents (ct_hub c)"
      using h1(2) by (simp add: delivered_def)
    let ?ks = "map (\<lambda>a. the (hb_agents (ct_hub c) a)) as"
    let ?c1 = "set_job i (Stopping ?ks None) h1 c"
    have st: "job_step w i c = Some (?c1, None, [])"
      using Cons.prems(4) h1(1) k by (simp add: job_step_def Let_def send_stop_def)
    have "\<forall>b \<in> set as. open_for h1 b 1"
    proof
      fix b
      assume b: "b \<in> set as"
      with Cons.prems(6) have "b \<noteq> a" by auto
      with Cons.prems(1) b
      have "open_for (ct_hub c) b (length (if b = a then [(TypeTestStop, None :: json option)] else []) + 1)"
        by simp
      with h1(2) show "open_for h1 b 1"
        unfolding delivered_def by blast
    qed
    then have "\<exists>h'. run_job ws' i ?c1 =
         Some ((drop_job i ?c1)\<lparr>ct_hub := h'\<rparr>, Some (jb_resp (ct_jobs ?c1 ! i), jb_events (ct_jobs ?c1 ! i))) \<and>
       delivered (ct_hub ?c1) (\<lambda>a. if a \<in> set as then [(TypeTestStop, None)] else []) h'"
      by (intro Cons.IH)
        (use Cons.prems ws(2) ag delivered_one_conn [OF h1(2) Cons.prems(3)] in simp_all)
    then obtain h' where h': "run_job ws' i ?c1 =
         Some ((drop_job i c)\<lparr>ct_hub := h'\<rparr>, Some (jb_resp (ct_jobs c ! i), jb_events (ct_jobs c ! i)))"
      "delivered h1 (\<lambda>a. if a \<in> set as then [(TypeTestStop, None)] else []) h'"
      using Cons.prems(2) by auto
    have "(\<lambda>b. (if b = a then [(TypeTestStop, None)] else []) @ (if b \<in> set as then [(TypeTestStop, None)] else []))
        = (\<lambda>b. if b \<in> set (a # as) then [(TypeTestStop, None :: json option)] else [])"
      using Cons.prems(6) by auto
    with delivered_trans [OF h1(2) h'(2)]
    have "delivered (ct_hub c) (\<lambda>b. if b \<in> set (a # as) then [(TypeTestStop, None)] else []) h'"
      by simp
    with h'(1) st ws(1) show ?case by (intro exI [of _ h']) simp
  qed
qed

subsection \<open>Starting a test\<close>

lemma pick_one: "distinct xs \<Longrightarrow> concat (map (\<lambda>x. if x = a then f x else []) xs) = (if a \<in> set xs then f a else [])"
  by (induction xs) auto

lemma frames_to_apply:
  assumes "distinct ids" and "map ai_ID infos = ids"
  shows "frames_to adm (apply_items plans infos spec) a =
    (if a \<notin> set ids then []
     else if cg_Enabled (admin_get a adm)
       then [(TypeFlowPlan, Some (enc_flow_plan (plan_for plans a))), (TypeTestStart, Some (enc_test_spec spec))]
       else [(TypeTestStop, None)])"
proof -
  have p: "frames_to adm (map (\<lambda>ai. PlanTo (ai_ID ai) (plan_for plans (ai_ID ai))) infos) a =
      concat (map (\<lambda>b. if b = a then [if cg_Enabled (admin_get b adm)
        then (TypeFlowPlan, Some (enc_flow_plan (plan_for plans b))) else (TypeTestStop, None)] else []) ids)"
    unfolding frames_to_def assms(2) [symmetric] map_map o_def
    by (intro arg_cong [of _ _ concat] map_cong refl) (simp add: item_frame_def)
  have s: "frames_to adm (map (\<lambda>ai. StartTo (ai_ID ai) spec) infos) a =
      concat (map (\<lambda>b. if b = a then (if cg_Enabled (admin_get b adm)
        then [(TypeTestStart, Some (enc_test_spec spec))] else []) else []) ids)"
    unfolding frames_to_def assms(2) [symmetric] map_map o_def
    by (intro arg_cong [of _ _ concat] map_cong refl) (simp add: item_frame_def)
  show ?thesis
    unfolding apply_items_def frames_to_simps(3) p s pick_one [OF assms(1)] by simp
qed

text \<open>The frames a start puts into the queue of an agent when no agent comes or goes meanwhile.\<close>

definition start_frames :: "web_env \<Rightarrow> int \<Rightarrow> controller \<Rightarrow> string \<Rightarrow> (string \<times> json option) list" where
  "start_frames w interval c a =
     (let plans = fst (buildFlowPlans (we_perm w) (we_now w) (Agents (we_ord w) (ct_hub c)) (ct_admin c)
            (flows_all (ct_flows c)));
          spec = test_spec_for (''run-'' @ we_clock w) interval in
      if hb_agents (ct_hub c) a = None then []
      else if cg_Enabled (admin_get a (ct_admin c))
        then [(TypeFlowPlan, Some (enc_flow_plan (plan_for plans a))), (TypeTestStart, Some (enc_test_spec spec))]
        else [(TypeTestStop, None)])"

lemma apply_run:
  assumes "i < length (ct_jobs c)" and "jb_work (ct_jobs c ! i) = NeedLock interval announce"
    and "lock_free c" and "one_conn (ct_hub c)" and "distinct (we_ord w2)"
    and "set (we_ord w2) = dom (hb_agents (ct_hub c))" and "\<forall>a. open_for (ct_hub c) a 2"
    and "length ws = Suc (2 * length (we_ord w2))"
  shows "\<exists>c' resp evs h'. run_job (w # w2 # ws) i c = Some (c', Some (resp, evs)) \<and>
     c' = (drop_job i c)\<lparr>ct_hub := h', ct_curInterval := interval\<rparr> \<and>
     delivered (ct_hub c) (start_frames w interval c) h' \<and>
     (\<not> announce \<longrightarrow> resp = jb_resp (ct_jobs c ! i))"
proof -
  let ?seen = "Agents (we_ord w) (ct_hub c)" and ?infos = "Agents (we_ord w2) (ct_hub c)"
  obtain plans n where b: "buildFlowPlans (we_perm w) (we_now w) ?seen (ct_admin c) (flows_all (ct_flows c)) = (plans, n)"
    by (cases "buildFlowPlans (we_perm w) (we_now w) ?seen (ct_admin c) (flows_all (ct_flows c))")
  let ?spec = "test_spec_for (''run-'' @ we_clock w) interval"
  let ?items = "apply_items plans ?infos ?spec"
  obtain j1 c1 where j1: "apply_begin w interval announce (ct_jobs c ! i) c = (j1, c1)"
    by (cases "apply_begin w interval announce (ct_jobs c ! i) c")
  then have p: "jb_work j1 = Planned plans ?spec" "c1 = c\<lparr>ct_curInterval := interval\<rparr>"
    "\<not> announce \<longrightarrow> jb_resp j1 = jb_resp (ct_jobs c ! i)"
    using b by (auto simp: apply_begin_def Let_def split: if_splits)
  let ?j2 = "j1\<lparr>jb_work := Sending ?items None\<rparr>"
  let ?c0 = "c1\<lparr>ct_jobs := (ct_jobs c1)[i := j1]\<rparr>" and ?c1 = "c1\<lparr>ct_jobs := (ct_jobs c1)[i := ?j2]\<rparr>"
  have a: "jb_work ?j2 = Sending ?items None" "c1 = c\<lparr>ct_curInterval := interval\<rparr>"
    "\<not> announce \<longrightarrow> jb_resp ?j2 = jb_resp (ct_jobs c ! i)"
    using p by simp_all
  have st: "job_step w i c = Some (?c0, None, [])"
    using assms(2,3) j1 by (simp add: job_step_def Let_def)
  have st2: "job_step w2 i ?c0 = Some (?c1, None, [])"
    using assms(1) p by (simp add: job_step_def Let_def set_job_def)
  have ids: "map ai_ID ?infos = we_ord w2"
    using assms(6) by (auto simp: Agents_ids filter_id_conv)
  then have len: "length ?items = 2 * length (we_ord w2)"
    by (simp add: apply_items_def flip: length_map [of ai_ID ?infos])
  have fr: "frames_to (ct_admin ?c1) ?items = start_frames w interval c"
    using frames_to_apply [OF assms(5) ids] assms(6) a(2) b
    by (auto simp: start_frames_def Let_def dom_def fun_eq_iff)
  have "length (start_frames w interval c a) \<le> 2" for a
    by (simp add: start_frames_def Let_def)
  then have "\<forall>a. open_for (ct_hub c) a (length (start_frames w interval c a))"
    using assms(7) open_for_mono by blast
  then have room: "\<forall>a. open_for (ct_hub ?c1) a (length (frames_to (ct_admin ?c1) ?items a))"
    unfolding fr using a(2) by simp
  have "\<exists>h'. run_job ws i ?c1 =
       Some ((drop_job i ?c1)\<lparr>ct_hub := h'\<rparr>, Some (jb_resp (ct_jobs ?c1 ! i), jb_events (ct_jobs ?c1 ! i))) \<and>
     delivered (ct_hub ?c1) (frames_to (ct_admin ?c1) ?items) h'"
    by (rule sending_run) (use assms(1,4,8) a(1,2) room len in simp_all)
  then obtain h' where h': "run_job ws i ?c1 =
       Some ((drop_job i ?c1)\<lparr>ct_hub := h'\<rparr>, Some (jb_resp ?j2, jb_events ?j2))"
    "delivered (ct_hub c) (start_frames w interval c) h'"
    unfolding fr using a(2) assms(1) by auto
  have "(drop_job i ?c1)\<lparr>ct_hub := h'\<rparr> = (drop_job i c)\<lparr>ct_hub := h', ct_curInterval := interval\<rparr>"
    using a(2) assms(1) by (simp add: drop_job_def)
  with h' st st2 a(3) show ?thesis
    by (intro exI [of _ "(drop_job i ?c1)\<lparr>ct_hub := h'\<rparr>"] exI [of _ "jb_resp ?j2"]
        exI [of _ "jb_events ?j2"] exI [of _ h']) simp
qed


text \<open>
  C9: Starting a test reaches every agent.  Take a hub whose connections each announced one identity, with
  every registered peer open and room for two frames in its queue, and the apply lock free.  When
  nothing else happens in between, the rest of a start (or of a re-application of the flows) always runs to its end, and then every connected agent
  that is enabled has been sent its own plan and after it TEST\_START with the interval asked
  for, every disabled one TEST\_STOP, in this order at the end of its queue, and nobody
  anything else.
\<close>

theorem start_reaches_agents:
  assumes "hub_run token (ct_hub c) live {}" and "i < length (ct_jobs c)"
    and "jb_work (ct_jobs c ! i) = NeedLock interval announce" and "lock_free c"
    and "distinct (we_ord w2)" and "set (we_ord w2) = dom (hb_agents (ct_hub c))"
    and "\<forall>a. open_for (ct_hub c) a 2" and "length ws = Suc (2 * length (we_ord w2))"
  shows "\<exists>c' resp evs. run_job (w # w2 # ws) i c = Some (c', Some (resp, evs)) \<and>
     hb_agents (ct_hub c') = hb_agents (ct_hub c) \<and> ct_curInterval c' = interval \<and>
     (\<forall>a. queued (ct_hub c') a = queued (ct_hub c) a @
        (if hb_agents (ct_hub c) a = None then []
         else if cg_Enabled (admin_get a (ct_admin c)) then
           [(TypeFlowPlan, Some (enc_flow_plan (plan_for (fst (buildFlowPlans (we_perm w) (we_now w)
               (Agents (we_ord w) (ct_hub c)) (ct_admin c) (flows_all (ct_flows c)))) a))),
            (TypeTestStart, Some (enc_test_spec (test_spec_for (''run-'' @ we_clock w) interval)))]
         else [(TypeTestStop, None)]))"
proof -
  obtain c' resp evs h' where r: "run_job (w # w2 # ws) i c = Some (c', Some (resp, evs))"
    "c' = (drop_job i c)\<lparr>ct_hub := h', ct_curInterval := interval\<rparr>"
    "delivered (ct_hub c) (start_frames w interval c) h'"
    using apply_run [OF assms(2-4) one_conn_run [OF assms(1)] assms(5-8)] by blast
  have "queued h' a = queued (ct_hub c) a @ start_frames w interval c a" for a
    using r(3) by (cases "hb_agents (ct_hub c) a") (auto simp: delivered_def queued_def start_frames_def)
  with r show ?thesis
    by (auto simp: delivered_def start_frames_def Let_def)
qed

text \<open>An agent that joins between the two looks at the list, when the plans are already made, is sent
  an empty plan and started with it, whatever flows the operator has for it.\<close>

lemma late_joiner_starts_empty:
  assumes "\<And>xs. set (perm xs) = set xs" and "buildFlowPlans perm now infos adm flows = (plans, n)"
    and "a \<notin> ai_ID ` set infos" and "distinct (map ai_ID infos2)" and "a \<in> ai_ID ` set infos2"
    and "cg_Enabled (admin_get a adm2)"
  shows "\<exists>plan. fp_Flows plan = [] \<and> fp_ListenPorts plan = [] \<and>
     frames_to adm2 (apply_items plans infos2 spec) a =
       [(TypeFlowPlan, Some (enc_flow_plan plan)), (TypeTestStart, Some (enc_test_spec spec))]"
proof -
  have out: "\<not> (fl_SrcAgent f = a \<or> fl_DstAgent f = a)" if "taking_part infos adm f" for f
    using that assms(3) by (auto simp: taking_part_def)
  note pc = plan_contents [OF assms(1,2), of a]
  have "filter (\<lambda>f. fl_SrcAgent f = a) (filter (taking_part infos adm) flows) = []"
    using out by (auto simp: filter_empty_conv)
  then have "fp_Flows (plan_for plans a) = []"
    using pc by simp
  moreover have none: "\<not> wants_port (filter (taking_part infos adm) flows) a p port" for p port
    using out by (auto simp: wants_port_def)
  have "fp_ListenPorts (plan_for plans a) = []"
    using plans_carry_out_flows_parts(4) [OF assms(1,2), of a] none
    by (cases "fp_ListenPorts (plan_for plans a)") auto
  ultimately show ?thesis
    using frames_to_apply [OF assms(4) refl, of adm2 plans spec a] assms(5,6) by auto
qed

subsection \<open>A hub with one agent\<close>

definition demo_joined :: hub where
  "demo_joined = fst (onMessage (\<lambda>_. None) False 0 0 (demo_register ''a'')
     (fst (snd (ServeAgent '''' ''10.0.0.5:4000'' True 0 (NewHub '''')))))"

definition ack_frame :: "string \<times> json option" where
  "ack_frame = (TypeRegisterAck, Some (enc_register_ack \<lparr>ra_AgentID = ''a'', ra_Accepted = True, ra_Reason = ''''\<rparr>))"

lemma demo_joined_run: "hub_run '''' demo_joined {0} {}"
proof -
  let ?h1 = "fst (snd (ServeAgent '''' ''10.0.0.5:4000'' True 0 (NewHub '''')))"
  have acc: "ServeAgent '''' ''10.0.0.5:4000'' True 0 (NewHub '''') = (Accepted 0, ?h1, [])"
    by (simp add: ServeAgent_def NewHub_def Let_def)
  have st: "steady 0 (demo_register ''a'') ?h1"
    by (simp add: steady_def demo_register_decodes demo_register_type ServeAgent_def NewHub_def Let_def zero_conn_def)
  show ?thesis
    using hub_run.message [OF hub_run.accept [OF hub_run.new acc] _ surjective_pairing, of 0 "\<lambda>_. None" False 0
        "demo_register ''a''"] st
    by (simp add: demo_joined_def)
qed

lemma demo_joined_state:
  "hb_agents demo_joined = [''a'' \<mapsto> 0]" "hb_next demo_joined = 1"
  "pe_done (ac_peer (hb_conns demo_joined 0)) = False"
  "map frame_content (pe_send (ac_peer (hb_conns demo_joined 0))) = [ack_frame]"
  by (simp_all add: demo_joined_def onMessage_def demo_register_decodes demo_register_type onRegister_def
      hub_register_def ServeAgent_def NewHub_def Let_def zero_conn_def conn_send_def Send_def stamp_def
      enqueue_def sendBuffer_def NewPeer_def zero_register_def frame_content_def ack_frame_def)

lemma demo_joined_open: "open_for demo_joined b n \<longleftrightarrow> b \<noteq> ''a'' \<or> n \<le> 255"
proof -
  have "length (pe_send (ac_peer (hb_conns demo_joined 0))) = 1"
    using arg_cong [OF demo_joined_state(4), of length] by simp
  then show ?thesis
    by (auto simp: open_for_def demo_joined_state sendBuffer_def)
qed

lemma demo_joined_queued: "queued demo_joined b = (if b = ''a'' then [ack_frame] else [])"
  by (simp add: queued_def demo_joined_state)


text \<open>An open controller with this hub and a start under way.\<close>

definition demo_open :: config where
  "demo_open = demo_secured\<lparr>cf_AuthEnabled := False\<rparr>"

definition demo_starting :: controller where
  "demo_starting = needs_lock 250 True Deferred
     ((controller_New None None None demo_open)\<lparr>ct_hub := demo_joined, ct_running := True\<rparr>)"

lemma demo_starting_state:
  "ct_hub demo_starting = demo_joined" "ct_jobs demo_starting = [\<lparr>jb_work = NeedLock 250 True, jb_resp = Deferred, jb_events = []\<rparr>]"
  "ct_admin demo_starting = newAdminStore ''netmesh-admin.json'' None" "lock_free demo_starting"
  by (simp_all add: demo_starting_def needs_lock_def controller_New_def lock_free_def)

lemma demo_enabled: "cg_Enabled (admin_get b (newAdminStore p None))"
  by (simp add: newAdminStore_def admin_load_def admin_get_def defaultConfig_def)

theorem start_reaches_agents_witness:
  "\<exists>c' r plan. run_job (replicate 5 demo_env) 0 demo_starting = Some (c', Some r) \<and>
     queued (ct_hub c') ''a'' = [ack_frame, (TypeFlowPlan, Some (enc_flow_plan plan)),
       (TypeTestStart, Some (enc_test_spec (test_spec_for ''run-120000'' 250)))]"
proof -
  have "replicate 5 demo_env = demo_env # demo_env # replicate 3 demo_env"
    by (simp add: eval_nat_numeral)
  moreover have "set (we_ord demo_env) = dom (hb_agents (ct_hub demo_starting))" "distinct (we_ord demo_env)"
    "length (replicate 3 demo_env) = Suc (2 * length (we_ord demo_env))" "we_clock demo_env = ''120000''"
    by (simp_all add: demo_env_def demo_starting_state demo_joined_state)
  moreover have "\<forall>a. open_for (ct_hub demo_starting) a 2"
    by (simp add: demo_starting_state demo_joined_open)
  ultimately show ?thesis
    using start_reaches_agents [of "''''" demo_starting "{0}" 0 250 True demo_env "replicate 3 demo_env" demo_env]
      demo_joined_run
    by (auto simp: demo_starting_state demo_joined_state demo_joined_queued demo_enabled)
qed

subsection \<open>Stopping while a start is under way\<close>

lemma job_step_jobs:
  assumes "job_step w i c = Some (c', resp, evs)" and "i < length (ct_jobs c)"
  shows "resp = None \<Longrightarrow> length (ct_jobs c') = length (ct_jobs c)"
  using assms
  by (auto simp: job_step_def Let_def set_job_def apply_begin_def
      split: work.splits if_splits option.splits list.splits prod.splits send_result.splits)

lemma run_job_history:
  "run_job ws i c = Some (c', Some r) \<Longrightarrow> i < length (ct_jobs c) \<Longrightarrow> controller_run P c0 c \<Longrightarrow>
   controller_run P c0 c'"
proof (induction ws i c rule: run_job.induct)
  case (2 w ws i c)
  obtain c1 resp evs where s: "job_step w i c = Some (c1, resp, evs)"
    using "2.prems"(1) by (auto split: option.splits)
  have r1: "controller_run P c0 c1"
    by (rule controller_run.step [OF "2.prems"(3) controller_step.job [OF "2.prems"(2) s]])
  show ?case
  proof (cases resp)
    case None
    with s "2.prems" job_step_jobs [OF s] r1 "2.IH" show ?thesis by auto
  next
    case (Some x)
    with s "2.prems"(1) r1 show ?thesis by simp
  qed
qed simp


text \<open>An agent joins, a start is posted, and a stop is posted before the start has taken the lock.\<close>

definition demo_join_request :: request where
  "demo_join_request = (demo_post ''/ws/agent'' None)\<lparr>rq_remote := ''10.0.0.5:4000''\<rparr>"

definition demo_stopped_job :: job where
  "demo_stopped_job = \<lparr>jb_work = Stopping [0] None, jb_resp = Response 202 (JObj [(''status'', JStr ''stopped'')]),
     jb_events = [event0 TestStopped]\<rparr>"

definition demo_race :: controller where
  "demo_race = (controller_New None None None demo_open)\<lparr>ct_hub := demo_joined,
     ct_jobs := [\<lparr>jb_work = NeedLock 250 True, jb_resp = Deferred, jb_events = []\<rparr>, demo_stopped_job]\<rparr>"

lemma demo_race_history: "controller_run (\<lambda>r. True) (controller_New None None None demo_open) demo_race"
proof -
  let ?c0 = "controller_New None None None demo_open"
  let ?h1 = "fst (snd (ServeAgent '''' ''10.0.0.5:4000'' True 0 (NewHub '''')))"
  let ?c1 = "?c0\<lparr>ct_hub := ?h1\<rparr>" and ?c2 = "?c0\<lparr>ct_hub := demo_joined\<rparr>"
  let ?c3 = "needs_lock 250 True Deferred (?c2\<lparr>ct_running := True\<rparr>)"
  have hub0: "ct_hub ?c0 = NewHub ''''"
    by (simp add: controller_New_def demo_open_def demo_secured_def)
  have "serve demo_env demo_join_request ?c0 = (switching, ?c1, [])"
    by (simp add: serve_def open_routes_def demo_join_request_def demo_post_def serve_agent_def hub0
        demo_env_def ServeAgent_def NewHub_def Let_def)
  from controller_step.request [OF TrueI this]
  have 1: "controller_run (\<lambda>r. True) ?c0 ?c1"
    by (rule controller_run.step [OF controller_run.start])
  obtain out where m: "onMessage (\<lambda>_. None) False 0 0 (demo_register ''a'') ?h1 = (demo_joined, out)"
    unfolding demo_joined_def by (metis surjective_pairing)
  have "\<exists>evs. sink_all demo_env out ?c2 = Some (?c2, evs)"
    using m by (auto simp: onMessage_def demo_register_decodes demo_register_type onRegister_def
        hub_register_def Let_def sink_out_def split: prod.splits)
  then obtain evs where "sink_all demo_env out (?c1\<lparr>ct_hub := demo_joined\<rparr>) = Some (?c2, evs)"
    by auto
  moreover have "onMessage (\<lambda>_. None) False 0 0 (demo_register ''a'') (ct_hub ?c1) = (demo_joined, out)"
    "0 < hb_next (ct_hub ?c1)"
    using m by (simp_all add: ServeAgent_def NewHub_def Let_def)
  ultimately have 2: "controller_run (\<lambda>r. True) ?c0 ?c2"
    using controller_run.step [OF 1 controller_step.message] by blast
  have "serve demo_env (demo_post ''/api/tests/start'' None) ?c2 = (Deferred, ?c3, [])"
    by (simp add: serve_def open_routes_def privileged_routes_def demo_post_def RequireWriteFunc_def
        RequireWrite_def Authenticated_iff handleTestStart_def start_request_def controller_New_def
        auth_New_def demo_open_def store_Clear_def needs_lock_def)
  from controller_step.request [OF TrueI this]
  have 3: "controller_run (\<lambda>r. True) ?c0 ?c3"
    by (rule controller_run.step [OF 2])
  have "serve demo_env (demo_post ''/api/tests/stop'' None) ?c3 = (Deferred, demo_race, [])"
    by (simp add: serve_def open_routes_def privileged_routes_def demo_post_def RequireWriteFunc_def
        RequireWrite_def Authenticated_iff handleTestStop_def controller_New_def demo_race_def
        auth_New_def demo_open_def store_Clear_def needs_lock_def demo_stopped_job_def demo_env_def
        demo_joined_state Let_def)
  from controller_step.request [OF TrueI this]
  show ?thesis
    by (rule controller_run.step [OF 3])
qed

text \<open>
  C17: A stop can be overtaken by the start before it.  \<open>handleTestStop\<close> does not take
  \<open>applyMu\<close>: there is a history in which a stop posted after a start has been answered, no
  handler is under way and the controller says that no test is running, but the last frames the
  agent was sent are TEST\_STOP, FLOW\_PLAN, TEST\_START, in this order, so that it keeps
  probing.
\<close>

theorem stop_overtaken_by_start:
  "\<exists>c plan spec. controller_run (\<lambda>r. True) (controller_New None None None demo_open) c \<and>
     \<not> ct_running c \<and> ct_jobs c = [] \<and>
     queued (ct_hub c) ''a'' = [ack_frame, (TypeTestStop, None),
       (TypeFlowPlan, Some (enc_flow_plan plan)), (TypeTestStart, Some (enc_test_spec spec))]"
proof -
  have st: "ct_jobs demo_race ! 1 = demo_stopped_job" "length (ct_jobs demo_race) = 2"
    "ct_hub demo_race = demo_joined" "ct_admin demo_race = newAdminStore ''netmesh-admin.json'' None"
    "\<not> ct_running demo_race"
    by (simp_all add: demo_race_def controller_New_def)
  have oc: "one_conn demo_joined"
    using one_conn_run [OF demo_joined_run] .
  obtain h1 where h1: "run_job [demo_env, demo_env] 1 demo_race =
       Some ((drop_job 1 demo_race)\<lparr>ct_hub := h1\<rparr>, Some (jb_resp demo_stopped_job, jb_events demo_stopped_job))"
    "delivered demo_joined (\<lambda>a. if a \<in> {''a''} then [(TypeTestStop, None)] else []) h1"
    using stopping_run [of 1 demo_race "[''a'']" "[demo_env, demo_env]"] oc st
    by (auto simp: demo_stopped_job_def demo_joined_state demo_joined_open)
  let ?c1 = "(drop_job 1 demo_race)\<lparr>ct_hub := h1\<rparr>"
  have c1: "ct_jobs ?c1 = [\<lparr>jb_work = NeedLock 250 True, jb_resp = Deferred, jb_events = []\<rparr>]"
    "ct_admin ?c1 = ct_admin demo_race" "\<not> ct_running ?c1" "lock_free ?c1"
    using st(5) by (simp_all add: drop_job_def demo_race_def lock_free_def)
  have ag: "hb_agents h1 = [''a'' \<mapsto> 0]"
    using h1(2) by (simp add: delivered_def demo_joined_state)
  have "open_for demo_joined a (length (if a \<in> {''a''} then [(TypeTestStop, None :: json option)] else []) + 2)" for a
    by (simp add: demo_joined_open)
  then have op: "\<forall>a. open_for h1 a 2"
    using h1(2) unfolding delivered_def by blast
  obtain c2 resp evs h2 where c2: "run_job (demo_env # demo_env # replicate 3 demo_env) 0 ?c1 = Some (c2, Some (resp, evs))"
    "c2 = (drop_job 0 ?c1)\<lparr>ct_hub := h2, ct_curInterval := 250\<rparr>" "delivered h1 (start_frames demo_env 250 ?c1) h2"
    using apply_run [of 0 ?c1 250 True demo_env "replicate 3 demo_env" demo_env] c1
      delivered_one_conn [OF h1(2) oc] ag op
    by (auto simp: demo_env_def)
  have "controller_run (\<lambda>r. True) (controller_New None None None demo_open) ?c1"
    by (rule run_job_history [OF h1(1) _ demo_race_history]) (simp add: st)
  then have run: "controller_run (\<lambda>r. True) (controller_New None None None demo_open) c2"
    by (rule run_job_history [OF c2(1), rotated]) (use c1(1) in simp)
  have "queued h2 ''a'' = queued h1 ''a'' @ start_frames demo_env 250 ?c1 ''a''"
    "queued h1 ''a'' = queued demo_joined ''a'' @ [(TypeTestStop, None)]"
    using h1(2) c2(3) by (simp_all add: delivered_def demo_joined_state)
  then have "\<exists>plan spec. queued h2 ''a'' = [ack_frame, (TypeTestStop, None),
       (TypeFlowPlan, Some (enc_flow_plan plan)), (TypeTestStart, Some (enc_test_spec spec))]"
    using c1(2) st(4) ag by (auto simp: demo_joined_queued start_frames_def Let_def demo_enabled)
  moreover have "\<not> ct_running c2" "ct_jobs c2 = []" "ct_hub c2 = h2"
    using c2(2) c1(3) by (simp_all add: drop_job_def demo_race_def)
  ultimately show ?thesis
    using run by blast
qed

end
