(* ===== verification/EndToEnd.thy ===== *)
theory EndToEnd
  imports Agent ApplyFlows
begin

text \<open>
  Controller and node together: from the operator's flows to open ports and running probes on a node,
  and back to what the operator sees; and \<open>cmd/netmesh/main.go\<close>, which starts one or the other.
\<close>

subsection \<open>main\<close>

datatype program = Exits nat | RunsController config | RunsAgent config

definition is_help :: "config_error \<Rightarrow> bool" where
  "is_help e \<longleftrightarrow> e = FlagError ErrHelp"

definition main_start :: "string option \<Rightarrow> string list \<Rightarrow> program" where
  "main_start hostname args =
     (case Parse hostname args of
        Inl e \<Rightarrow> if is_help e then Exits 0 else Exits 2
      | Inr cfg \<Rightarrow>
          (case cf_Mode cfg of
             ModeController \<Rightarrow> RunsController cfg
           | ModeAgentJoin \<Rightarrow> RunsAgent cfg
           | ModeAgentHolding \<Rightarrow> RunsAgent cfg))"

text \<open>The exit code once \<open>Run\<close> has returned.\<close>

definition main_exit :: "string option \<Rightarrow> nat" where
  "main_exit run_err = (case run_err of Some e \<Rightarrow> 1 | None \<Rightarrow> 0)"

text \<open>How \<open>Run\<close> ends, on both sides: the context is done and \<open>Shutdown\<close> has its result, or
  \<open>ListenAndServe\<close> returns first, \<^const>\<open>None\<close> being \<open>http.ErrServerClosed\<close>.\<close>

datatype run_end = CtxDone "string option" | ServerEnds "string option"

definition controller_Run :: "run_end \<Rightarrow> string option" where
  "controller_Run e = (case e of CtxDone err \<Rightarrow> err | ServerEnds err \<Rightarrow> err)"

text \<open>The node stops its engine first, up to the wait and after it, between two control frames
  (\<open>EngineRun\<close> has the engine when it happens during one).  A server that fails leaves the engine as
  it is.\<close>

definition agent_Run_stop :: "run_end \<Rightarrow> agent \<Rightarrow> agent" where
  "agent_Run_stop e a = (case e of CtxDone err \<Rightarrow> a\<lparr>ag_engine := eng_cancel (ag_engine a)\<rparr> | ServerEnds err \<Rightarrow> a)"

definition agent_Run :: "run_end \<Rightarrow> bool \<Rightarrow> agent \<Rightarrow> (string option \<times> agent \<times> event list) option" where
  "agent_Run e waits a =
     (case e of
        CtxDone err \<Rightarrow> map_option (\<lambda>(a', evs). (err, a', evs)) (stop_return waits a)
      | ServerEnds err \<Rightarrow> Some (err, a, []))"

lemma drain:
  "eg_cancelled e \<Longrightarrow> \<exists>ms e'. eng_run e ms e' \<and> all_ended e' \<and> eg_cancel e' = eg_cancel e"
proof (induction "stop_work e" arbitrary: e rule: less_induct)
  case less
  show ?case
  proof (cases "all_ended e")
    case False
    obtain ns e1 where 1: "eng_step e ns e1" "stop_work e1 < stop_work e" "eg_cancelled e1" "eg_cancel e1 = eg_cancel e"
      using eng_drain_step [OF less.prems False] by blast
    obtain ms e' where 2: "eng_run e1 ms e'" "all_ended e'" "eg_cancel e' = eg_cancel e1"
      using less.hyps [OF 1(2,3)] by blast
    have "eng_run e (ns @ ms) e'"
      using 2(1)
    proof (induction rule: eng_run.induct)
      case launched
      from eng_run.step [OF eng_run.launched 1(1)] show ?case by simp
    next
      case (step ms e2 ms' e3)
      from eng_run.step [OF step.IH step.hyps(2)] show ?case by simp
    qed
    with 2(2,3) 1(4) show ?thesis by metis
  qed (blast intro: eng_run.launched)
qed

text \<open>A node that is asked to terminate while no control frame is being handled ends its probe loops:
  its Run returns what Shutdown returned, with no loop left.\<close>

lemma shutdown_ends_probes:
  assumes "agent_reach hn cfg a" and "ag_ctl a = Idle"
  shows "\<exists>ms e a' evs. eng_run (ag_engine (agent_Run_stop (CtxDone err) a)) ms e \<and>
     agent_Run (CtxDone err) (eg_cancel (ag_engine a)) ((agent_Run_stop (CtxDone err) a)\<lparr>ag_engine := e\<rparr>) =
       Some (err, a', evs) \<and> eg_loops (ag_engine a') = []"
proof (cases "eg_cancel (ag_engine a)")
  case True
  then have "eg_cancelled (eng_cancel (ag_engine a))"
    by (simp add: eng_cancel_def)
  from drain [OF this] obtain ms e where "eng_run (eng_cancel (ag_engine a)) ms e" "all_ended e"
    by blast
  with True show ?thesis
    by (intro exI [of _ ms] exI [of _ e])
      (simp add: agent_Run_stop_def agent_Run_def stop_return_def eng_stopped_def)
next
  case False
  then have "eg_loops (ag_engine a) = []"
    using agent_reach_ok [OF assms(1)] assms(2) by (auto simp: agent_ok_def ctl_ok_def Let_def)
  with False show ?thesis
    by (intro exI [of _ "[]"] exI [of _ "ag_engine a"])
      (simp add: agent_Run_stop_def agent_Run_def stop_return_def eng_cancel_def eng_run.launched)
qed

lemma main_start_ok:
  "main_start hostname args = RunsAgent cfg \<Longrightarrow> \<not> cf_AuthEnabled cfg \<and> config_ok cfg"
  "main_start hostname args = RunsController cfg \<Longrightarrow> cf_MasterAddr cfg = '''' \<and> config_ok cfg"
proof -
  have ok: "config_ok c" if "Parse hostname args = Inr c" for c
    using that by (auto simp: Parse_def build_ok split: sum.splits)
  show "main_start hostname args = RunsAgent cfg \<Longrightarrow> \<not> cf_AuthEnabled cfg \<and> config_ok cfg"
    using ok by (auto simp: main_start_def config_ok_def split: sum.splits if_splits mode.splits)
  show "main_start hostname args = RunsController cfg \<Longrightarrow> cf_MasterAddr cfg = '''' \<and> config_ok cfg"
    using ok by (auto simp: main_start_def split: sum.splits if_splits mode.splits) (auto simp: config_ok_def)
qed

subsection \<open>From the flows to the ports of a node\<close>

text \<open>The codec carries the plans of stored flows.\<close>

lemma plan_for_ok:
  assumes "\<And>xs. set (perm xs) = set xs" and "buildFlowPlans perm now infos adm flows = (plans, n)"
    and "\<forall>f \<in> set flows. flow_ok f"
  shows "flow_plan_ok (plan_for plans a)"
proof -
  note pc = plan_contents [OF assms(1,2), of a]
  have "listen_port_ok lp" if lp: "lp \<in> set (fp_ListenPorts (plan_for plans a))" for lp
  proof -
    have "\<exists>p. profile_HasPorts p \<and> wants_port (filter (taking_part infos adm) flows) a p (lp_Port lp)"
      using pc lp by blast
    with assms(3) show ?thesis
      by (auto simp: wants_port_def listen_port_ok_def flow_ok_def)
  qed
  moreover have "agent_flow_ok af" if "af \<in> set (fp_Flows (plan_for plans a))" for af
    using that pc assms(3) by (auto simp: agent_flow_of_def agent_flow_ok_def flow_ok_def)
  ultimately show ?thesis
    by (simp add: flow_plan_ok_def)
qed

lemma report_decodes:
  assumes "en_Type env = TypePortStatus" and "en_Payload env = Some (enc_port_report rep)"
    and "port_report_ok rep"
  shows "ac_ports (hb_conns (fst (onMessage ptime pick now c env h)) c) = pr_Ports rep"
proof -
  have "DecodePayload dec_port_report env = Some rep"
    using assms(2,3) by (simp add: DecodePayload_def port_report_wire.dec_enc)
  moreover have "TypePortStatus \<noteq> TypeRegister" "TypePortStatus \<noteq> TypeTelemetry" "TypePortStatus \<noteq> TypeDiagChunk"
    by (simp_all add: message_type_defs)
  ultimately show ?thesis
    using assms(1) by (simp add: onMessage_def)
qed


lemma plan_frame_handled:
  assumes "agent_ok a" and "ag_ctl a = Idle" and "all_ended (ag_engine a)"
    and "en_Type env = TypeFlowPlan" and "en_Payload env = Some (enc_flow_plan plan)" and "flow_plan_ok plan"
    and "\<not> pe_done (cl_peers (ag_client a) k)" and "length (pe_send (cl_peers (ag_client a) k)) < sendBuffer"
    and "Serve listen (fp_ListenPorts plan) (ag_responder a) = Some (sts, r, ev)"
  shows "\<exists>a' evs. ctl_resume listen pick now k (onControl windows etext px k env a) = Goes a' evs \<and>
     ag_flows a' = fp_Flows plan \<and> ag_responder a' = r \<and>
     map frame_content (pe_send (cl_peers (ag_client a') k)) =
       map frame_content (pe_send (cl_peers (ag_client a) k)) @
       [(TypePortStatus, Some (enc_port_report \<lparr>pr_AgentID = cf_AgentID (ag_cfg a), pr_Ports = sts\<rparr>))]"
proof -
  let ?a1 = "onControl windows etext px k env a"
  have "DecodePayload dec_flow_plan env = Some plan"
    using assms(5,6) by (simp add: DecodePayload_def flow_plan_wire.dec_enc)
  then have a1: "?a1 = stop_for (\<lambda>w. PlanStop w plan) a"
    using assms(4) by (simp add: onControl_def)
  have ok: "agent_ok ?a1"
    by (rule agent_ok_step [OF agent_step.control [OF assms(2)] assms(1)])
  have "all_ended (ag_engine ?a1)"
    using assms(3) by (simp add: a1 stop_for_def eng_cancel_def all_ended_def)
  moreover have "ag_ctl ?a1 = PlanStop (eg_cancel (ag_engine a)) plan" "ag_client ?a1 = ag_client a"
    "ag_responder ?a1 = ag_responder a" "ag_cfg ?a1 = ag_cfg a"
    by (simp_all add: a1 stop_for_def)
  ultimately show ?thesis
    using plan_handled [OF ok, of "eg_cancel (ag_engine a)" plan k listen sts r ev pick now] assms(7-9)
    by auto
qed

text \<open>Statuses and listeners, when the ports are pairwise different and exactly the wanted ones.\<close>

lemma bound_exact:
  fixes ports :: "listen_port list" and sts :: "port_status list"
  assumes W: "\<forall>p port. (\<exists>lp \<in> set ports. lp_Port lp = port \<and> (p = UDP \<and> lp_UDP lp \<or> p = TCP \<and> lp_TCP lp)) \<longleftrightarrow> wants p port"
    and X: "\<forall>lp \<in> set ports. \<exists>p. wants p (lp_Port lp)"
    and U: "\<forall>lp \<in> set ports. \<forall>lp' \<in> set ports. lp_Port lp = lp_Port lp' \<longrightarrow> lp = lp'"
    and S: "list_all2 (\<lambda>lp st. ps_Port st = lp_Port lp \<and>
        (ps_UDP st \<longleftrightarrow> lp_UDP lp \<and> listen UDP (port_addr (lp_Port lp)) = None) \<and>
        (ps_TCP st \<longleftrightarrow> lp_TCP lp \<and> listen TCP (port_addr (lp_Port lp)) = None)) ports sts"
    and C: "cur = {(p, ps_Port st) | p st. st \<in> set sts \<and> (p = UDP \<and> ps_UDP st \<or> p = TCP \<and> ps_TCP st)}"
  shows "(p, port) \<in> cur \<longleftrightarrow> wants p port \<and> listen p (port_addr port) = None"
    and "ps_Port ` set sts = {port. \<exists>p. wants p port}"
    and "\<forall>st \<in> set sts. (ps_UDP st \<longleftrightarrow> (UDP, ps_Port st) \<in> cur) \<and> (ps_TCP st \<longleftrightarrow> (TCP, ps_Port st) \<in> cur)"
proof -
  define rel :: "listen_port \<Rightarrow> port_status \<Rightarrow> bool" where "rel = (\<lambda>lp st. ps_Port st = lp_Port lp \<and>
        (ps_UDP st \<longleftrightarrow> lp_UDP lp \<and> listen UDP (port_addr (lp_Port lp)) = None) \<and>
        (ps_TCP st \<longleftrightarrow> lp_TCP lp \<and> listen TCP (port_addr (lp_Port lp)) = None))"
  have r: "list_all2 rel ports sts"
    using S by (simp add: rel_def)
  have A: "\<exists>lp \<in> set ports. rel lp st" if "st \<in> set sts" for st
    using that r by (metis in_set_conv_nth list_all2_conv_all_nth)
  have B: "\<exists>st \<in> set sts. rel lp st" if "lp \<in> set ports" for lp
    using that r by (metis in_set_conv_nth list_all2_conv_all_nth)
  have cur: "(q, x) \<in> cur \<longleftrightarrow> wants q x \<and> listen q (port_addr x) = None" for q x
  proof
    assume "(q, x) \<in> cur"
    then obtain st where st: "st \<in> set sts" "ps_Port st = x" "q = UDP \<and> ps_UDP st \<or> q = TCP \<and> ps_TCP st"
      unfolding C by blast
    then obtain lp where "lp \<in> set ports" "rel lp st" using A by blast
    with st W show "wants q x \<and> listen q (port_addr x) = None"
      unfolding rel_def by auto
  next
    assume w: "wants q x \<and> listen q (port_addr x) = None"
    then obtain lp where lp: "lp \<in> set ports" "lp_Port lp = x" "q = UDP \<and> lp_UDP lp \<or> q = TCP \<and> lp_TCP lp"
      using W by blast
    then obtain st where st: "st \<in> set sts" "rel lp st" using B by blast
    with lp w have "x = ps_Port st" "q = UDP \<and> ps_UDP st \<or> q = TCP \<and> ps_TCP st"
      unfolding rel_def by auto
    with st(1) show "(q, x) \<in> cur"
      unfolding C by blast
  qed
  then show "(p, port) \<in> cur \<longleftrightarrow> wants p port \<and> listen p (port_addr port) = None" .
  show "ps_Port ` set sts = {port. \<exists>p. wants p port}"
  proof (intro equalityI subsetI)
    fix x
    assume "x \<in> ps_Port ` set sts"
    then obtain st lp where "lp \<in> set ports" "rel lp st" "x = ps_Port st" using A by blast
    with X show "x \<in> {port. \<exists>p. wants p port}" unfolding rel_def by auto
  next
    fix x
    assume "x \<in> {port. \<exists>p. wants p port}"
    then obtain q where "wants q x" by blast
    then obtain lp where "lp \<in> set ports" "lp_Port lp = x" using W by blast
    then show "x \<in> ps_Port ` set sts" using B [of lp] unfolding rel_def by force
  qed
  have mine: "ps_UDP st \<longleftrightarrow> wants UDP (ps_Port st) \<and> listen UDP (port_addr (ps_Port st)) = None"
    "ps_TCP st \<longleftrightarrow> wants TCP (ps_Port st) \<and> listen TCP (port_addr (ps_Port st)) = None" if st: "st \<in> set sts" for st
  proof -
    obtain lp where lp: "lp \<in> set ports" "rel lp st" using A [OF st] by blast
    have "lp_UDP lp \<longleftrightarrow> wants UDP (lp_Port lp)" "lp_TCP lp \<longleftrightarrow> wants TCP (lp_Port lp)"
      using W [rule_format, of "lp_Port lp"] U lp(1) by (metis profiles_distinct(1,2))+
    with lp(2) show "ps_UDP st \<longleftrightarrow> wants UDP (ps_Port st) \<and> listen UDP (port_addr (ps_Port st)) = None"
      "ps_TCP st \<longleftrightarrow> wants TCP (ps_Port st) \<and> listen TCP (port_addr (ps_Port st)) = None"
      unfolding rel_def by simp_all
  qed
  then show "\<forall>st \<in> set sts. (ps_UDP st \<longleftrightarrow> (UDP, ps_Port st) \<in> cur) \<and> (ps_TCP st \<longleftrightarrow> (TCP, ps_Port st) \<in> cur)"
    using cur by simp
qed

text \<open>The listeners of a plan the controller built: \<open>Serve\<close> does not panic, binds what the flows
  want where the system grants it, and its report says so.\<close>

lemma planned_ports_served:
  assumes "\<And>xs. set (perm xs) = set xs" and "buildFlowPlans perm t infos adm flows = (plans, n)"
    and "\<forall>f \<in> set flows. flow_ok f \<and> (profile_HasPorts (fl_Protocol f) \<longrightarrow> 0 < fl_DstPort f \<and> fl_DstPort f < 10 ^ 12)"
    and wants: "wants = (\<lambda>p port. profile_HasPorts p \<and> wants_port (filter (taking_part infos adm) flows) x p port)"
  obtains sts r ev where "Serve listen (fp_ListenPorts (plan_for plans x)) resp = Some (sts, r, ev)"
    and "\<forall>p port. (p, port) \<in> set (rp_cur r) \<longleftrightarrow> wants p port \<and> listen p (port_addr port) = None"
    and "ps_Port ` set sts = {port. \<exists>p. wants p port}"
    and "\<forall>st \<in> set sts. (ps_UDP st \<longleftrightarrow> (UDP, ps_Port st) \<in> set (rp_cur r)) \<and>
                        (ps_TCP st \<longleftrightarrow> (TCP, ps_Port st) \<in> set (rp_cur r))"
    and "\<forall>st \<in> set sts. int64_range (ps_Port st)"
proof -
  let ?ports = "fp_ListenPorts (plan_for plans x)"
  note pc = plan_contents [OF assms(1,2), of x]
  have W: "\<forall>p port. (\<exists>lp \<in> set ?ports. lp_Port lp = port \<and>
      (p = UDP \<and> lp_UDP lp \<or> p = TCP \<and> lp_TCP lp)) \<longleftrightarrow> wants p port"
    and X: "\<forall>lp \<in> set ?ports. \<exists>p. wants p (lp_Port lp)"
    and U: "\<forall>lp \<in> set ?ports. \<forall>lp' \<in> set ?ports. lp_Port lp = lp_Port lp' \<longrightarrow> lp = lp'"
    using pc unfolding wants by blast+
  have rng: "0 < port \<and> port < 10 ^ 12 \<and> int64_range port" if "wants p port" for p port
    using that assms(3) by (auto simp: wants wants_port_def flow_ok_def)
  with X have "0 \<le> lp_Port lp \<and> lp_Port lp < 10 ^ 12" if "lp \<in> set ?ports" for lp
    using that by (meson less_imp_le)
  with Serve_correct [of ?ports listen resp] obtain sts r ev where
    s: "Serve listen ?ports resp = Some (sts, r, ev)"
      "list_all2 (\<lambda>lp st. ps_Port st = lp_Port lp \<and>
          (ps_UDP st \<longleftrightarrow> lp_UDP lp \<and> listen UDP (port_addr (lp_Port lp)) = None) \<and>
          (ps_TCP st \<longleftrightarrow> lp_TCP lp \<and> listen TCP (port_addr (lp_Port lp)) = None)) ?ports sts"
      "set (rp_cur r) = {(p, ps_Port st) | p st. st \<in> set sts \<and> (p = UDP \<and> ps_UDP st \<or> p = TCP \<and> ps_TCP st)}"
    by (fastforce split: option.splits)
  note exact = bound_exact [OF W X U s(2,3)]
  have "\<forall>st \<in> set sts. int64_range (ps_Port st)"
    using exact(2) rng by blast
  with s(1) exact that show thesis by blast
qed

text \<open>
  C6: The operator's flows become open ports, and the operator sees which.  When a node whose probes
  have come to rest handles the plan the controller built for it, it stores exactly the flows it
  has to originate; it listens on a port for UDP or TCP exactly if a flow that takes part ends there and the
  system grants the port; and the report it queues, when the controller receives it, makes the
  controller show for every such port exactly whether it is open for UDP and for TCP.
\<close>

theorem flows_become_listeners:
  assumes "agent_reach hn cfg a" and "ag_ctl a = Idle" and "all_ended (ag_engine a)"
    and "\<not> pe_done (cl_peers (ag_client a) k)" and "length (pe_send (cl_peers (ag_client a) k)) < sendBuffer"
    and "\<And>xs. set (perm xs) = set xs" and "buildFlowPlans perm t infos adm flows = (plans, n)"
    and "\<forall>f \<in> set flows. flow_ok f \<and> (profile_HasPorts (fl_Protocol f) \<longrightarrow> 0 < fl_DstPort f \<and> fl_DstPort f < 10 ^ 12)"
    and "en_Type env = TypeFlowPlan" and "en_Payload env = Some (enc_flow_plan (plan_for plans x))"
  shows "\<exists>a' evs b. ctl_resume listen pick now k (onControl windows etext px k env a) = Goes a' evs \<and>
     map af_ID (ag_flows a') = map fl_ID (filter (\<lambda>f. taking_part infos adm f \<and> fl_SrcAgent f = x) flows) \<and>
     (\<forall>p port. (p, port) \<in> set (rp_cur (ag_responder a')) \<longleftrightarrow>
        profile_HasPorts p \<and> wants_port (filter (taking_part infos adm) flows) x p port \<and>
        listen p (port_addr port) = None) \<and>
     length (pe_send (cl_peers (ag_client a') k)) = Suc (length (pe_send (cl_peers (ag_client a) k))) \<and>
     last (pe_send (cl_peers (ag_client a') k)) = b \<and>
     (\<forall>ptime pk nw c h. let shown = ac_ports (hb_conns (fst (onMessage ptime pk nw c (frame_env b) h)) c) in
        ps_Port ` set shown = {port. \<exists>p. profile_HasPorts p \<and> wants_port (filter (taking_part infos adm) flows) x p port} \<and>
        (\<forall>st \<in> set shown. (ps_UDP st \<longleftrightarrow> (UDP, ps_Port st) \<in> set (rp_cur (ag_responder a'))) \<and>
                          (ps_TCP st \<longleftrightarrow> (TCP, ps_Port st) \<in> set (rp_cur (ag_responder a')))))"
proof -
  let ?plan = "plan_for plans x"
  let ?wants = "\<lambda>p port. profile_HasPorts p \<and> wants_port (filter (taking_part infos adm) flows) x p port"
  have ok: "flow_plan_ok ?plan"
    using plan_for_ok [OF assms(6,7)] assms(8) by blast
  obtain sts r ev where s: "Serve listen (fp_ListenPorts ?plan) (ag_responder a) = Some (sts, r, ev)"
    "\<forall>p port. (p, port) \<in> set (rp_cur r) \<longleftrightarrow> ?wants p port \<and> listen p (port_addr port) = None"
    "ps_Port ` set sts = {port. \<exists>p. ?wants p port}"
    "\<forall>st \<in> set sts. (ps_UDP st \<longleftrightarrow> (UDP, ps_Port st) \<in> set (rp_cur r)) \<and>
                     (ps_TCP st \<longleftrightarrow> (TCP, ps_Port st) \<in> set (rp_cur r))"
    and rng: "\<forall>st \<in> set sts. int64_range (ps_Port st)"
    using planned_ports_served [OF assms(6-8) refl, where x = x and listen = listen and resp = "ag_responder a"] by blast
  let ?rep = "\<lparr>pr_AgentID = cf_AgentID (ag_cfg a), pr_Ports = sts\<rparr>"
  obtain a' evs where a': "ctl_resume listen pick now k (onControl windows etext px k env a) = Goes a' evs"
    "ag_flows a' = fp_Flows ?plan" "ag_responder a' = r"
    "map frame_content (pe_send (cl_peers (ag_client a') k)) =
       map frame_content (pe_send (cl_peers (ag_client a) k)) @ [(TypePortStatus, Some (enc_port_report ?rep))]"
    using plan_frame_handled [OF agent_reach_ok [OF assms(1)] assms(2,3,9,10) ok assms(4,5) s(1)] by blast
  let ?b = "last (pe_send (cl_peers (ag_client a') k))"
  have "frame_content ?b = (TypePortStatus, Some (enc_port_report ?rep))"
    using a'(4) by (metis last_map last_snoc list.map_disc_iff snoc_eq_iff_butlast)
  then have b: "en_Type (frame_env ?b) = TypePortStatus" "en_Payload (frame_env ?b) = Some (enc_port_report ?rep)"
    by (simp_all add: frame_content_def)
  have "port_report_ok ?rep"
    using rng by (simp add: port_report_ok_def port_status_ok_def)
  from report_decodes [OF b this]
  have shown: "ac_ports (hb_conns (fst (onMessage ptime pk nw c (frame_env ?b) h)) c) = sts" for ptime pk nw c h
    by simp
  have "map af_ID (fp_Flows ?plan) = map fl_ID (filter (\<lambda>f. taking_part infos adm f \<and> fl_SrcAgent f = x) flows)"
    using plan_contents [OF assms(6,7), of x] by (simp add: agent_flow_of_def o_def conj_commute)
  with a'(1-3) arg_cong [OF a'(4), of length] s(2-4) show ?thesis
    by (intro exI [of _ a'] exI [of _ evs] exI [of _ ?b]) (simp add: shown Let_def)
qed


theorem flows_become_listeners_witness:
  "\<exists>plans a' evs. ctl_resume (\<lambda>_ _. None) False 0 0 (onControl False (\<lambda>_. '''') no_process 0
       (NewEnvelope TypeFlowPlan '''' 1 0 (Some (enc_flow_plan (plan_for plans ''b'')))) (agent_New None demo_cfg))
       = Goes a' evs \<and> (UDP, 7000) \<in> set (rp_cur (ag_responder a'))"
proof -
  let ?is = "[demo_info ''a'' ''10.0.0.1:5000'', demo_info ''b'' ''10.0.0.2:5000'']"
  let ?adm = "newAdminStore '''' None"
  obtain plans n where b: "buildFlowPlans (\<lambda>xs. xs) 0 ?is ?adm [demo_ab_flow] = (plans, n)"
    using demo_plans by blast
  let ?env = "NewEnvelope TypeFlowPlan '''' 1 0 (Some (enc_flow_plan (plan_for plans ''b'')))"
  have t: "taking_part ?is ?adm demo_ab_flow"
    by (simp add: taking_part_def demo_ab_flow_def demo_info_def newAdminStore_def admin_load_def admin_get_def
        defaultConfig_def)
  have w: "wants_port [demo_ab_flow] ''b'' UDP 7000"
    by (simp add: wants_port_def demo_ab_flow_def)
  have f: "flow_ok demo_ab_flow" "0 < fl_DstPort demo_ab_flow" "fl_DstPort demo_ab_flow < 10 ^ 12"
    by (simp_all add: flow_ok_def demo_ab_flow_def zero_flow_def int64_range_def)
  have a: "ag_ctl (agent_New None demo_cfg) = Idle" "all_ended (ag_engine (agent_New None demo_cfg))"
    "\<not> pe_done (cl_peers (ag_client (agent_New None demo_cfg)) 0)"
    "length (pe_send (cl_peers (ag_client (agent_New None demo_cfg)) 0)) < sendBuffer"
    by (simp_all add: agent_New_def NewEngine_def all_ended_def NewClient_def NewPeer_def sendBuffer_def)
  have fl: "\<forall>f \<in> set [demo_ab_flow]. flow_ok f \<and>
      (profile_HasPorts (fl_Protocol f) \<longrightarrow> 0 < fl_DstPort f \<and> fl_DstPort f < 10 ^ 12)"
    using f by simp
  have env: "en_Type ?env = TypeFlowPlan" "en_Payload ?env = Some (enc_flow_plan (plan_for plans ''b''))"
    by simp_all
  obtain a' evs where r: "ctl_resume (\<lambda>_ _. None) False 0 0
      (onControl False (\<lambda>_. '''') no_process 0 ?env (agent_New None demo_cfg)) = Goes a' evs"
    "(UDP, 7000) \<in> set (rp_cur (ag_responder a')) \<longleftrightarrow>
      profile_HasPorts UDP \<and> wants_port (filter (taking_part ?is ?adm) [demo_ab_flow]) ''b'' UDP 7000 \<and>
      (None :: string option) = None"
    using flows_become_listeners [where perm = "\<lambda>xs. xs", OF agent_reach.start a(1,2,3,4) refl b fl env,
        of "\<lambda>_ _. None" False 0 False "\<lambda>_. ''''" no_process] by blast
  have "(UDP, 7000) \<in> set (rp_cur (ag_responder a'))"
    using r(2) t w by (simp add: profile_HasPorts_def)
  with r(1) show ?thesis by blast
qed


subsection \<open>Joining\<close>

text \<open>The query of the URL an agent dials, and a parameter as the server reads it.\<close>

definition dial_query :: "client \<Rightarrow> (string \<times> string) list" where
  "dial_query c = [(''id'', cl_agentID c)] @ (if cl_joinToken c \<noteq> '''' then [(''token'', cl_joinToken c)] else [])"

definition query_get :: "(string \<times> string) list \<Rightarrow> string \<Rightarrow> string" where
  "query_get q k = (case map_of q k of None \<Rightarrow> '''' | Some v \<Rightarrow> v)"

lemma dial_token: "query_get (dial_query c) ''token'' = cl_joinToken c"
  by (simp add: query_get_def dial_query_def)

text \<open>An agent is let in exactly if the controller asks for no token or for the agent's one.\<close>

lemma matching_tokens_join:
  assumes "rq_token r = query_get (dial_query cl) ''token''" and "we_upgrade w"
  shows "fst (serve_agent w r c) =
    (if hb_joinToken (ct_hub c) \<in> {'''', cl_joinToken cl} then switching else HttpError 403 ''forbidden'')"
  using assms ct_compare_strings [of "cl_joinToken cl" "hb_joinToken (ct_hub c)"]
  by (auto simp: serve_agent_def ServeAgent_def dial_token Let_def simp del: One_nat_def)

end
