(* ===== verification/ClientRun.thy ===== *)
theory ClientRun
  imports Client
begin

text \<open>
  The histories of the agent's client (\<open>internal/transport/client.go\<close>): submissions from several
  goroutines, the telemetry loop, the connection loop, the pumps and the operator in any interleaving;
  the ledger of metrics over them, and the order in which metrics leave.
\<close>

subsection \<open>Histories of the client\<close>

text \<open>What is handed to connections: one live batch, or the replayed spool in batches.\<close>

definition live :: "metric list \<Rightarrow> telemetry_batch list" where
  "live ms = (if ms = [] then [] else [\<lparr>tb_Metrics = ms, tb_Replay = False\<rparr>])"

definition replays :: "metric list \<Rightarrow> telemetry_batch list" where
  "replays ms = map (\<lambda>b. \<lparr>tb_Metrics = b, tb_Replay = True\<rparr>) (chunks maxBatch ms)"

definition handed :: "telemetry_batch list \<Rightarrow> metric list" where
  "handed bs = concat (map tb_Metrics bs)"

lemma handed_simps [simp]:
  "handed [] = []" "handed (b # bs) = tb_Metrics b @ handed bs" "handed (as @ bs) = handed as @ handed bs"
  "handed (live ms) = ms" "handed (replays ms) = ms"
  by (simp_all add: handed_def live_def replays_def comp_def concat_chunks maxBatch_def)

text \<open>A history carries the metrics in the order they were stamped, in the order they were offered to
  the intake (a goroutine between the two holds a stamped metric), and the batches
  handed to connections.  A connection is over only when its \<open>Run\<close> has returned, both pumps ended.\<close>

inductive client_run ::
  "client \<Rightarrow> metric list \<Rightarrow> metric list \<Rightarrow> telemetry_batch list \<Rightarrow> client \<Rightarrow> bool" for c0 where
  init: "client_run c0 [] [] [] c0"
| stamp: "client_run c0 subs offs sents c \<Longrightarrow>
    client_run c0 (subs @ [stamp_metric now m c]) offs sents (submit_stamp c)"
| offer: "client_run c0 subs offs sents c \<Longrightarrow> m \<in># mset subs - mset offs \<Longrightarrow>
    client_run c0 subs (offs @ [m]) sents (submit_offer m c)"
| take: "client_run c0 subs offs sents c \<Longrightarrow> cl_waiting c = None \<Longrightarrow> loop_take pick now c = (c', ms, evs) \<Longrightarrow>
    client_run c0 subs offs (sents @ live ms) c'"
| tick: "client_run c0 subs offs sents c \<Longrightarrow> cl_waiting c = None \<Longrightarrow> flush pick now c = (c', ms, evs) \<Longrightarrow>
    client_run c0 subs offs (sents @ live ms) c'"
| resume: "client_run c0 subs offs sents c \<Longrightarrow> flush_resume pick c = (c', ms, evs) \<Longrightarrow>
    client_run c0 subs offs (sents @ live ms) c'"
| dial: "client_run c0 subs offs sents c \<Longrightarrow> cl_conn c = None \<Longrightarrow> conn_open pick now addr c = (c', ms, evs) \<Longrightarrow>
    client_run c0 subs offs (sents @ replays ms) c'"
| expose: "client_run c0 subs offs sents c \<Longrightarrow> cl_conn c \<noteq> None \<Longrightarrow> conn_expose addr c = (c', evs) \<Longrightarrow>
    client_run c0 subs offs sents c'"
| finish: "client_run c0 subs offs sents c \<Longrightarrow> cl_conn c = Some k \<Longrightarrow> run_returned (cl_peers c k) \<Longrightarrow>
    conn_finished c = (c', evs) \<Longrightarrow> client_run c0 subs offs sents c'"
| master: "client_run c0 subs offs sents c \<Longrightarrow> client_run c0 subs offs sents (SetMaster addr c)"
| pump: "client_run c0 subs offs sents c \<Longrightarrow> pump_step (cl_peers c k) fs p \<Longrightarrow>
    (\<forall>b. cl_waiting c = Some (k, b) \<longrightarrow> b \<in> set (pe_blocked p)) \<Longrightarrow>
    client_run c0 subs offs sents (set_peer k p c)"

text \<open>A submission that nobody overtakes.\<close>

lemma subset_add_rest:
  assumes "N \<subseteq># M" and "m \<in># M - N"
  shows "add_mset m N \<subseteq># M"
proof -
  obtain K where "M - N = add_mset m K"
    using multi_member_split [OF assms(2)] by blast
  then have "M = add_mset m N + K"
    using subset_mset.add_diff_inverse [OF assms(1)] by simp
  then show ?thesis by simp
qed

lemma client_run_offered: "client_run c0 subs offs sents c \<Longrightarrow> mset offs \<subseteq># mset subs"
proof (induction rule: client_run.induct)
  case (stamp subs offs sents c now m)
  then show ?case
    by (simp add: subset_mset.order_trans [of "mset offs" "mset subs"])
next
  case (offer subs offs sents c m)
  then show ?case by (simp add: subset_add_rest)
qed auto

lemma client_run_submit:
  assumes "client_run c0 subs offs sents c"
  shows "client_run c0 (subs @ [stamp_metric now m c]) (offs @ [stamp_metric now m c]) sents (SubmitMetric now m c)"
  unfolding SubmitMetric_def
proof (rule client_run.offer [OF client_run.stamp [OF assms]])
  show "stamp_metric now m c \<in># mset (subs @ [stamp_metric now m c]) - mset offs"
    using client_run_offered [OF assms] by (simp add: in_diff_count mset_subset_eq_count less_Suc_eq_le)
qed

text \<open>Where metrics are held.\<close>

definition held :: "client \<Rightarrow> metric list" where
  "held c = ch_buf (cl_telemetryIn c) @ cl_batch c @ contents (cl_spool c)"

definition accounts :: "metric list \<Rightarrow> metric list \<Rightarrow> client \<Rightarrow> bool" where
  "accounts subs sents c \<longleftrightarrow> sp_ok (cl_spool c) \<and>
     (\<exists>D. mset subs = mset sents + mset (held c) + D \<and> of_nat (size D) = OverflowDropped (cl_spool c))"

lemma ring_account:
  assumes "sp_ok s"
  shows "\<exists>D. mset (contents s) + mset ms = mset (contents (fold Push ms s)) + D \<and>
     OverflowDropped (fold Push ms s) = OverflowDropped s + of_nat (size D)"
proof -
  let ?n = "length (contents s @ ms) - Cap s"
  have "contents (fold Push ms s) = drop ?n (contents s @ ms)"
    using ring.push_all_items [OF assms, of ms] by (simp add: ring.push_all_def lastn_def)
  moreover have "mset (contents s @ ms) = mset (take ?n (contents s @ ms)) + mset (drop ?n (contents s @ ms))"
    by (metis append_take_drop_id mset_append)
  moreover have "size (mset (take ?n (contents s @ ms))) = ?n"
    by simp
  moreover have "OverflowDropped (fold Push ms s) = OverflowDropped s + of_nat ?n"
    using overflow_fold [OF assms, of ms] by (simp add: ring.push_all_def)
  ultimately show ?thesis
    by (intro exI [of _ "mset (take ?n (contents s @ ms))"]) (simp add: add.commute)
qed

text \<open>Three ways an operation keeps the accounts: it moves metrics between places, it hands some over,
  or it pushes some into the spool.\<close>

lemma accounts_move:
  assumes "accounts subs sents c" and "sp_ok (cl_spool c')"
    and "OverflowDropped (cl_spool c') = OverflowDropped (cl_spool c)"
    and "mset ms + mset (held c') = mset (held c)"
  shows "accounts subs (sents @ ms) c'"
proof -
  obtain D where D: "mset subs = mset sents + mset (held c) + D" "of_nat (size D) = OverflowDropped (cl_spool c)"
    using assms(1) by (auto simp: accounts_def)
  have "mset subs = mset (sents @ ms) + mset (held c') + D"
    using D(1) by (simp flip: assms(4))
  with D(2) assms(2,3) show ?thesis
    by (auto simp: accounts_def)
qed

lemma accounts_push:
  assumes "accounts subs sents c" and "cl_spool c' = fold Push ms (cl_spool c)"
    and "mset (ch_buf (cl_telemetryIn c')) + mset (cl_batch c') + mset ms
       = mset (ch_buf (cl_telemetryIn c)) + mset (cl_batch c) + mset new"
  shows "accounts (subs @ new) sents c'"
proof -
  obtain D where D: "mset subs = mset sents + mset (held c) + D" "of_nat (size D) = OverflowDropped (cl_spool c)"
    and ok: "sp_ok (cl_spool c)"
    using assms(1) by (auto simp: accounts_def)
  obtain E where E: "mset (contents (cl_spool c)) + mset ms = mset (contents (cl_spool c')) + E"
    "OverflowDropped (cl_spool c') = OverflowDropped (cl_spool c) + of_nat (size E)"
    using ring_account [OF ok, of ms] assms(2) by auto
  have "mset (held c) + mset new = mset (contents (cl_spool c)) +
      (mset (ch_buf (cl_telemetryIn c)) + mset (cl_batch c) + mset new)"
    by (simp add: held_def ac_simps)
  also have "\<dots> = mset (ch_buf (cl_telemetryIn c')) + mset (cl_batch c') +
      (mset (contents (cl_spool c)) + mset ms)"
    using assms(3) by (simp add: ac_simps)
  also have "\<dots> = mset (held c') + E"
    unfolding E(1) by (simp add: held_def ac_simps)
  finally have "mset (held c) + mset new = mset (held c') + E" .
  with D(1) have "mset (subs @ new) = mset sents + mset (held c') + (D + E)"
    by (metis add.assoc add.commute mset_append)
  with D(2) E(2) assms(2) sp_ok_fold [OF ok, of ms] show ?thesis
    by (auto simp: accounts_def intro!: exI [of _ "D + E"])
qed

lemma accounts_same:
  "accounts subs sents c \<Longrightarrow> cl_spool c' = cl_spool c \<Longrightarrow> cl_batch c' = cl_batch c \<Longrightarrow>
   cl_telemetryIn c' = cl_telemetryIn c \<Longrightarrow> accounts subs sents c'"
  by (simp add: accounts_def held_def)

lemma accounts_handed:
  "accounts subs sents c \<Longrightarrow> cl_spool c' = cl_spool c \<Longrightarrow> cl_batch c' = [] \<Longrightarrow>
   cl_telemetryIn c' = cl_telemetryIn c \<Longrightarrow> accounts subs (sents @ cl_batch c) c'"
  by (rule accounts_move [of subs sents c]) (auto simp: accounts_def held_def)

lemma accounts_spooled:
  "accounts subs sents c \<Longrightarrow> cl_spool c' = fold Push (cl_batch c) (cl_spool c) \<Longrightarrow> cl_batch c' = [] \<Longrightarrow>
   cl_telemetryIn c' = cl_telemetryIn c \<Longrightarrow> accounts subs sents c'"
  using accounts_push [of subs sents c c' "cl_batch c" "[]"] by simp

lemma accounts_flush:
  assumes "accounts subs sents c" and "flush pick now c = (c', ms, evs)"
  shows "accounts subs (sents @ ms) c'"
proof (cases "cl_batch c = []")
  case True
  with assms show ?thesis by (simp add: flush_def)
next
  case False
  show ?thesis
  proof (cases "cl_peer c")
    case None
    with False assms(2) have "c' = spool_batch c" "ms = []"
      by (auto simp: flush_def Let_def)
    with assms(1) show ?thesis
      by (simp add: accounts_spooled [OF assms(1)] spool_batch_def)
  next
    case (Some k)
    obtain r p where s: "Send pick now TypeTelemetry
        (Some (enc_batch \<lparr>tb_Metrics = cl_batch c, tb_Replay = False\<rparr>)) (cl_peers c k) = (r, p)"
      by (cases "Send pick now TypeTelemetry
        (Some (enc_batch \<lparr>tb_Metrics = cl_batch c, tb_Replay = False\<rparr>)) (cl_peers c k)")
    with False Some assms(2) have "flush pick now c = (case r of
        SendOk \<Rightarrow> ((set_peer k p c)\<lparr>cl_batch := []\<rparr>, cl_batch c, [])
      | SendClosed \<Rightarrow> (spool_batch (set_peer k p c), [], [])
      | SendBlocked \<Rightarrow> ((set_peer k p c)\<lparr>cl_waiting := Some (k, hd (pe_blocked p))\<rparr>, [], []))"
      by (simp add: flush_def split: send_result.splits)
    with assms show ?thesis
      by (cases r) (auto intro: accounts_handed [OF assms(1)] accounts_spooled [OF assms(1)]
          accounts_same [OF assms(1)] simp: spool_batch_def)
  qed
qed

lemma accounts_resume:
  assumes "accounts subs sents c" and "flush_resume pick c = (c', ms, evs)"
  shows "accounts subs (sents @ ms) c'"
proof (cases "cl_waiting c")
  case None
  with assms show ?thesis by (simp add: flush_resume_def)
next
  case (Some kb)
  obtain k b where kb: "kb = (k, b)" by (cases kb)
  obtain r p where s: "retry pick b (cl_peers c k) = (r, p)"
    by (cases "retry pick b (cl_peers c k)")
  with Some kb have "flush_resume pick c = (case r of
        SendOk \<Rightarrow> ((set_peer k p c)\<lparr>cl_waiting := None, cl_batch := []\<rparr>, cl_batch c, [])
      | SendClosed \<Rightarrow> (spool_batch ((set_peer k p c)\<lparr>cl_waiting := None\<rparr>), [], [])
      | SendBlocked \<Rightarrow> (set_peer k p c, [], []))"
    by (simp add: flush_resume_def split: send_result.splits)
  with assms show ?thesis
    by (cases r) (auto intro: accounts_handed [OF assms(1)] accounts_spooled [OF assms(1)]
        accounts_same [OF assms(1)] simp: spool_batch_def)
qed

lemma accounts_take:
  assumes "accounts subs sents c" and "loop_take pick now c = (c', ms, evs)"
  shows "accounts subs (sents @ ms) c'"
proof (cases "ch_buf (cl_telemetryIn c)")
  case Nil
  with assms show ?thesis by (simp add: loop_take_def)
next
  case (Cons m rest)
  let ?c = "c\<lparr>cl_telemetryIn := (cl_telemetryIn c)\<lparr>ch_buf := rest\<rparr>, cl_batch := cl_batch c @ [m]\<rparr>"
  have a: "accounts subs sents ?c"
    using accounts_move [OF assms(1), of ?c "[]"] Cons assms(1)
    by (simp add: held_def accounts_def)
  from assms(2) Cons have "flush pick now ?c = (c', ms, evs) \<or> (c' = ?c \<and> ms = [])"
    by (auto simp: loop_take_def Let_def split: if_splits)
  with a accounts_flush [OF a] show ?thesis by auto
qed

lemma accounts_offer:
  assumes "accounts subs sents c"
  shows "accounts (subs @ [m]) sents (submit_offer m c)"
  using accounts_push [OF assms, of "submit_offer m c" "[]" "[m]"]
    accounts_push [OF assms, of "submit_offer m c" "[m]" "[m]"]
  by (auto simp: submit_offer_def Let_def offer_def)

lemma accounts_open:
  assumes "accounts subs sents c" and "conn_open pick now addr c = (c', ms, evs)"
  shows "accounts subs (sents @ ms) c'"
proof (cases "cl_masterAddr c = addr")
  case False
  with assms show ?thesis by (simp add: conn_open_def)
next
  case True
  let ?s = "Send pick now TypeRegister (Some (enc_register (register_payload c))) (NewPeer (cl_agentID c))"
  obtain r p where s: "?s = (r, p)" by (cases ?s)
  show ?thesis
  proof (cases "r = SendOk")
    case ok: True
    let ?k = "cl_next c"
    let ?c = "(set_peer ?k p (c\<lparr>cl_next := Suc ?k\<rparr>))\<lparr>cl_conn := Some ?k\<rparr>"
    have f: "flushSpool pick now ?k ?c = (c', ms, evs)"
      using assms(2) True s ok by (simp add: conn_open_def Let_def)
    have c: "accounts subs sents ?c"
      by (rule accounts_same [OF assms(1)]) simp_all
    then have ok: "sp_ok (cl_spool ?c)"
      by (simp only: accounts_def)
    have same: "cl_batch c' = cl_batch ?c" "cl_telemetryIn c' = cl_telemetryIn ?c"
      using f by (auto simp: flushSpool_def Let_def split: prod.splits if_splits flush_end.splits)
    note eff = flushSpool_effect [OF ok f]
    have "mset ms + mset (contents (cl_spool c')) = mset (contents (cl_spool ?c))"
      using eff by (metis mset_append)
    then have "mset ms + mset (held c') = mset (held ?c)"
      using same by (simp add: held_def ac_simps)
    with eff show ?thesis
      by (intro accounts_move [OF c]) simp_all
  next
    case False
    with assms(2) True s have "ms = []" "cl_spool c' = cl_spool c" "cl_batch c' = cl_batch c"
      "cl_telemetryIn c' = cl_telemetryIn c"
      by (cases r; auto simp: conn_open_def Let_def)+
    with accounts_same [OF assms(1)] show ?thesis by simp
  qed
qed

lemma telemetrySeq_kept:
  "flush pick now c = (c', ms, evs) \<Longrightarrow> cl_telemetrySeq c' = cl_telemetrySeq c"
  "flush_resume pick c = (c', ms, evs) \<Longrightarrow> cl_telemetrySeq c' = cl_telemetrySeq c"
  "conn_expose addr c = (c', evs) \<Longrightarrow> cl_telemetrySeq c' = cl_telemetrySeq c"
  "conn_finished c = (c', evs) \<Longrightarrow> cl_telemetrySeq c' = cl_telemetrySeq c"
  "flushSpool pick now k c = (c', ms, evs) \<Longrightarrow> cl_telemetrySeq c' = cl_telemetrySeq c"
  "cl_telemetrySeq (SetMaster addr c) = cl_telemetrySeq c"
  by (auto simp: flush_def flush_resume_def conn_expose_def conn_finished_def spool_batch_def Let_def
      flushSpool_def SetMaster_def
      split: if_splits option.splits prod.splits send_result.splits flush_end.splits)

lemma telemetrySeq_take: "loop_take pick now c = (c', ms, evs) \<Longrightarrow> cl_telemetrySeq c' = cl_telemetrySeq c"
  by (auto simp: loop_take_def Let_def dest: telemetrySeq_kept(1) split: list.splits if_splits)

lemma telemetrySeq_open:
  "conn_open pick now addr c = (c', ms, evs) \<Longrightarrow> cl_telemetrySeq c' = cl_telemetrySeq c"
  by (auto simp: conn_open_def Let_def dest: telemetrySeq_kept(5)
      split: if_splits prod.splits send_result.splits)

definition in_sequence :: "metric list \<Rightarrow> client \<Rightarrow> bool" where
  "in_sequence subs c \<longleftrightarrow> cl_telemetrySeq c = of_nat (length subs) \<and>
     map m_Seq subs = map (\<lambda>i. of_nat (Suc i)) [0..<length subs]"

lemma in_sequence_stamp:
  "in_sequence subs c \<Longrightarrow> in_sequence (subs @ [stamp_metric now m c]) (submit_stamp c)"
  by (simp add: in_sequence_def submit_stamp_def stamp_metric_def add.commute)

lemma submit_offer_seq [simp]: "cl_telemetrySeq (submit_offer m c) = cl_telemetrySeq c"
  by (simp add: submit_offer_def Let_def)

lemma in_sequence_kept: "in_sequence subs c \<Longrightarrow> cl_telemetrySeq c' = cl_telemetrySeq c \<Longrightarrow> in_sequence subs c'"
  by (simp add: in_sequence_def)

definition run_ledger :: "metric list \<Rightarrow> metric list \<Rightarrow> telemetry_batch list \<Rightarrow> client \<Rightarrow> bool" where
  "run_ledger subs offs sents c \<longleftrightarrow> accounts offs (handed sents) c \<and> in_sequence subs c"

lemma client_run_ledger:
  "client_run c0 subs offs sents c \<Longrightarrow> accounts [] [] c0 \<Longrightarrow> in_sequence [] c0 \<Longrightarrow> run_ledger subs offs sents c"
proof (induction rule: client_run.induct)
  case (stamp subs offs sents c now m)
  then show ?case
    by (auto simp: run_ledger_def in_sequence_stamp)
      (auto simp: submit_stamp_def intro: accounts_same)
next
  case (offer subs offs sents c m)
  then show ?case
    by (auto simp: run_ledger_def accounts_offer intro: in_sequence_kept)
next
  case (take subs offs sents c pick now c' ms evs)
  then show ?case
    by (auto simp: run_ledger_def intro: accounts_take in_sequence_kept telemetrySeq_take)
next
  case (tick subs offs sents c pick now c' ms evs)
  then show ?case
    by (auto simp: run_ledger_def intro: accounts_flush in_sequence_kept telemetrySeq_kept)
next
  case (resume subs offs sents c pick c' ms evs)
  then show ?case
    by (auto simp: run_ledger_def intro: accounts_resume in_sequence_kept telemetrySeq_kept)
next
  case (dial subs offs sents c pick now addr c' ms evs)
  then show ?case
    by (auto simp: run_ledger_def intro: accounts_open in_sequence_kept telemetrySeq_open)
next
  case (expose subs offs sents c addr c' evs)
  then show ?case
    by (auto simp: run_ledger_def conn_expose_def in_sequence_def intro: accounts_same)
next
  case (finish subs offs sents c k c' evs)
  then show ?case
    by (auto simp: run_ledger_def conn_finished_def in_sequence_def intro: accounts_same split: option.splits)
next
  case (master subs offs sents c addr)
  then show ?case
    by (auto simp: run_ledger_def SetMaster_def Let_def in_sequence_def intro: accounts_same split: option.splits)
next
  case (pump subs offs sents c k fs p)
  then show ?case
    by (auto simp: run_ledger_def in_sequence_def intro: accounts_same)
qed (simp add: run_ledger_def)

lemma new_client_ledger:
  "accounts [] [] (NewClient agentID hostname version masterAddr token port (sp_New cap))"
  "in_sequence [] (NewClient agentID hostname version masterAddr token port (sp_New cap))"
  using sp_ok_New [of cap] contents_New [of cap]
  by (simp_all add: accounts_def held_def NewClient_def in_sequence_def)
    (simp add: OverflowDropped_def sp_New_def Let_def)

lemma distinct_uniq: "distinct xs \<Longrightarrow> uniq (mset xs)"
  by (auto simp: uniq_def distinct_count_atmost_1)

lemma in_sequence_numbers:
  assumes "in_sequence subs c" and "length subs < 2 ^ 64"
  shows "map (\<lambda>m. unat (m_Seq m)) subs = [1..<Suc (length subs)] \<and> distinct (map m_Seq subs)"
proof -
  have "map (\<lambda>m. unat (m_Seq m)) subs = map unat (map m_Seq subs)"
    by simp
  also have "\<dots> = map (\<lambda>i. unat (of_nat (Suc i) :: u64)) [0..<length subs]"
    using assms(1) by (simp only: in_sequence_def map_map o_def)
  also have "\<dots> = map Suc [0..<length subs]"
    using assms(2) by (intro map_cong) (auto simp: unat_of_nat simp del: of_nat_Suc)
  also have "\<dots> = [1..<Suc (length subs)]"
    by (simp add: map_Suc_upt)
  finally have n: "map (\<lambda>m. unat (m_Seq m)) subs = [1..<Suc (length subs)]" .
  then have "distinct (map unat (map m_Seq subs))"
    by (simp add: o_def)
  with n show ?thesis
    by (metis distinct_map)
qed

text \<open>
  C2: The agent's telemetry ledger.  In every history of the client (racing submissions, batching,
  spooling, reconnects, changes of the master, connection errors in any interleaving) each
  metric that got a number is in exactly one place: handed to a connection once, waiting in the intake,
  the batch or the spool, held by a goroutine that has not offered it yet, or counted by
  OverflowDropped; nothing is handed over twice.  The metrics carry the numbers 1, 2, 3, ... in the
  order of stamping, across reconnects.
\<close>

theorem telemetry_ledger:
  assumes "client_run (NewClient agentID hostname version masterAddr token port (sp_New cap)) subs offs sents c"
    and "length subs < 2 ^ 64"
  shows "(\<exists>inflight dropped. mset subs = mset offs + mset inflight \<and>
       mset offs = mset (handed sents @ held c) + mset dropped \<and>
       unat (OverflowDropped (cl_spool c)) = length dropped) \<and>
     distinct (map m_Seq (handed sents @ held c)) \<and>
     map (\<lambda>m. unat (m_Seq m)) subs = [1..<Suc (length subs)]"
proof -
  have L: "run_ledger subs offs sents c"
    using client_run_ledger [OF assms(1)] new_client_ledger by blast
  then obtain D where D: "mset offs = mset (handed sents @ held c) + D"
    "of_nat (size D) = OverflowDropped (cl_spool c)"
    by (auto simp: run_ledger_def accounts_def)
  obtain dropped where dr: "D = mset dropped"
    by (metis ex_mset)
  obtain inflight where fl: "mset subs = mset offs + mset inflight"
    using client_run_offered [OF assms(1)] by (metis ex_mset subset_mset.le_iff_add)
  have s: "in_sequence subs c"
    using L by (simp add: run_ledger_def)
  note num = in_sequence_numbers [OF s assms(2)]
  have "size (mset subs) = size D + size (mset (handed sents @ held c)) + size (mset inflight)"
    using D(1) fl by simp
  then have "size D \<le> length subs"
    by simp
  then have "unat (OverflowDropped (cl_spool c)) = length dropped"
    using assms(2) dr by (simp add: unat_of_nat flip: D(2))
  moreover have "mset (map m_Seq (handed sents @ held c)) \<subseteq># mset (map m_Seq subs)"
    using D(1) fl by (simp only: mset_map) (simp add: image_mset_subseteq_mono)
  then have "uniq (mset (map m_Seq (handed sents @ held c)))"
    using uniq_mono [OF distinct_uniq] num by blast
  ultimately show ?thesis
    using D(1) dr fl num uniq_distinct by blast
qed

text \<open>One metric offered, a second one stamped by a goroutine that has not offered it yet.\<close>

theorem telemetry_ledger_witness:
  "\<exists>subs offs c. client_run (NewClient ''a'' ''h'' ''1'' '''' '''' 6000 (sp_New 4)) subs offs [] c \<and>
     length subs = 2 \<and> length (held c) = 1 \<and> distinct (map m_Seq (held c)) \<and>
     (\<exists>inflight. mset subs = mset offs + mset inflight \<and> length inflight = 1)"
proof -
  let ?start = "NewClient ''a'' ''h'' ''1'' '''' '''' 6000 (sp_New 4)"
  let ?m = "stamp_metric 5 zero_metric ?start"
  let ?c1 = "SubmitMetric 5 zero_metric ?start"
  let ?subs = "[?m] @ [stamp_metric 6 zero_metric ?c1]" and ?c = "submit_stamp ?c1"
  have "client_run ?start [?m] [?m] [] ?c1"
    using client_run_submit [OF client_run.init] by simp
  then have r: "client_run ?start ?subs [?m] [] ?c"
    by (rule client_run.stamp)
  have h: "length (held ?c) = 1"
    by (simp add: held_def SubmitMetric_def submit_offer_def submit_stamp_def Let_def NewClient_def
        intakeBuffer_def offer_def contents_New)
  obtain inflight where fl: "mset ?subs = mset [?m] + mset inflight" "distinct (map m_Seq (held ?c))"
    using telemetry_ledger [OF r] by auto
  have "size (mset ?subs) = size (mset [?m] + mset inflight)"
    using fl(1) by (rule arg_cong)
  then have "length inflight = 1"
    by simp
  with r h fl show ?thesis
    by (intro exI [of _ ?subs] exI [of _ "[?m]"] exI [of _ ?c]) auto
qed

subsection \<open>The order in which metrics leave\<close>

text \<open>A history in which nothing had to be spooled: no metric is in the spool, and none was replayed from it.\<close>

definition calm :: "telemetry_batch list \<Rightarrow> client \<Rightarrow> bool" where
  "calm sents c \<longleftrightarrow> contents (cl_spool c) = [] \<and> (\<forall>b \<in> set sents. \<not> tb_Replay b)"

definition in_order_of :: "metric list \<Rightarrow> telemetry_batch list \<Rightarrow> client \<Rightarrow> bool" where
  "in_order_of offs sents c \<longleftrightarrow> sp_ok (cl_spool c) \<and> (\<forall>b \<in> set sents. tb_Metrics b \<noteq> []) \<and>
     (calm sents c \<longrightarrow> offs = handed sents @ cl_batch c @ ch_buf (cl_telemetryIn c))"

lemma contents_push_nonempty:
  assumes "sp_ok s" and "ms \<noteq> []"
  shows "contents (fold Push ms s) \<noteq> []"
proof -
  have "contents (fold Push ms s) = lastn (Cap s) (contents s @ ms)"
    using ring.push_all_items [OF assms(1), of ms] by (simp add: ring.push_all_def)
  moreover have "0 < length (lastn (Cap s) (contents s @ ms))"
    using ring.cap_pos [OF assms(1)] assms(2) by simp
  ultimately show ?thesis by fastforce
qed

lemma calm_append [simp]:
  "calm (sents @ live ms) c \<longleftrightarrow> calm sents c"
  "calm (sents @ replays ms) c \<longleftrightarrow> calm sents c \<and> ms = []"
  by (auto simp: calm_def live_def replays_def chunks.simps [of _ ms] maxBatch_def)

lemma nonempty_batches [simp]:
  "\<forall>b \<in> set (live ms). tb_Metrics b \<noteq> []" "\<forall>b \<in> set (replays ms). tb_Metrics b \<noteq> []"
  using chunks_sizes [of maxBatch ms] by (auto simp: live_def replays_def)

text \<open>A step either keeps the spool, and then the places of the metrics in it, or leaves something there.\<close>

lemma in_order_stays:
  assumes "in_order_of offs sents c" and "cl_spool c' = cl_spool c" and "\<forall>b \<in> set bs. tb_Metrics b \<noteq> []"
    and "handed bs @ cl_batch c' @ ch_buf (cl_telemetryIn c') = cl_batch c @ ch_buf (cl_telemetryIn c) @ new"
  shows "in_order_of (offs @ new) (sents @ bs) c'"
  using assms by (auto simp: in_order_of_def calm_def ball_Un)

lemma in_order_spooled:
  assumes "in_order_of offs sents c" and "cl_spool c' = fold Push ms (cl_spool c)" and "ms \<noteq> []"
  shows "in_order_of offs' sents c'"
  using assms contents_push_nonempty [of "cl_spool c" ms] sp_ok_fold [of "cl_spool c" ms]
  by (auto simp: in_order_of_def calm_def)

lemma in_order_offer:
  assumes "in_order_of offs sents c"
  shows "in_order_of (offs @ [m]) sents (submit_offer m c)"
proof (cases "length (ch_buf (cl_telemetryIn c)) < ch_cap (cl_telemetryIn c)")
  case True
  then show ?thesis
    using in_order_stays [OF assms, of "submit_offer m c" "[]" "[m]"]
    by (simp add: submit_offer_def Let_def offer_def)
next
  case False
  then show ?thesis
    by (intro in_order_spooled [OF assms, of _ "[m]"]) (simp_all add: submit_offer_def Let_def)
qed

text \<open>A flush hands the batch over, puts it into the spool, or leaves it where it is.\<close>

definition flush_outcome :: "client \<Rightarrow> client \<Rightarrow> metric list \<Rightarrow> bool" where
  "flush_outcome c c' ms \<longleftrightarrow>
     (cl_batch c \<noteq> [] \<and> ms = [] \<and> cl_spool c' = fold Push (cl_batch c) (cl_spool c)) \<or>
     (cl_spool c' = cl_spool c \<and> cl_telemetryIn c' = cl_telemetryIn c \<and> ms @ cl_batch c' = cl_batch c)"

lemma flush_outcome_flush: "flush pick now c = (c', ms, evs) \<Longrightarrow> flush_outcome c c' ms"
  by (auto simp: flush_outcome_def flush_def Let_def spool_batch_def
      split: if_splits option.splits prod.splits send_result.splits)

lemma flush_outcome_resume:
  "flush_resume pick c = (c', ms, evs) \<Longrightarrow> cl_waiting c \<noteq> None \<Longrightarrow> cl_batch c \<noteq> [] \<Longrightarrow> flush_outcome c c' ms"
  by (auto simp: flush_outcome_def flush_resume_def spool_batch_def split: prod.splits send_result.splits)

lemma in_order_outcome:
  assumes "in_order_of offs sents c" and "flush_outcome c c' ms"
  shows "in_order_of offs (sents @ live ms) c'"
  using assms(2) unfolding flush_outcome_def
proof (elim disjE conjE)
  assume "cl_batch c \<noteq> []" "ms = []" "cl_spool c' = fold Push (cl_batch c) (cl_spool c)"
  then show ?thesis
    using in_order_spooled [OF assms(1)] by (simp add: live_def)
next
  assume "cl_spool c' = cl_spool c" "cl_telemetryIn c' = cl_telemetryIn c" "ms @ cl_batch c' = cl_batch c"
  then show ?thesis
    using in_order_stays [OF assms(1), of c' "live ms" "[]"] by simp
qed

lemma live_Nil [simp]: "live [] = []"
  by (simp add: live_def)

lemma in_order_take:
  assumes "in_order_of offs sents c" and "loop_take pick now c = (c', ms, evs)"
  shows "in_order_of offs (sents @ live ms) c'"
proof (cases "ch_buf (cl_telemetryIn c)")
  case Nil
  with assms show ?thesis by (simp add: loop_take_def)
next
  case (Cons m rest)
  let ?c = "c\<lparr>cl_telemetryIn := (cl_telemetryIn c)\<lparr>ch_buf := rest\<rparr>, cl_batch := cl_batch c @ [m]\<rparr>"
  have a: "in_order_of offs sents ?c"
    using in_order_stays [OF assms(1), of ?c "[]" "[]"] Cons by simp
  from assms(2) Cons have "flush pick now ?c = (c', ms, evs) \<or> (c' = ?c \<and> ms = [])"
    by (auto simp: loop_take_def Let_def split: if_splits)
  with a in_order_outcome [OF a] flush_outcome_flush show ?thesis by auto
qed

lemma in_order_open:
  assumes "in_order_of offs sents c" and "conn_open pick now addr c = (c', ms, evs)"
  shows "in_order_of offs (sents @ replays ms) c'"
proof -
  have ok: "sp_ok (cl_spool c)"
    using assms(1) by (simp add: in_order_of_def)
  have same: "cl_batch c' = cl_batch c" "cl_telemetryIn c' = cl_telemetryIn c"
    using assms(2) by (auto simp: conn_open_def flushSpool_def Let_def
        split: prod.splits if_splits flush_end.splits send_result.splits)
  have eff: "ms @ contents (cl_spool c') = contents (cl_spool c) \<and> sp_ok (cl_spool c')"
    using assms(2) ok
    by (auto simp: conn_open_def Let_def dest!: flushSpool_effect [rotated]
        split: prod.splits if_splits send_result.splits)
  have "calm sents c" if "calm (sents @ replays ms) c'"
    using that eff by (simp add: calm_def [of sents])
  with assms(1) same eff show ?thesis
    by (auto simp: in_order_of_def ball_Un)
qed

text \<open>While a \<open>Send\<close> waits, the frame it wants to queue is the batch.\<close>

definition waits_with_batch :: "client \<Rightarrow> bool" where
  "waits_with_batch c \<longleftrightarrow> (\<forall>k b. cl_waiting c = Some (k, b) \<longrightarrow> cl_batch c \<noteq> [] \<and>
     frame_content b = (TypeTelemetry, Some (enc_batch \<lparr>tb_Metrics = cl_batch c, tb_Replay = False\<rparr>)))"

lemma Send_waits:
  "Send pick now t v p = (SendBlocked, p') \<Longrightarrow> frame_content (hd (pe_blocked p')) = (t, v)"
  by (auto simp: Send_def stamp_def Let_def enqueue_def frame_content_def split: if_splits)

lemma waits_flush:
  "waits_with_batch c \<Longrightarrow> cl_waiting c = None \<Longrightarrow> flush pick now c = (c', ms, evs) \<Longrightarrow> waits_with_batch c'"
  by (auto simp: waits_with_batch_def flush_def Let_def spool_batch_def Send_waits
      split: if_splits option.splits prod.splits send_result.splits)

lemma waits_resume:
  "waits_with_batch c \<Longrightarrow> flush_resume pick c = (c', ms, evs) \<Longrightarrow> waits_with_batch c'"
  by (auto simp: waits_with_batch_def flush_resume_def spool_batch_def
      split: option.splits prod.splits send_result.splits)

lemma waits_take:
  assumes "waits_with_batch c" and "cl_waiting c = None" and "loop_take pick now c = (c', ms, evs)"
  shows "waits_with_batch c'"
proof (cases "ch_buf (cl_telemetryIn c)")
  case (Cons m rest)
  let ?c = "c\<lparr>cl_telemetryIn := (cl_telemetryIn c)\<lparr>ch_buf := rest\<rparr>, cl_batch := cl_batch c @ [m]\<rparr>"
  have "waits_with_batch ?c" "cl_waiting ?c = None"
    using assms(2) by (simp_all add: waits_with_batch_def)
  moreover from assms(3) Cons have "flush pick now ?c = (c', ms, evs) \<or> c' = ?c"
    by (auto simp: loop_take_def Let_def split: if_splits)
  ultimately show ?thesis
    using waits_flush by blast
qed (use assms in \<open>simp add: loop_take_def\<close>)

lemma waits_same:
  "waits_with_batch c \<Longrightarrow> cl_waiting c' = cl_waiting c \<Longrightarrow> cl_batch c' = cl_batch c \<Longrightarrow> waits_with_batch c'"
  by (simp add: waits_with_batch_def)

lemma waits_offer: "waits_with_batch (submit_offer m c) = waits_with_batch c"
  by (simp add: waits_with_batch_def submit_offer_def Let_def)

lemma waits_open:
  "waits_with_batch c \<Longrightarrow> conn_open pick now addr c = (c', ms, evs) \<Longrightarrow> waits_with_batch c'"
  by (erule waits_same) (auto simp: conn_open_def flushSpool_def Let_def
      split: prod.splits if_splits flush_end.splits send_result.splits)

lemma in_order_framed:
  assumes "in_order_of offs sents c \<and> waits_with_batch c" and "cl_spool c' = cl_spool c"
    and "cl_batch c' = cl_batch c" and "cl_telemetryIn c' = cl_telemetryIn c" and "cl_waiting c' = cl_waiting c"
  shows "in_order_of offs sents c' \<and> waits_with_batch c'"
  using assms unfolding in_order_of_def calm_def waits_with_batch_def by metis

lemma client_run_in_order:
  "client_run c0 subs offs sents c \<Longrightarrow> in_order_of [] [] c0 \<Longrightarrow> waits_with_batch c0 \<Longrightarrow>
   in_order_of offs sents c \<and> waits_with_batch c"
proof (induction rule: client_run.induct)
  case (stamp subs offs sents c now m)
  show ?case
    by (rule in_order_framed [OF stamp.IH [OF stamp.prems]]) (simp_all add: submit_stamp_def)
next
  case (offer subs offs sents c m)
  then show ?case by (simp add: in_order_offer waits_offer)
next
  case (take subs offs sents c pick now c' ms evs)
  then show ?case
    using in_order_take [OF _ take.hyps(3)] waits_take [OF _ take.hyps(2,3)] by simp
next
  case (tick subs offs sents c pick now c' ms evs)
  then show ?case
    using in_order_outcome [OF _ flush_outcome_flush [OF tick.hyps(3)]] waits_flush [OF _ tick.hyps(2,3)] by simp
next
  case (resume subs offs sents c pick c' ms evs)
  show ?case
  proof (cases "cl_waiting c")
    case None
    with resume.hyps(2) have "c' = c" "ms = []"
      by (simp_all add: flush_resume_def)
    then show ?thesis
      using resume.IH [OF resume.prems] by simp
  next
    case (Some kb)
    with resume.IH [OF resume.prems] have "cl_batch c \<noteq> []"
      by (cases kb) (simp add: waits_with_batch_def)
    with Some have "flush_outcome c c' ms"
      by (intro flush_outcome_resume [OF resume.hyps(2)]) simp_all
    then show ?thesis
      using in_order_outcome waits_resume [OF _ resume.hyps(2)] resume.IH [OF resume.prems] by blast
  qed
next
  case (dial subs offs sents c pick now addr c' ms evs)
  then show ?case
    using in_order_open [OF _ dial.hyps(3)] waits_open [OF _ dial.hyps(3)] by simp
next
  case (expose subs offs sents c addr c' evs)
  show ?case
    by (rule in_order_framed [OF expose.IH [OF expose.prems]]) (use expose.hyps(3) in \<open>auto simp: conn_expose_def\<close>)
next
  case (finish subs offs sents c k c' evs)
  show ?case
    by (rule in_order_framed [OF finish.IH [OF finish.prems]])
      (use finish.hyps(4) in \<open>auto simp: conn_finished_def split: option.splits\<close>)
next
  case (master subs offs sents c addr)
  show ?case
    by (rule in_order_framed [OF master.IH [OF master.prems]]) (auto simp: SetMaster_def Let_def split: option.splits)
next
  case (pump subs offs sents c k fs p)
  show ?case
    by (rule in_order_framed [OF pump.IH [OF pump.prems]]) simp_all
qed auto

lemma new_client_in_order:
  "in_order_of [] [] (NewClient agentID hostname version masterAddr token port (sp_New cap))"
  "waits_with_batch (NewClient agentID hostname version masterAddr token port (sp_New cap))"
  by (simp_all add: in_order_of_def NewClient_def sp_ok_New waits_with_batch_def handed_def)

text \<open>What a step reports as handed over is the frame it puts into the queue of a connection.\<close>

definition queues :: "client \<Rightarrow> nat \<Rightarrow> (string \<times> json option) list" where
  "queues c k = map frame_content (pe_send (cl_peers c k))"

definition batch_content :: "telemetry_batch \<Rightarrow> string \<times> json option" where
  "batch_content b = (TypeTelemetry, Some (enc_batch b))"

definition queued_one :: "client \<Rightarrow> client \<Rightarrow> metric list \<Rightarrow> bool" where
  "queued_one c c' ms \<longleftrightarrow> ms = [] \<and> queues c' = queues c \<or>
     (\<exists>k. queues c' = (queues c)(k := queues c k @ map batch_content (live ms)))"

lemma queues_set_peer:
  assumes "cl_peers c' = (cl_peers c)(k := p)"
    and "map frame_content (pe_send p) = queues c k @ map batch_content (live ms)"
  shows "queued_one c c' ms"
  unfolding queued_one_def
  by (intro disjI2 exI [of _ k]) (simp add: queues_def assms fun_eq_iff)

lemma flush_queues:
  assumes "flush pick now c = (c', ms, evs)"
  shows "queued_one c c' ms"
proof (cases "cl_batch c = [] \<or> cl_peer c = None")
  case True
  with assms have "ms = []" "cl_peers c' = cl_peers c"
    by (auto simp: flush_def Let_def spool_batch_def split: if_splits)
  then show ?thesis
    by (simp add: queued_one_def queues_def fun_eq_iff)
next
  case False
  then obtain k where k: "cl_batch c \<noteq> []" "cl_peer c = Some k" by auto
  obtain r p where s: "Send pick now TypeTelemetry
      (Some (enc_batch \<lparr>tb_Metrics = cl_batch c, tb_Replay = False\<rparr>)) (cl_peers c k) = (r, p)"
    by fastforce
  from k s assms have "cl_peers c' = (cl_peers c)(k := p)" "ms = (if r = SendOk then cl_batch c else [])"
    by (cases r; auto simp: flush_def spool_batch_def)+
  then show ?thesis
    using Send_effect [OF s] k
    by (intro queues_set_peer [of c' c k p]) (auto simp: queues_def batch_content_def live_def)
qed

lemma resume_queues:
  assumes "flush_resume pick c = (c', ms, evs)" and "waits_with_batch c"
  shows "queued_one c c' ms"
proof (cases "cl_waiting c")
  case None
  with assms show ?thesis by (simp add: flush_resume_def queued_one_def)
next
  case (Some kb)
  obtain k b where kb: "kb = (k, b)" by (cases kb)
  obtain r p where s: "retry pick b (cl_peers c k) = (r, p)" by fastforce
  from Some kb s assms(1) have "cl_peers c' = (cl_peers c)(k := p)" "ms = (if r = SendOk then cl_batch c else [])"
    by (cases r; auto simp: flush_resume_def spool_batch_def)+
  then show ?thesis
    using s assms(2) Some kb
    by (intro queues_set_peer [of c' c k p])
      (auto simp: queues_def batch_content_def live_def waits_with_batch_def retry_def enqueue_def split: if_splits)
qed

lemma replay_queues:
  assumes "sp_ok (cl_spool c)" and "flushSpool pick now k c = (c', ms, evs)"
  shows "queues c' k = queues c k @ map batch_content (replays ms)"
proof -
  obtain ns sp where d: "Drain (cl_spool c) = (ns, sp)"
    by (cases "Drain (cl_spool c)")
  obtain e s2 rest p where f: "flush_chunks pick now ns (cl_peers c k) = (e, s2, rest, p)"
    by (cases "flush_chunks pick now ns (cl_peers c k)")
  have "(ns = [] \<and> ms = [] \<and> cl_peers c' k = cl_peers c k) \<or> (ms = s2 \<and> cl_peers c' k = p)"
    using assms(2) d f by (cases e) (auto simp: flushSpool_def Let_def split: if_splits)
  with flush_chunks_effect [OF f] show ?thesis
    by (auto simp: queues_def replays_def replay_content_def batch_content_def comp_def)
qed

end
