(* ===== verification/TelemetryPath.thy ===== *)
theory TelemetryPath
  imports ClientRun Hub "HOL-Library.Sublist"
begin

text \<open>
  The path of telemetry from the probes to the controller: the client's histories (\<open>ClientRun\<close>) and
  the hub's watermark (\<open>Hub\<close>) together.  Which numbers the hub reports as missed, compared with what
  was really lost on the way.
\<close>

subsection \<open>The hub over a sequence of batches\<close>

fun hub_batches :: "string \<Rightarrow> telemetry_batch list \<Rightarrow> hub \<Rightarrow> hub \<times> hub_out list" where
  "hub_batches agent [] h = (h, [])"
| "hub_batches agent (b # bs) h =
     (case handleTelemetry agent b h of (h1, out) \<Rightarrow>
        case hub_batches agent bs h1 of (h2, out2) \<Rightarrow> (h2, out @ out2))"

lemma gap_scan_increasing:
  "sorted_wrt (<) (wm # ss) \<Longrightarrow> snd (gap_scan r ss wm) = last (wm # ss)"
  by (induction ss arbitrary: wm) (auto simp: Let_def split_beta)

lemma increasing_last: "sorted_wrt (<) (xs :: 'a :: order list) \<Longrightarrow> x \<in> set xs \<Longrightarrow> x \<le> last xs"
  by (induction xs) (auto simp: less_imp_le)

lemma gap_scan_first: "s \<noteq> 0 \<Longrightarrow> gap_scan r (s # ss) 0 = gap_scan r ss s"
  by (simp add: Let_def split: prod.splits)

lemma log_events_append [simp]: "log_events (xs @ ys) = log_events xs @ log_events ys"
  by (simp add: log_events_def)

text \<open>What a list of events reports: exactly the numbers in a set, each once.\<close>

definition reports :: "event list \<Rightarrow> nat set \<Rightarrow> bool" where
  "reports es N \<longleftrightarrow> (\<Union>e \<in> set es. reported_span e) = N \<and> (\<Sum>e \<leftarrow> es. reported_count e) = card N"

lemma reports_append:
  "reports xs M \<Longrightarrow> reports ys N \<Longrightarrow> M \<inter> N = {} \<Longrightarrow> finite M \<Longrightarrow> finite N \<Longrightarrow> reports (xs @ ys) (M \<union> N)"
  by (simp add: reports_def card_Un_disjoint)

text \<open>A live batch with increasing numbers above the watermark.\<close>

lemma batch_reports:
  assumes "agent \<noteq> ''''" and "tb_Metrics b \<noteq> []" and "\<not> tb_Replay b" and "watermark h agent \<noteq> 0"
    and "sorted_wrt (<) (watermark h agent # map m_Seq (tb_Metrics b))"
    and "handleTelemetry agent b h = (h', out)"
  shows "watermark h' agent = last (watermark h agent # map m_Seq (tb_Metrics b))"
    and "reports (log_events out)
       ({unat (watermark h agent)<..unat (watermark h' agent)} - (unat \<circ> m_Seq) ` set (tb_Metrics b))"
proof -
  let ?w = "watermark h agent" and ?ss = "map m_Seq (tb_Metrics b)"
  have pos: "\<forall>s \<in> set ?ss. s \<noteq> 0"
    using assms(5) by auto
  then have seqs: "batch_seqs b = ?ss"
    by (auto simp: batch_seqs_def filter_map comp_def intro!: filter_True)
  have "sorted ?ss"
    using assms(5) strict_sorted_iff by auto
  then have sorted: "sort ?ss = ?ss" "sorted ?ss"
    by (simp_all add: sorted_sort_id)
  obtain gaps wm' where g: "gap_scan False ?ss ?w = (gaps, wm')"
    by (cases "gap_scan False ?ss ?w")
  have h': "h' = h\<lparr>hb_lastSeq := (hb_lastSeq h)(agent \<mapsto> wm')\<rparr>" "log_events out = map (gap_event agent) gaps"
    using assms g seqs sorted by (auto simp: handleTelemetry_def simp flip: comp_def)
  then show w': "watermark h' agent = last (?w # ?ss)"
    using gap_scan_increasing [OF assms(5), of False] g by simp
  show "reports (log_events out) ({unat ?w<..unat (watermark h' agent)} - (unat \<circ> m_Seq) ` set (tb_Metrics b))"
    using gap_scan_exact [OF sorted(2) assms(4) g] h'
    by (simp add: reports_def o_def image_image)
qed

lemma batches_report:
  "agent \<noteq> '''' \<Longrightarrow> \<forall>b \<in> set bs. tb_Metrics b \<noteq> [] \<and> \<not> tb_Replay b \<Longrightarrow> watermark h agent \<noteq> 0 \<Longrightarrow>
   sorted_wrt (<) (watermark h agent # map m_Seq (handed bs)) \<Longrightarrow> hub_batches agent bs h = (h', out) \<Longrightarrow>
   watermark h' agent = last (watermark h agent # map m_Seq (handed bs)) \<and>
   reports (log_events out)
     ({unat (watermark h agent)<..unat (watermark h' agent)} - (unat \<circ> m_Seq) ` set (handed bs))"
proof (induction bs arbitrary: h out)
  case Nil
  then show ?case by (simp add: reports_def)
next
  case (Cons b bs)
  obtain h1 o1 o2 where s: "handleTelemetry agent b h = (h1, o1)" "hub_batches agent bs h1 = (h', o2)"
    "out = o1 @ o2"
    using Cons.prems(5) by (auto split: prod.splits)
  let ?w = "watermark h agent" and ?w1 = "watermark h1 agent" and ?w2 = "watermark h' agent"
  let ?ms = "map m_Seq (tb_Metrics b)" and ?rest = "map m_Seq (handed bs)"
  have srt: "sorted_wrt (<) (?w # ?ms)" "sorted_wrt (<) ?rest"
    "\<forall>x \<in> set (?w # ?ms). \<forall>y \<in> set ?rest. x < y"
    using Cons.prems(4) by (auto simp: sorted_wrt_append)
  have b: "tb_Metrics b \<noteq> []" "\<not> tb_Replay b"
    using Cons.prems(2) by simp_all
  note one = batch_reports [OF Cons.prems(1) b Cons.prems(3) srt(1) s(1)]
  have w1: "?w1 = last (?w # ?ms)" "?w1 \<in> set ?ms" "?w1 \<in> set (?w # ?ms)"
    using one(1) b(1) last_in_set [of ?ms] by simp_all
  have above: "\<forall>y \<in> set ?rest. ?w1 < y"
    using srt(3) w1(3) by blast
  then have srt2: "sorted_wrt (<) (?w1 # ?rest)"
    using srt(2) by simp
  have "?w < ?w1"
    using srt(1) w1(2) by auto
  then have "?w1 \<noteq> 0" by (metis word_not_simps(1))
  then have two: "?w2 = last (?w1 # ?rest)"
      "reports (log_events o2) ({unat ?w1<..unat ?w2} - (unat \<circ> m_Seq) ` set (handed bs))"
    using Cons.IH [OF Cons.prems(1) _ _ srt2 s(2)] Cons.prems(2) by auto
  have le: "?w \<le> ?w1" "?w1 \<le> ?w2" "\<forall>x \<in> set ?ms. x \<le> ?w1"
    using increasing_last [OF srt(1)] increasing_last [OF srt2] w1(1) two(1) by auto
  let ?S = "(unat \<circ> m_Seq) ` set (tb_Metrics b)" and ?R = "(unat \<circ> m_Seq) ` set (handed bs)"
  have "\<forall>n \<in> ?S. n \<le> unat ?w1" "\<forall>n \<in> ?R. unat ?w1 < n" "unat ?w \<le> unat ?w1" "unat ?w1 \<le> unat ?w2"
    using le above by (auto simp: word_le_nat_alt word_less_nat_alt)
  then have "{unat ?w<..unat ?w2} - (?S \<union> ?R) =
      ({unat ?w<..unat ?w1} - ?S) \<union> ({unat ?w1<..unat ?w2} - ?R)"
    by fastforce
  moreover have "reports (log_events out) (({unat ?w<..unat ?w1} - ?S) \<union> ({unat ?w1<..unat ?w2} - ?R))"
    unfolding s(3) log_events_append by (intro reports_append one(2) two(2)) auto
  ultimately have "reports (log_events out) ({unat ?w<..unat ?w2} - (unat \<circ> m_Seq) ` set (handed (b # bs)))"
    by (simp add: image_Un)
  moreover have "?w2 = last (?w # map m_Seq (handed (b # bs)))"
    using two(1) w1(1) b(1) by (simp add: last_append)
  ultimately show ?case by blast
qed

text \<open>The first batch of an agent, with the numbers from 1 on.\<close>

lemma gap_scan_consecutive:
  "map unat ss = [Suc (unat wm)..<n] \<Longrightarrow> gap_scan r ss wm = ([], last (wm # ss))"
proof (induction ss arbitrary: wm)
  case (Cons s ss)
  from Cons.prems have s: "unat s = Suc (unat wm)" "map unat ss = [Suc (unat s)..<n]"
    by (auto simp: upt_rec [of "Suc (unat wm)"] split: if_splits)
  then have lt: "wm < s" by (simp add: word_less_nat_alt)
  with Cons.IH [OF s(2)] s(1) word_gap [OF lt] show ?case
    by (simp add: Let_def less_le_not_le)
qed simp

lemma increasing_unat: "map unat ss = [a..<b] \<Longrightarrow> sorted_wrt (<) (ss :: u64 list)"
  using sorted_wrt_map [of "(<)" unat ss] by (simp add: word_less_nat_alt [abs_def])

lemma first_batch:
  assumes "agent \<noteq> ''''" and "tb_Metrics b \<noteq> []" and "watermark h agent = 0"
    and "map (unat \<circ> m_Seq) (tb_Metrics b) = [1..<n]" and "handleTelemetry agent b h = (h', out)"
  shows "watermark h' agent = m_Seq (last (tb_Metrics b)) \<and> log_events out = []"
proof -
  let ?ss = "map m_Seq (tb_Metrics b)"
  have nums: "map unat ?ss = [Suc (unat (0 :: u64))..<n]"
    using assms(4) by simp
  then have "0 \<notin> unat ` set ?ss"
    by (metis atLeastLessThan_iff list.set_map not_less_eq_eq set_upt zero_le)
  then have "\<forall>s \<in> set ?ss. s \<noteq> 0"
    by (metis imageI unsigned_0)
  then have seqs: "batch_seqs b = ?ss"
    unfolding batch_seqs_def by (rule filter_True)
  have "sort ?ss = ?ss"
    using increasing_unat [OF nums] strict_sorted_iff by (blast intro: sorted_sort_id)
  then have "gap_scan (tb_Replay b) (sort (batch_seqs b)) (watermark h agent) = ([], last (0 # ?ss))"
    using gap_scan_consecutive [OF nums] seqs assms(3) by simp
  with assms(1,2,5) show ?thesis
    by (auto simp: handleTelemetry_def last_map)
qed

subsection \<open>What is reported is what was lost\<close>

text \<open>In a calm history the batches carry the first numbers in order.\<close>

lemma calm_numbers:
  assumes "client_run (NewClient agentID hostname version masterAddr token port (sp_New cap)) subs offs sents c"
    and "length subs < 2 ^ 64" and "prefix offs subs" and "calm sents c"
  shows "map (unat \<circ> m_Seq) (handed sents) = [1..<Suc (length (handed sents))]"
    and "\<forall>b \<in> set sents. tb_Metrics b \<noteq> [] \<and> \<not> tb_Replay b"
proof -
  have "in_order_of offs sents c"
    using client_run_in_order [OF assms(1)] new_client_in_order by blast
  then have o: "prefix (handed sents) offs" "\<forall>b \<in> set sents. tb_Metrics b \<noteq> []"
    using assms(4) by (simp_all add: in_order_of_def)
  then obtain zs where subs: "subs = handed sents @ zs"
    using assms(3) prefix_order.trans by (blast elim: prefixE)
  have "in_sequence subs c"
    using client_run_ledger [OF assms(1)] new_client_ledger by (simp add: run_ledger_def)
  from in_sequence_numbers [OF this assms(2)]
  have "map (unat \<circ> m_Seq) subs = [1..<Suc (length subs)]"
    by (simp add: o_def)
  then have "take (length (handed sents)) (map (unat \<circ> m_Seq) subs) = take (length (handed sents)) [1..<Suc (length subs)]"
    by simp
  then show "map (unat \<circ> m_Seq) (handed sents) = [1..<Suc (length (handed sents))]"
    using subs by (simp add: take_upt del: upt_Suc)
  show "\<forall>b \<in> set sents. tb_Metrics b \<noteq> [] \<and> \<not> tb_Replay b"
    using o(2) assms(4) by (simp add: calm_def)
qed

lemma subseq_handed: "subseq rs ss \<Longrightarrow> subseq (handed rs) (handed ss)"
  by (induction rule: list_emb.induct) (auto intro: list_emb_append_mono subseq_drop_many)

lemma increasing_subseq: "subseq xs ys \<Longrightarrow> sorted_wrt (<) ys \<Longrightarrow> sorted_wrt (<) (xs :: 'a :: order list)"
  by (induction rule: list_emb.induct) (auto dest: list_emb_set)

text \<open>The numbers of the batches that did not arrive.\<close>

definition lost_upto :: "u64 \<Rightarrow> telemetry_batch list \<Rightarrow> telemetry_batch list \<Rightarrow> metric set" where
  "lost_upto w sents recv = {m \<in> set (handed sents) - set (handed recv). m_Seq m \<le> w}"

lemma lost_numbers:
  assumes nums: "map (unat \<circ> m_Seq) (handed sents) = [1..<Suc n]" and "subseq recv sents"
    and "wm = m_Seq (last (handed recv))" and "handed recv \<noteq> []"
  shows "(unat \<circ> m_Seq) ` lost_upto wm sents recv =
      {1..unat wm} - (unat \<circ> m_Seq) ` set (handed recv)"
    and "card (lost_upto wm sents recv) = card ({1..unat wm} - (unat \<circ> m_Seq) ` set (handed recv))"
proof -
  let ?f = "unat \<circ> m_Seq"
  have sub: "set (handed recv) \<subseteq> set (handed sents)"
    using subseq_handed [OF assms(2)] by (auto elim: list_emb_set)
  have inj: "inj_on ?f (set (handed sents))"
    using nums by (metis distinct_map distinct_upt)
  have all: "?f ` set (handed sents) = {1..n}"
    using nums by (metis list.set_map set_upt atLeastLessThanSuc_atLeastAtMost)
  have "wm \<in> m_Seq ` set (handed sents)"
    using assms(3,4) sub last_in_set by blast
  then have "unat wm \<in> ?f ` set (handed sents)"
    by auto
  then have le: "unat wm \<le> n"
    using all by auto
  have "?f ` lost_upto wm sents recv = (?f ` (set (handed sents) - set (handed recv))) \<inter> {..unat wm}"
    by (auto simp: lost_upto_def word_le_nat_alt)
  also have "\<dots> = ({1..n} - ?f ` set (handed recv)) \<inter> {..unat wm}"
    using inj_on_image_set_diff [OF inj _ sub] all by simp
  also have "\<dots> = {1..unat wm} - ?f ` set (handed recv)"
    using le by auto
  finally show im: "?f ` lost_upto wm sents recv = {1..unat wm} - ?f ` set (handed recv)" .
  have "inj_on ?f (lost_upto wm sents recv)"
    by (rule inj_on_subset [OF inj]) (auto simp: lost_upto_def)
  from card_image [OF this] show "card (lost_upto wm sents recv) =
      card ({1..unat wm} - ?f ` set (handed recv))"
    unfolding im by simp
qed

text \<open>
  C3: What is lost on the way is reported, and nothing else.  Take a history of the agent's client with fewer
  than \<open>2 ^ 64\<close> metrics in which no goroutine was overtaken between taking a number and offering its
  metric and nothing went through the spool.  However many of the batches it handed to connections
  then get lost, as long as the first one arrives, at a hub that had none of this agent before: the PACKET\_SEQUENCE\_MISSED events the controller emits name exactly the
  numbers of the metrics in lost batches that precede the last one it received, and the counts in them add up
  to how many these are.
\<close>

theorem loss_report_exact:
  assumes "client_run (NewClient agentID hostname version masterAddr token port (sp_New cap)) subs offs sents c"
    and "length subs < 2 ^ 64" and "prefix offs subs" and "calm sents c"
    and "subseq recv sents" and "recv \<noteq> []" and "hd recv = hd sents"
    and "agent \<noteq> ''''" and "watermark h agent = 0" and "hub_batches agent recv h = (h', out)"
  shows "watermark h' agent = m_Seq (last (handed recv)) \<and>
     (\<Union>e \<in> set (log_events out). reported_span e) =
       (\<lambda>m. unat (m_Seq m)) ` lost_upto (watermark h' agent) sents recv \<and>
     (\<Sum>e \<leftarrow> log_events out. reported_count e) = card (lost_upto (watermark h' agent) sents recv)"
proof -
  note nums = calm_numbers(1) [OF assms(1-4)] and live = calm_numbers(2) [OF assms(1-4)]
  obtain b rs where recv: "recv = b # rs"
    using assms(6) by (cases recv) auto
  then obtain ss where sents: "sents = b # ss"
    using assms(5,7) by (cases sents) auto
  have rs: "subseq rs ss"
    using assms(5) recv sents by simp
  have b: "tb_Metrics b \<noteq> []" and rlive: "\<forall>b \<in> set rs. tb_Metrics b \<noteq> [] \<and> \<not> tb_Replay b"
    using live sents list_emb_set [OF rs] by auto
  obtain h1 o1 o2 where s: "handleTelemetry agent b h = (h1, o1)" "hub_batches agent rs h1 = (h', o2)"
    "out = o1 @ o2"
    using assms(10) recv by (auto split: prod.splits)
  let ?n = "length (handed sents)" and ?k = "length (tb_Metrics b)" and ?f = "unat \<circ> m_Seq"
  have "take ?k (map ?f (handed sents)) = take ?k [1..<Suc ?n]"
    using nums by simp
  then have first: "map ?f (tb_Metrics b) = [1..<Suc ?k]"
    using sents by (simp add: take_upt del: upt_Suc)
  from first_batch [OF assms(8) b assms(9) first s(1)]
  have w1: "watermark h1 agent = m_Seq (last (tb_Metrics b))" "log_events o1 = []"
    by simp_all
  have k: "unat (watermark h1 agent) = ?k"
    using arg_cong [OF first, of last] b w1(1) by (auto simp: last_map Suc_le_eq simp del: upt_Suc)
  have "subseq (map m_Seq (handed recv)) (map m_Seq (handed sents))"
    using subseq_handed [OF assms(5)] by (rule subseq_map)
  then have "sorted_wrt (<) (map m_Seq (handed recv))"
    using increasing_unat [of "map m_Seq (handed sents)" 1 "Suc ?n"] nums
    by (metis increasing_subseq map_map)
  then have srt: "sorted_wrt (<) (watermark h1 agent # map m_Seq (handed rs))"
    using recv b w1(1) by (auto simp: sorted_wrt_append)
  have nz: "watermark h1 agent \<noteq> 0"
    using k b by (metis length_0_conv unsigned_0)
  note two = batches_report [OF assms(8) rlive nz srt s(2)]
  have w: "watermark h' agent = m_Seq (last (handed recv))"
    using two w1(1) b recv by (simp add: last_map last_append)
  have "?k \<le> unat (watermark h' agent)"
    using two k increasing_last [OF srt, of "watermark h1 agent"] by (simp add: word_le_nat_alt)
  moreover have "?f ` set (tb_Metrics b) = {1..?k}"
    using first by (metis list.set_map set_upt atLeastLessThanSuc_atLeastAtMost)
  ultimately have N: "{1..unat (watermark h' agent)} - ?f ` set (handed recv) =
      {unat (watermark h1 agent)<..unat (watermark h' agent)} - ?f ` set (handed rs)"
    using recv k by (auto simp: image_Un)
  have ne: "handed recv \<noteq> []"
    using recv b by simp
  show ?thesis
    using two w w1(2) s(3) lost_numbers [OF nums assms(5) w ne] unfolding N reports_def
    by (simp add: o_def)
qed

subsection \<open>Two ways the report is wrong\<close>

lemma Send_wire:
  "Send pick now t v p = (r, p') \<Longrightarrow> pe_writer p' = pe_writer p \<and> pe_wire p' = pe_wire p \<and>
     pe_reader p' = pe_reader p \<and> pe_pong p' = pe_pong p"
  by (auto simp: Send_def stamp_def Let_def enqueue_def split: if_splits)

lemma flush_chunks_writer:
  "snd (snd (snd (flush_chunks pick now ms p))) = p' \<Longrightarrow>
     pe_writer p' = pe_writer p \<and> pe_reader p' = pe_reader p \<and> pe_pong p' = pe_pong p"
proof (induction pick now ms p rule: flush_chunks.induct)
  case (1 pick now ms p)
  show ?case
  proof (cases "ms = []")
    case False
    obtain r p1 where s: "Send pick now TypeTelemetry
        (Some (enc_batch \<lparr>tb_Metrics = take maxBatch ms, tb_Replay = True\<rparr>)) p = (r, p1)"
      by fastforce
    with "1.IH" [OF False s [symmetric]] "1.prems" Send_wire [OF s] False show ?thesis
      by (cases r) (simp_all add: flush_chunks.simps [of _ _ ms] split_beta)
  qed (use "1.prems" in \<open>simp add: flush_chunks.simps [of _ _ "[]"]\<close>)
qed

lemma conn_open_writer:
  assumes "conn_open pick now addr c = (c', ms, evs)" and "cl_conn c' = Some (cl_next c)" and "cl_conn c = None"
  shows "pe_writer (cl_peers c' (cl_next c)) = NotStarted \<and> pe_reader (cl_peers c' (cl_next c)) = Running \<and>
    pe_pong (cl_peers c' (cl_next c)) = None"
proof -
  let ?s = "Send pick now TypeRegister (Some (enc_register (register_payload c))) (NewPeer (cl_agentID c))"
  obtain p where s: "?s = (SendOk, p)"
    using assms by (cases "fst ?s"; cases ?s) (auto simp: conn_open_def Let_def split: if_splits)
  let ?c = "(set_peer (cl_next c) p (c\<lparr>cl_next := Suc (cl_next c)\<rparr>))\<lparr>cl_conn := Some (cl_next c)\<rparr>"
  have f: "flushSpool pick now (cl_next c) ?c = (c', ms, evs)"
    using assms s by (auto simp: conn_open_def Let_def split: if_splits)
  obtain ns sp where d: "Drain (cl_spool c) = (ns, sp)" by fastforce
  obtain e s2 rest p2 where ch: "flush_chunks pick now ns p = (e, s2, rest, p2)"
    by (cases "flush_chunks pick now ns p")
  have "pe_writer p2 = pe_writer p \<and> pe_reader p2 = pe_reader p \<and> pe_pong p2 = pe_pong p"
    using flush_chunks_writer [of pick now ns p] ch by simp
  moreover have "cl_peers c' (cl_next c) = p \<or> cl_peers c' (cl_next c) = p2"
    using f d ch by (cases e) (auto simp: flushSpool_def Let_def split: if_splits)
  ultimately show ?thesis
    using Send_wire [OF s] by (auto simp: NewPeer_def)
qed

text \<open>A client at rest on an open connection, with room for \<open>q\<close> more frames.\<close>

definition at_rest :: "nat \<Rightarrow> nat \<Rightarrow> client \<Rightarrow> bool" where
  "at_rest k q c \<longleftrightarrow> cl_peer c = Some k \<and> cl_conn c = Some k \<and> cl_waiting c = None \<and> cl_batch c = [] \<and>
     ch_buf (cl_telemetryIn c) = [] \<and> 0 < ch_cap (cl_telemetryIn c) \<and> contents (cl_spool c) = [] \<and>
     sp_ok (cl_spool c) \<and> Cap (cl_spool c) \<le> 4 \<and>
     \<not> pe_done (cl_peers c k) \<and> length (pe_send (cl_peers c k)) + q \<le> sendBuffer \<and>
     pe_reader (cl_peers c k) = Running \<and> pe_pong (cl_peers c k) = None"

text \<open>A stamped metric is offered, taken by the loop, and handed over at the next tick.\<close>

lemma live_one:
  assumes "client_run c0 subs offs sents c" and "at_rest k (Suc q) c" and "m \<in># mset subs - mset offs"
  obtains c' where "client_run c0 subs (offs @ [m]) (sents @ live [m]) c'" and "at_rest k q c'"
    and "cl_telemetrySeq c' = cl_telemetrySeq c"
    and "queues c' k = queues c k @ [batch_content \<lparr>tb_Metrics = [m], tb_Replay = False\<rparr>]"
    and "pe_writer (cl_peers c' k) = pe_writer (cl_peers c k)" and "pe_wire (cl_peers c' k) = pe_wire (cl_peers c k)"
    and "\<forall>j. j \<noteq> k \<longrightarrow> cl_peers c' j = cl_peers c j" and "cl_next c' = cl_next c"
proof -
  note r = assms(2) [unfolded at_rest_def]
  let ?c1 = "submit_offer m c"
  let ?c2 = "?c1\<lparr>cl_telemetryIn := (cl_telemetryIn c)\<lparr>ch_buf := []\<rparr>, cl_batch := [m]\<rparr>"
  have c1: "?c1 = c\<lparr>cl_telemetryIn := (cl_telemetryIn c)\<lparr>ch_buf := [m]\<rparr>\<rparr>"
    using r by (simp add: submit_offer_def Let_def offer_def)
  have run1: "client_run c0 subs (offs @ [m]) sents ?c1"
    by (rule client_run.offer [OF assms(1,3)])
  have t: "loop_take False 0 ?c1 = (?c2, [], [])"
    using r by (simp add: c1 loop_take_def Let_def maxBatch_def)
  have run2: "client_run c0 subs (offs @ [m]) (sents @ live []) ?c2"
    by (rule client_run.take [OF run1 _ t]) (use r in \<open>simp add: c1\<close>)
  let ?b = "\<lparr>tb_Metrics = [m], tb_Replay = False\<rparr>"
  obtain p where s: "Send False 0 TypeTelemetry (Some (enc_batch ?b)) (cl_peers c k) = (SendOk, p)"
    using Send_room r by (metis Suc_le_lessD add_Suc_right le_add1 le_trans not_less_eq_eq less_le_trans lessI)
  let ?c3 = "(set_peer k p ?c2)\<lparr>cl_batch := []\<rparr>"
  have f: "flush False 0 ?c2 = (?c3, [m], [])"
    using r s by (simp add: c1 flush_def)
  have run3: "client_run c0 subs (offs @ [m]) ((sents @ live []) @ live [m]) ?c3"
    by (rule client_run.tick [OF run2 _ f]) (use r in \<open>simp add: c1\<close>)
  note eff = Send_effect [OF s]
  show thesis
  proof (rule that [of ?c3])
    show "client_run c0 subs (offs @ [m]) (sents @ live [m]) ?c3"
      using run3 by simp
    show "at_rest k q ?c3"
      using r eff Send_wire [OF s] by (simp add: c1 at_rest_def)
    show "cl_telemetrySeq ?c3 = cl_telemetrySeq c" "\<forall>j. j \<noteq> k \<longrightarrow> cl_peers ?c3 j = cl_peers c j"
      "cl_next ?c3 = cl_next c"
      by (simp_all add: c1)
    show "pe_writer (cl_peers ?c3 k) = pe_writer (cl_peers c k)" "pe_wire (cl_peers ?c3 k) = pe_wire (cl_peers c k)"
      using Send_wire [OF s] by simp_all
    show "queues ?c3 k = queues c k @ [batch_content ?b]"
      using eff by (simp add: queues_def batch_content_def)
  qed
qed

text \<open>Connecting to the master.\<close>

lemma connect_run:
  assumes "client_run c0 subs offs sents c" and "cl_conn c = None" and "cl_waiting c = None" and "cl_batch c = []"
    and "ch_buf (cl_telemetryIn c) = []" and "0 < ch_cap (cl_telemetryIn c)" and "sp_ok (cl_spool c)"
    and "Cap (cl_spool c) \<le> 4"
  obtains c' where "client_run c0 subs offs (sents @ replays (contents (cl_spool c))) c'"
    and "at_rest (cl_next c) 200 c'" and "cl_telemetrySeq c' = cl_telemetrySeq c"
    and "pe_writer (cl_peers c' (cl_next c)) = NotStarted" and "cl_next c' = Suc (cl_next c)"
    and "\<forall>j. j \<noteq> cl_next c \<longrightarrow> cl_peers c' j = cl_peers c j"
proof -
  let ?k = "cl_next c"
  obtain c1 sent evs where o: "conn_open False 0 (cl_masterAddr c) c = (c1, sent, evs)"
    by (cases "conn_open False 0 (cl_masterAddr c) c")
  have cap: "Cap (cl_spool c) \<le> 51000"
    using assms(8) by simp
  note w = conn_open_works [OF assms(7) cap o]
  have run1: "client_run c0 subs offs (sents @ replays sent) c1"
    by (rule client_run.dial [OF assms(1,2) o])
  let ?c2 = "c1\<lparr>cl_peer := cl_conn c1\<rparr>"
  have run2: "client_run c0 subs offs (sents @ replays sent) ?c2"
    by (rule client_run.expose [OF run1, of "''''" _ "snd (conn_expose '''' c1)"]) (simp_all add: w conn_expose_def)
  have wr: "pe_writer (cl_peers c1 ?k) = NotStarted" "pe_reader (cl_peers c1 ?k) = Running"
    "pe_pong (cl_peers c1 ?k) = None"
    using conn_open_writer [OF o _ assms(2)] w by simp_all
  have "length (chunks maxBatch (contents (cl_spool c))) \<le> 1"
    using ring.items_le [OF assms(7)] assms(8) by (intro length_chunks) (simp_all add: maxBatch_def)
  moreover have "length (map frame_content (pe_send (cl_peers c1 ?k))) =
      Suc (length (chunks maxBatch (contents (cl_spool c))))"
    by (simp add: w)
  ultimately have len: "length (pe_send (cl_peers c1 ?k)) \<le> 2" "1 \<le> length (pe_send (cl_peers c1 ?k))"
    by simp_all
  show thesis
    by (rule that [of ?c2]) (use run2 w wr len assms cap in \<open>simp_all add: at_rest_def sendBuffer_def\<close>)
qed

text \<open>The writer starts and writes out the queue.\<close>

lemma write_out_steps:
  "client_run c0 subs offs sents c \<Longrightarrow> at_rest k q c \<Longrightarrow> pe_writer (cl_peers c k) = Running \<Longrightarrow>
   \<exists>c'. client_run c0 subs offs sents c' \<and> at_rest k q c' \<and> queues c' k = [] \<and>
     map frame_content (pe_wire (cl_peers c' k)) = map frame_content (pe_wire (cl_peers c k)) @ queues c k \<and>
     cl_telemetrySeq c' = cl_telemetrySeq c \<and> cl_next c' = cl_next c \<and> pe_writer (cl_peers c' k) = Running"
proof (induction "pe_send (cl_peers c k)" arbitrary: c)
  case Nil
  then show ?case by (intro exI [of _ c]) (simp add: queues_def)
next
  case (Cons b bs)
  let ?p = "write_next None (cl_peers c k)" and ?c = "set_peer k (write_next None (cl_peers c k)) c"
  have p: "?p = (cl_peers c k)\<lparr>pe_send := bs, pe_wire := pe_wire (cl_peers c k) @ [b],
      pe_framesTx := pe_framesTx (cl_peers c k) + 1, pe_writer := Running\<rparr>"
    using Cons.hyps(2) by (simp add: write_next_def writeFrame_def write_result_def flip: Cons.hyps(2))
  have run: "client_run c0 subs offs sents ?c"
    by (rule client_run.pump [OF Cons.prems(1) pump_step.next_frame])
      (use Cons.prems in \<open>simp_all add: at_rest_def\<close>)
  have rest: "at_rest k q ?c" "bs = pe_send (cl_peers ?c k)" "pe_writer (cl_peers ?c k) = Running"
    using Cons.prems(2) by (auto simp: at_rest_def p simp flip: Cons.hyps(2))
  from Cons.hyps(1) [OF rest(2) run rest(1,3)] show ?case
    by (auto simp: p queues_def simp flip: Cons.hyps(2))
qed

lemma write_out:
  assumes "client_run c0 subs offs sents c" and "at_rest k q c" and "pe_writer (cl_peers c k) = NotStarted"
  obtains c' where "client_run c0 subs offs sents c'" and "at_rest k q c'" and "queues c' k = []"
    and "set (queues c k) \<subseteq> frame_content ` set (pe_wire (cl_peers c' k))"
    and "cl_telemetrySeq c' = cl_telemetrySeq c" and "cl_next c' = cl_next c"
    and "pe_writer (cl_peers c' k) = Running"
proof -
  let ?p = "write_ping 0 None (cl_peers c k)" and ?c = "set_peer k (write_ping 0 None (cl_peers c k)) c"
  have p: "pe_send ?p = pe_send (cl_peers c k)" "pe_writer ?p = Running" "pe_done ?p = pe_done (cl_peers c k)"
    "pe_reader ?p = pe_reader (cl_peers c k)" "pe_pong ?p = pe_pong (cl_peers c k)"
    by (simp_all add: write_ping_def sendPing_def pingFrame_def stamp_def Let_def writeFrame_def write_result_def)
  have run: "client_run c0 subs offs sents ?c"
    by (rule client_run.pump [OF assms(1) pump_step.start [OF assms(3)]])
      (use assms in \<open>simp_all add: at_rest_def\<close>)
  have rest: "at_rest k q ?c" "pe_writer (cl_peers ?c k) = Running" "queues ?c k = queues c k"
    using assms(2) p by (simp_all add: at_rest_def queues_def)
  obtain c' where c': "client_run c0 subs offs sents c'" "at_rest k q c'" "queues c' k = []"
    "map frame_content (pe_wire (cl_peers c' k)) = map frame_content (pe_wire (cl_peers ?c k)) @ queues ?c k"
    "cl_telemetrySeq c' = cl_telemetrySeq ?c" "cl_next c' = cl_next ?c" "pe_writer (cl_peers c' k) = Running"
    using write_out_steps [OF run rest(1,2)] by blast
  have "frame_content ` set (pe_wire (cl_peers c' k)) = set (map frame_content (pe_wire (cl_peers ?c k)) @ queues ?c k)"
    using c'(4) by (metis list.set_map)
  with c' rest(3) that show thesis by simp
qed

text \<open>Taking a number; and a metric that finds no connection.\<close>

lemma stamp_run:
  assumes "client_run c0 subs offs sents c"
  obtains m where "client_run c0 (subs @ [m]) offs sents (submit_stamp c)" and "m_Seq m = cl_telemetrySeq c + 1"
  using client_run.stamp [OF assms, of 0 zero_metric] that by (simp add: stamp_metric_def)

lemma at_rest_stamp [simp]: "at_rest k q (submit_stamp c) = at_rest k q c"
  by (simp add: at_rest_def submit_stamp_def)

lemma stamp_sel [simp]:
  "cl_telemetrySeq (submit_stamp c) = cl_telemetrySeq c + 1" "cl_peers (submit_stamp c) = cl_peers c"
  "cl_next (submit_stamp c) = cl_next c"
  by (simp_all add: submit_stamp_def)

lemma fresh_connected:
  obtains c where "client_run (NewClient a h v master tok port (sp_New 4)) [] [] [] c" and "at_rest 0 200 c"
    and "cl_telemetrySeq c = 0" and "pe_writer (cl_peers c 0) = NotStarted" and "cl_next c = 1"
proof -
  let ?start = "NewClient a h v master tok port (sp_New 4)"
  obtain c where "client_run ?start [] [] ([] @ replays (contents (cl_spool ?start))) c"
    "at_rest (cl_next ?start) 200 c" "cl_telemetrySeq c = cl_telemetrySeq ?start"
    "pe_writer (cl_peers c (cl_next ?start)) = NotStarted" "cl_next c = Suc (cl_next ?start)"
    by (rule connect_run [OF client_run.init, of ?start])
      (simp_all add: NewClient_def sp_ok_New Cap_New intakeBuffer_def)
  then show thesis
    by (intro that [of c]) (simp_all add: NewClient_def contents_New replays_def)
qed

lemma handle_one:
  assumes "agent \<noteq> ''''" and "m_Seq m \<noteq> 0"
  shows "handleTelemetry agent \<lparr>tb_Metrics = [m], tb_Replay = r\<rparr> h =
    (h\<lparr>hb_lastSeq := (hb_lastSeq h)(agent \<mapsto> max (watermark h agent) (m_Seq m))\<rparr>,
     OutTelemetry agent [m] r #
     (if \<not> r \<and> watermark h agent \<noteq> 0 \<and> watermark h agent < m_Seq m \<and> watermark h agent + 1 < m_Seq m
      then [OutEvent (gap_event agent (watermark h agent, m_Seq m, m_Seq m - watermark h agent - 1))] else []))"
  using assms by (auto simp: handleTelemetry_def batch_seqs_def Let_def max_def)

lemma watermark_new [simp]: "watermark (NewHub tok) a = 0"
  by (simp add: watermark_def NewHub_def)

text \<open>The end of an idle connection that was closed: the write pump sees \<open>done\<close> and closes the
  websocket, so that the read pump fails and \<open>Run\<close> returns.  What is in the queue stays there.\<close>

definition wound_up :: "peer \<Rightarrow> peer" where
  "wound_up p = read_error ''use of closed network connection'' (write_done (peer_Close p))"

lemma wound_up_sel:
  "pe_writer p = Running \<Longrightarrow> run_returned (wound_up p)"
  "pe_send (wound_up p) = pe_send p" "pe_wire (wound_up p) = pe_wire p"
  by (simp_all add: wound_up_def read_error_def reader_exit_def write_done_def peer_Close_def run_returned_def)

lemma wound_up_run:
  assumes "client_run c0 subs offs sents c" and "cl_peers c k = peer_Close p" and "pe_writer p = Running"
    and "pe_reader p = Running" and "pe_pong p = None" and "cl_waiting c = None"
  shows "client_run c0 subs offs sents (set_peer k (wound_up p) c)"
proof -
  let ?w = "write_done (peer_Close p)"
  have "pump_step (cl_peers c k) [] ?w" "pump_step ?w [] (wound_up p)"
    using assms(2-5) pump_step.writer_done [of "peer_Close p"] pump_step.read_fails [of ?w]
    by (simp_all add: wound_up_def peer_Close_def write_done_def)
  then have "client_run c0 subs offs sents (set_peer k (wound_up p) (set_peer k ?w c))"
    using assms(1,6) by (intro client_run.pump) simp_all
  then show ?thesis by simp
qed

text \<open>The operator changes the master: the connection is closed, ends, and its \<open>Run\<close> returns.\<close>

lemma master_changed:
  assumes "client_run c0 subs offs sents c" and "at_rest k q c" and "pe_writer (cl_peers c k) = Running"
  obtains c' where "client_run c0 subs offs sents c'"
    and "c' = c\<lparr>cl_masterAddr := cl_masterAddr c', cl_peer := None, cl_conn := None,
       cl_peers := (cl_peers c)(k := wound_up (cl_peers c k))\<rparr>"
proof -
  note r = assms(2) [unfolded at_rest_def]
  let ?c1 = "SetMaster ''n:1'' c"
  have c1: "?c1 = c\<lparr>cl_masterAddr := ''n:1'', cl_peers := (cl_peers c)(k := peer_Close (cl_peers c k))\<rparr>"
    using r by (simp add: SetMaster_def)
  let ?c2 = "set_peer k (wound_up (cl_peers c k)) ?c1"
  have run2: "client_run c0 subs offs sents ?c2"
    by (rule wound_up_run [OF client_run.master [OF assms(1)]]) (use r assms(3) in \<open>simp_all add: c1\<close>)
  have f: "conn_finished ?c2 = (?c2\<lparr>cl_peer := None, cl_conn := None\<rparr>, snd (conn_finished ?c2))"
    using r by (simp add: conn_finished_def c1)
  have "client_run c0 subs offs sents (?c2\<lparr>cl_peer := None, cl_conn := None\<rparr>)"
    by (rule client_run.finish [OF run2 _ _ f, of k]) (use r assms(3) in \<open>simp_all add: c1 wound_up_sel\<close>)
  then show thesis
    by (intro that [of "?c2\<lparr>cl_peer := None, cl_conn := None\<rparr>"]) (simp_all add: c1)
qed

lemma spool_one:
  assumes "client_run c0 subs offs sents c" and "m \<in># mset subs - mset offs"
    and "cl_peer c = None" and "cl_waiting c = None" and "cl_batch c = []" and "ch_buf (cl_telemetryIn c) = []"
    and "0 < ch_cap (cl_telemetryIn c)"
  obtains c' where "client_run c0 subs (offs @ [m]) sents c'"
    and "c' = c\<lparr>cl_spool := Push m (cl_spool c), cl_telemetryIn := cl_telemetryIn c', cl_batch := []\<rparr>"
    and "ch_buf (cl_telemetryIn c') = []" and "ch_cap (cl_telemetryIn c') = ch_cap (cl_telemetryIn c)"
proof -
  let ?c1 = "submit_offer m c"
  let ?c2 = "c\<lparr>cl_telemetryIn := (cl_telemetryIn c)\<lparr>ch_buf := []\<rparr>, cl_batch := [m]\<rparr>"
  let ?c3 = "spool_batch ?c2"
  have c1: "?c1 = c\<lparr>cl_telemetryIn := (cl_telemetryIn c)\<lparr>ch_buf := [m]\<rparr>\<rparr>"
    using assms by (simp add: submit_offer_def Let_def offer_def)
  have run1: "client_run c0 subs (offs @ [m]) sents ?c1"
    by (rule client_run.offer [OF assms(1,2)])
  have t: "loop_take False 0 ?c1 = (?c2, [], [])"
    using assms by (simp add: c1 loop_take_def Let_def maxBatch_def)
  have run2: "client_run c0 subs (offs @ [m]) (sents @ live []) ?c2"
    by (rule client_run.take [OF run1 _ t]) (use assms in \<open>simp add: c1\<close>)
  have "flush False 0 ?c2 = (?c3, [], snd (snd (flush False 0 ?c2)))"
    using assms(3) by (simp add: flush_def Let_def)
  from client_run.tick [OF run2 _ this] have "client_run c0 subs (offs @ [m]) ((sents @ live []) @ live []) ?c3"
    using assms(4) by simp
  then show thesis
    by (intro that [of ?c3]) (simp_all add: spool_batch_def)
qed

text \<open>A metric that is stamped, offered and sent before anything else happens.\<close>

lemma live_next:
  assumes "client_run c0 subs subs sents c" and "at_rest k q c" and "0 < q"
  obtains m c' where "client_run c0 (subs @ [m]) (subs @ [m]) (sents @ live [m]) c'" and "at_rest k (q - 1) c'"
    and "m_Seq m = cl_telemetrySeq c + 1" and "cl_telemetrySeq c' = cl_telemetrySeq c + 1"
    and "queues c' k = queues c k @ [batch_content \<lparr>tb_Metrics = [m], tb_Replay = False\<rparr>]"
    and "pe_writer (cl_peers c' k) = pe_writer (cl_peers c k)" and "pe_wire (cl_peers c' k) = pe_wire (cl_peers c k)"
    and "cl_next c' = cl_next c"
proof -
  obtain m where m: "client_run c0 (subs @ [m]) subs sents (submit_stamp c)" "m_Seq m = cl_telemetrySeq c + 1"
    by (rule stamp_run [OF assms(1)])
  have "at_rest k (Suc (q - 1)) (submit_stamp c)" "m \<in># mset (subs @ [m]) - mset subs"
    using assms(2,3) by simp_all
  then obtain c' where "client_run c0 (subs @ [m]) (subs @ [m]) (sents @ live [m]) c'" "at_rest k (q - 1) c'"
      "cl_telemetrySeq c' = cl_telemetrySeq (submit_stamp c)"
      "queues c' k = queues (submit_stamp c) k @ [batch_content \<lparr>tb_Metrics = [m], tb_Replay = False\<rparr>]"
      "pe_writer (cl_peers c' k) = pe_writer (cl_peers (submit_stamp c) k)"
      "pe_wire (cl_peers c' k) = pe_wire (cl_peers (submit_stamp c) k)" "cl_next c' = cl_next (submit_stamp c)"
    by (rule live_one [OF m(1)])
  then show thesis
    by (intro that [of m c']) (simp_all add: m(2) queues_def)
qed

text \<open>A metric stamped after the operator changed the master goes into the spool, and is replayed
  to the new master on the next connection.\<close>

lemma spooled_next:
  assumes "client_run c0 subs subs sents c" and "at_rest k q c" and "k < cl_next c"
    and "pe_writer (cl_peers c k) = Running"
  obtains m c' where "client_run c0 (subs @ [m]) (subs @ [m]) (sents @ replays [m]) c'"
    and "at_rest (cl_next c) 200 c'" and "m_Seq m = cl_telemetrySeq c + 1"
    and "cl_peers c' k = wound_up (cl_peers c k)"
proof -
  obtain c1 where c1: "client_run c0 subs subs sents c1"
    "c1 = c\<lparr>cl_masterAddr := cl_masterAddr c1, cl_peer := None, cl_conn := None,
       cl_peers := (cl_peers c)(k := wound_up (cl_peers c k))\<rparr>"
    by (rule master_changed [OF assms(1,2,4)])
  have sel1: "cl_peer c1 = None" "cl_conn c1 = None" "cl_telemetrySeq c1 = cl_telemetrySeq c"
    "cl_next c1 = cl_next c" "cl_peers c1 k = wound_up (cl_peers c k)" "cl_spool c1 = cl_spool c"
    "cl_batch c1 = []" "cl_waiting c1 = None" "cl_telemetryIn c1 = cl_telemetryIn c"
    using assms(2) by (subst c1(2); simp add: at_rest_def)+
  obtain m where m: "client_run c0 (subs @ [m]) subs sents (submit_stamp c1)" "m_Seq m = cl_telemetrySeq c1 + 1"
    by (rule stamp_run [OF c1(1)])
  have off: "m \<in># mset (subs @ [m]) - mset subs" "cl_peer (submit_stamp c1) = None"
    "cl_waiting (submit_stamp c1) = None" "cl_batch (submit_stamp c1) = []"
    "ch_buf (cl_telemetryIn (submit_stamp c1)) = []" "0 < ch_cap (cl_telemetryIn (submit_stamp c1))"
    using sel1 assms(2) by (simp_all add: submit_stamp_def at_rest_def)
  obtain c2 where c2: "client_run c0 (subs @ [m]) (subs @ [m]) sents c2"
    "c2 = (submit_stamp c1)\<lparr>cl_spool := Push m (cl_spool (submit_stamp c1)), cl_telemetryIn := cl_telemetryIn c2,
       cl_batch := []\<rparr>"
    "ch_buf (cl_telemetryIn c2) = []" "ch_cap (cl_telemetryIn c2) = ch_cap (cl_telemetryIn (submit_stamp c1))"
    by (rule spool_one [OF m(1) off])
  have sel2: "cl_conn c2 = None" "cl_waiting c2 = None" "cl_batch c2 = []" "cl_next c2 = cl_next c"
    "cl_spool c2 = Push m (cl_spool c)" "cl_peers c2 = cl_peers c1"
    by (subst c2(2); simp add: submit_stamp_def sel1)+
  have spool: "sp_ok (cl_spool c2)" "Cap (cl_spool c2) \<le> 4" "contents (cl_spool c2) = [m]"
    using assms(2) unfolding sel2 at_rest_def
    by (simp_all add: sp_ok_Push contents_Push push_bounded_def)
  obtain c3 where c3: "client_run c0 (subs @ [m]) (subs @ [m]) (sents @ replays (contents (cl_spool c2))) c3"
    "at_rest (cl_next c2) 200 c3" "\<forall>j. j \<noteq> cl_next c2 \<longrightarrow> cl_peers c3 j = cl_peers c2 j"
    by (rule connect_run [OF c2(1) sel2(1-3) c2(3) _ spool(1,2)]) (use c2(4) off(6) in auto)
  show thesis
    by (rule that [of m c3]) (use c3 sel1 sel2 spool m(2) assms(3) in simp_all)
qed

text \<open>
  C4: Racing submissions raise a false alarm.  The comment in the hub says that reordering across
  batches cannot happen.  But a goroutine can be overtaken between taking its number and offering the
  metric: there is a history in which every metric is handed to the one, open connection, the hub receives
  every batch in order, and yet it reports number 2 as missed.
\<close>

theorem racing_submitters_false_alarm:
  "\<exists>subs offs sents c h out. client_run (NewClient ''a'' ''h'' ''1'' ''m:1'' '''' 6000 (sp_New 4)) subs offs sents c \<and>
     calm sents c \<and> mset (handed sents) = mset subs \<and>
     hub_batches ''a'' sents (NewHub '''') = (h, out) \<and>
     map (\<lambda>e. (ev_Type e, reported_span e, reported_count e)) (log_events out) = [(PacketSequenceMissed, {2}, 1)]"
proof -
  let ?start = "NewClient ''a'' ''h'' ''1'' ''m:1'' '''' 6000 (sp_New 4)"
  obtain c where c: "client_run ?start [] [] [] c" "at_rest 0 200 c" "cl_telemetrySeq c = 0"
    by (rule fresh_connected)
  obtain m1 where m1: "client_run ?start ([] @ [m1]) [] [] (submit_stamp c)" "m_Seq m1 = 0 + 1"
    using stamp_run [OF c(1)] c(3) by metis
  obtain m2 where m2: "client_run ?start (([] @ [m1]) @ [m2]) [] [] (submit_stamp (submit_stamp c))" "m_Seq m2 = 1 + 1"
    using stamp_run [OF m1(1)] c(3) by (metis add_0 stamp_sel(1))
  obtain m3 where m3: "client_run ?start ((([] @ [m1]) @ [m2]) @ [m3]) [] [] (submit_stamp (submit_stamp (submit_stamp c)))"
      "m_Seq m3 = 1 + 1 + 1"
    using stamp_run [OF m2(1)] c(3) by (metis add_0 stamp_sel(1))
  have r: "at_rest 0 (Suc 199) (submit_stamp (submit_stamp (submit_stamp c)))"
    using c(2) by simp
  obtain c1 where c1: "client_run ?start [m1, m2, m3] [m1] (live [m1]) c1" "at_rest 0 (Suc 198) c1"
    using live_one [OF m3(1) r, of m1] by (auto simp: numeral_eq_Suc)
  have "m3 \<in># mset [m1, m2, m3] - mset [m1]" by simp
  from live_one [OF c1 this] obtain c2 where
    c2: "client_run ?start [m1, m2, m3] [m1, m3] (live [m1] @ live [m3]) c2" "at_rest 0 (Suc 197) c2"
    by (auto simp: numeral_eq_Suc)
  have "m2 \<in># mset [m1, m2, m3] - mset [m1, m3]" by simp
  from live_one [OF c2 this] obtain c3 where
    c3: "client_run ?start [m1, m2, m3] [m1, m3, m2] (live [m1] @ live [m3] @ live [m2]) c3" "at_rest 0 197 c3"
    by auto
  let ?sents = "live [m1] @ live [m3] @ live [m2]"
  obtain h out where ho: "hub_batches ''a'' ?sents (NewHub '''') = (h, out)"
    by fastforce
  have "log_events out = [gap_event ''a'' (1, 3, 1)]"
    using ho m1(2) m2(2) m3(2)
    by (auto simp: live_def handle_one)
  then have "map (\<lambda>e. (ev_Type e, reported_span e, reported_count e)) (log_events out) =
      [(PacketSequenceMissed, {1<..<3}, 1)]"
    by (simp add: gap_span_def) (simp add: gap_event_def event0_def)
  moreover have "{1<..<3} = {2 :: nat}" by auto
  ultimately have ev: "map (\<lambda>e. (ev_Type e, reported_span e, reported_count e)) (log_events out) =
      [(PacketSequenceMissed, {2}, 1)]"
    by (simp only:)
  have "calm ?sents c3" "mset (handed ?sents) = mset [m1, m2, m3]"
    using c3(2) by (simp_all add: calm_def at_rest_def live_def)
  with c3(1) ho ev show ?thesis
    by (intro exI [of _ "[m1, m2, m3]"] exI [of _ "[m1, m3, m2]"] exI [of _ ?sents] exI [of _ c3]
        exI [of _ h] exI [of _ out] conjI)
qed

lemma replays_one: "replays [m] = [\<lparr>tb_Metrics = [m], tb_Replay = True\<rparr>]"
  by (simp add: replays_def chunks.simps [of _ "[m]"] maxBatch_def)

text \<open>
  C5: A reconnect can hide a loss.  A batch handed to a connection but not yet written when the operator
  changes the master is lost: the write pump leaves its queue as it is when it sees the closed peer, both
  pumps end, \<open>Run\<close> returns, and the batch is still in the queue of that connection.  If a later metric
  was spooled in between, the replay after the reconnect moves the hub's watermark over the gap
  without a report: number 2 never arrives and nobody is told.
\<close>

theorem replay_masks_loss:
  "\<exists>subs sents c m1 m2 m3 h out. client_run (NewClient ''a'' ''h'' ''1'' ''m:1'' '''' 6000 (sp_New 4)) subs subs sents c \<and>
     subs = [m1, m2, m3] \<and> sents = live [m1] @ live [m2] @ replays [m3] \<and>
     run_returned (cl_peers c 0) \<and> queues c 0 = map batch_content (live [m2]) \<and>
     set (map batch_content (live [m1])) \<subseteq> frame_content ` set (pe_wire (cl_peers c 0)) \<and> held c = [] \<and>
     hub_batches ''a'' (live [m1] @ replays [m3]) (NewHub '''') = (h, out) \<and>
     log_events out = [] \<and> m_Seq m2 = 2 \<and> watermark h ''a'' = 3"
proof -
  let ?start = "NewClient ''a'' ''h'' ''1'' ''m:1'' '''' 6000 (sp_New 4)"
  obtain c where c: "client_run ?start [] [] [] c" "at_rest 0 200 c" "cl_telemetrySeq c = 0"
    "pe_writer (cl_peers c 0) = NotStarted" "cl_next c = 1"
    by (rule fresh_connected)
  obtain m1 c1 where
    c1: "client_run ?start ([] @ [m1]) ([] @ [m1]) ([] @ live [m1]) c1" "at_rest 0 (200 - 1) c1"
      "m_Seq m1 = cl_telemetrySeq c + 1" "cl_telemetrySeq c1 = cl_telemetrySeq c + 1"
      "queues c1 0 = queues c 0 @ [batch_content \<lparr>tb_Metrics = [m1], tb_Replay = False\<rparr>]"
      "pe_writer (cl_peers c1 0) = pe_writer (cl_peers c 0)" "cl_next c1 = cl_next c"
    by (rule live_next [OF c(1,2)]) simp
  have "pe_writer (cl_peers c1 0) = NotStarted"
    using c1(6) c(4) by simp
  then obtain c2 where
    c2: "client_run ?start ([] @ [m1]) ([] @ [m1]) ([] @ live [m1]) c2" "at_rest 0 (200 - 1) c2" "queues c2 0 = []"
      "set (queues c1 0) \<subseteq> frame_content ` set (pe_wire (cl_peers c2 0))"
      "cl_telemetrySeq c2 = cl_telemetrySeq c1" "cl_next c2 = cl_next c1" "pe_writer (cl_peers c2 0) = Running"
    by (rule write_out [OF c1(1,2)])
  let ?ms = "\<lambda>m2. ([] @ [m1]) @ [m2]"
  obtain m2 c3 where
    c3: "client_run ?start (?ms m2) (?ms m2) (([] @ live [m1]) @ live [m2]) c3" "at_rest 0 (200 - 1 - 1) c3"
      "m_Seq m2 = cl_telemetrySeq c2 + 1" "cl_telemetrySeq c3 = cl_telemetrySeq c2 + 1"
      "queues c3 0 = queues c2 0 @ [batch_content \<lparr>tb_Metrics = [m2], tb_Replay = False\<rparr>]"
      "pe_wire (cl_peers c3 0) = pe_wire (cl_peers c2 0)" "cl_next c3 = cl_next c2"
      "pe_writer (cl_peers c3 0) = pe_writer (cl_peers c2 0)"
    by (rule live_next [OF c2(1,2)]) simp
  have next3: "0 < cl_next c3" "pe_writer (cl_peers c3 0) = Running"
    using c3(7,8) c2(6,7) c1(7) c(5) by simp_all
  obtain m3 c6 where c6: "client_run ?start (?ms m2 @ [m3]) (?ms m2 @ [m3]) ((([] @ live [m1]) @ live [m2]) @ replays [m3]) c6"
    "at_rest (cl_next c3) 200 c6" "m_Seq m3 = cl_telemetrySeq c3 + 1" "cl_peers c6 0 = wound_up (cl_peers c3 0)"
    by (rule spooled_next [OF c3(1,2) next3])
  have seqs: "m_Seq m1 = 1" "m_Seq m2 = 2" "m_Seq m3 = 3"
    using c1(3,4) c2(5) c3(3,4) c6(3) c(3) by simp_all
  obtain h out where ho: "hub_batches ''a'' (live [m1] @ replays [m3]) (NewHub '''') = (h, out)"
    by fastforce
  then have hub: "log_events out = [] \<and> watermark h ''a'' = 3"
    using seqs by (auto simp: live_def replays_one handle_one)
  have "batch_content \<lparr>tb_Metrics = [m1], tb_Replay = False\<rparr> \<in> set (queues c1 0)"
    by (simp add: c1(5))
  then have w1: "set (map batch_content (live [m1])) \<subseteq> frame_content ` set (pe_wire (cl_peers c2 0))"
    by (simp add: live_def subsetD [OF c2(4)])
  have dead: "run_returned (cl_peers c6 0)" "queues c6 0 = map batch_content (live [m2])"
    "set (map batch_content (live [m1])) \<subseteq> frame_content ` set (pe_wire (cl_peers c6 0))" "held c6 = []"
    using c3(5,6) c2(3) w1 c6(2,4) next3(2)
    by (simp_all add: wound_up_sel queues_def live_def held_def at_rest_def)
  show ?thesis
    using c6(1) dead ho hub seqs(2)
    by (intro exI [of _ "[m1, m2, m3]"] exI [of _ "live [m1] @ live [m2] @ replays [m3]"] exI [of _ c6] exI [of _ m1]
        exI [of _ m2] exI [of _ m3] exI [of _ h] exI [of _ out]) simp
qed

text \<open>Three batches of one metric each, the second of which does not arrive.\<close>

theorem loss_report_exact_witness:
  "\<exists>c m1 m2 m3 h out. client_run (NewClient ''a'' ''h'' ''1'' ''m:1'' '''' 6000 (sp_New 4))
       [m1, m2, m3] [m1, m2, m3] (live [m1] @ live [m2] @ live [m3]) c \<and>
     hub_batches ''a'' (live [m1] @ live [m3]) (NewHub '''') = (h, out) \<and>
     (\<Sum>e \<leftarrow> log_events out. reported_count e) = 1 \<and> (\<Union>e \<in> set (log_events out). reported_span e) = {2}"
proof -
  let ?start = "NewClient ''a'' ''h'' ''1'' ''m:1'' '''' 6000 (sp_New 4)"
  obtain c where c: "client_run ?start [] [] [] c" "at_rest 0 200 c" "cl_telemetrySeq c = 0"
    by (rule fresh_connected)
  obtain m1 c1 where c1: "client_run ?start ([] @ [m1]) ([] @ [m1]) ([] @ live [m1]) c1" "at_rest 0 (200 - 1) c1"
      "m_Seq m1 = cl_telemetrySeq c + 1" "cl_telemetrySeq c1 = cl_telemetrySeq c + 1"
    by (rule live_next [OF c(1,2)]) simp
  obtain m2 c2 where c2: "client_run ?start (([] @ [m1]) @ [m2]) (([] @ [m1]) @ [m2])
      (([] @ live [m1]) @ live [m2]) c2" "at_rest 0 (200 - 1 - 1) c2"
      "m_Seq m2 = cl_telemetrySeq c1 + 1" "cl_telemetrySeq c2 = cl_telemetrySeq c1 + 1"
    by (rule live_next [OF c1(1,2)]) simp
  obtain m3 c3' where c3': "client_run ?start ((([] @ [m1]) @ [m2]) @ [m3]) ((([] @ [m1]) @ [m2]) @ [m3])
      ((([] @ live [m1]) @ live [m2]) @ live [m3]) c3'" "at_rest 0 (200 - 1 - 1 - 1) c3'"
      "m_Seq m3 = cl_telemetrySeq c2 + 1"
    by (rule live_next [OF c2(1,2)]) simp
  have c3: "client_run ?start [m1, m2, m3] [m1, m2, m3] (live [m1] @ live [m2] @ live [m3]) c3'"
    using c3'(1) by simp
  have seqs: "m_Seq m1 = 1" "m_Seq m2 = 2" "m_Seq m3 = 3"
    using c(3) c1(3,4) c2(3,4) c3'(3) by simp_all
  let ?sents = "live [m1] @ live [m2] @ live [m3]" and ?recv = "live [m1] @ live [m3]"
  obtain h out where ho: "hub_batches ''a'' ?recv (NewHub '''') = (h, out)"
    by fastforce
  have sub: "subseq ?recv ?sents" "?recv \<noteq> []" "hd ?recv = hd ?sents" "calm ?sents c3'"
    using c3'(2) by (simp_all add: live_def calm_def at_rest_def)
  have ne: "m1 \<noteq> m2" "m3 \<noteq> m2"
    using seqs by auto
  have R: "watermark h ''a'' = m_Seq m3 \<and>
     (\<Union>e \<in> set (log_events out). reported_span e) = (\<lambda>m. unat (m_Seq m)) ` lost_upto (watermark h ''a'') ?sents ?recv \<and>
     (\<Sum>e \<leftarrow> log_events out. reported_count e) = card (lost_upto (watermark h ''a'') ?sents ?recv)"
    using loss_report_exact [OF c3 _ _ sub(4,1-3) _ _ ho] by simp
  moreover have "lost_upto (m_Seq m3) ?sents ?recv = {m2}"
    using ne seqs by (auto simp: lost_upto_def)
  ultimately have "(\<Sum>e \<leftarrow> log_events out. reported_count e) = 1"
    "(\<Union>e \<in> set (log_events out). reported_span e) = {2}"
    using seqs by simp_all
  with c3 ho show ?thesis by blast
qed

end
