(* ===== verification/GridPath.thy ===== *)
theory GridPath
  imports EndToEnd TelemetryPath
begin

text \<open>
  From the operator's flows to the rows of the grid: the plans (\<open>FlowPlans\<close>), a node's engine
  running its plan (\<open>DataPlane\<close>), its client (\<open>ClientRun\<close>), the codec (\<open>Protocol\<close>), the
  hub (\<open>Hub\<close>) and the controller's metric store (\<open>Controller\<close>), composed.
\<close>

subsection \<open>The stations\<close>

text \<open>A metric a node's client stamped, made of one its engine submitted.\<close>

definition stamped_from :: "string \<Rightarrow> metric list \<Rightarrow> metric \<Rightarrow> bool" where
  "stamped_from x ms m \<longleftrightarrow> (\<exists>m0 \<in> set ms. \<exists>now c. cl_agentID c = x \<and> m = stamp_metric now m0 c)"

text \<open>The row of the grid that belongs to a flow.\<close>

definition flow_row :: "flow \<Rightarrow> string" where
  "flow_row f = fl_SrcAgent f @ ''|'' @ fl_DstAgent f @ ''|'' @ fl_Protocol f @ ''|'' @ fl_ID f"

lemma planned_metric_row:
  assumes "\<And>xs. set (perm xs) = set xs" and "buildFlowPlans perm t infos adm flows = (plans, n)"
    and "eng_run (fst (eng_launch (fp_Flows (plan_for plans x)) spec e0)) ms e" and "stamped_from x ms m"
  shows "\<exists>f \<in> set flows. taking_part infos adm f \<and> fl_SrcAgent f = x \<and> key m = flow_row f"
proof -
  obtain m0 now c where m0: "m0 \<in> set ms" "m = stamp_metric now m0 c" "cl_agentID c = x"
    using assms(4) by (auto simp: stamped_from_def)
  have "run_ok (fp_Flows (plan_for plans x)) spec ms e"
    by (rule eng_run_ok [OF assms(3) run_ok_launch])
  then obtain af where af: "af \<in> set (fp_Flows (plan_for plans x))" "label_metric af m0 = m0"
    using m0(1) by (auto simp: run_ok_def)
  then have lab: "m_FlowID m0 = af_ID af" "m_PeerID m0 = af_DstAgent af" "m_Profile m0 = af_Protocol af"
    by (metis label_metric_def metric.select_convs metric.surjective metric.update_convs)+
  obtain f where f: "f \<in> set flows" "taking_part infos adm f" "fl_SrcAgent f = x"
    "af = agent_flow_of (the (ip_by_id infos (fl_DstAgent f))) f"
    using af(1) plan_contents [OF assms(1,2), of x] by auto
  then have "key m = flow_row f"
    using lab m0(2,3) by (simp add: key_def flow_row_def stamp_metric_def agent_flow_of_def)
  with f show ?thesis by blast
qed

text \<open>What a client hands to its connections was stamped, and numbered from 1.\<close>

lemma handed_submitted:
  assumes "client_run (NewClient x host ver master tok port (sp_New cap)) subs offs sents cl" and "b \<in> set sents"
  shows "set (tb_Metrics b) \<subseteq> set subs"
    and "length subs < 2 ^ 64 \<Longrightarrow> \<forall>m \<in> set subs. m_Seq m \<noteq> 0"
proof -
  have L: "run_ledger subs offs sents cl"
    using client_run_ledger [OF assms(1)] new_client_ledger by blast
  then obtain D where "mset offs = mset (handed sents @ held cl) + D"
    by (auto simp: run_ledger_def accounts_def)
  then have "set_mset (mset (handed sents)) \<subseteq> set_mset (mset offs)"
    by (metis mset_append set_mset_mono mset_subset_eq_add_left subset_mset.order_trans)
  moreover have "set (tb_Metrics b) \<subseteq> set (handed sents)"
    using assms(2) by (auto simp: handed_def)
  moreover have "set_mset (mset offs) \<subseteq> set_mset (mset subs)"
    by (rule set_mset_mono [OF client_run_offered [OF assms(1)]])
  ultimately show "set (tb_Metrics b) \<subseteq> set subs" by auto
  assume len: "length subs < 2 ^ 64"
  have "map (\<lambda>m. unat (m_Seq m)) subs = [1..<Suc (length subs)]"
    using in_sequence_numbers [of subs cl, OF _ len] L unfolding run_ledger_def by blast
  then have "(\<lambda>m. unat (m_Seq m)) ` set subs = {1..<Suc (length subs)}"
    by (metis list.set_map set_upt)
  then have "0 \<notin> (\<lambda>m. unat (m_Seq m)) ` set subs" by simp
  then show "\<forall>m \<in> set subs. m_Seq m \<noteq> 0" by (metis imageI unsigned_0)
qed

text \<open>The controller after a telemetry frame.\<close>

lemma sink_events [simp]:
  "sink_all w (map (OutEvent \<circ> g) gaps) c = Some (c, map g gaps)"
  by (induction gaps) (simp_all add: sink_out_def)

lemma telemetry_stored:
  assumes "en_Type env = TypeTelemetry" and "en_Payload env = Some (enc_batch b)" and "batch_ok b"
    and "onMessage ptime pick now k env (ct_hub c) = (h, out)"
    and "sink_all w out (c\<lparr>ct_hub := h\<rparr>) = Some (c', evs)"
  shows "ct_store c' =
    (if ac_id (hb_conns (ct_hub c) k) = '''' then ct_store c else Ingest (tb_Metrics b) (ct_store c))"
proof -
  have "DecodePayload dec_batch env = Some b"
    using assms(2,3) by (simp add: DecodePayload_def batch_wire.dec_enc)
  moreover have "TypeTelemetry \<noteq> TypeRegister"
    by (simp add: message_type_defs)
  ultimately have m: "handleTelemetry (ac_id (hb_conns (ct_hub c) k)) b (ct_hub c) = (h, out)"
    using assms(1,4) by (simp add: onMessage_def)
  show ?thesis
  proof (cases "ac_id (hb_conns (ct_hub c) k) = '''' \<or> tb_Metrics b = []")
    case True
    with m assms(5) show ?thesis
      by (auto simp: handleTelemetry_def Ingest_def)
  next
    case False
    then obtain gaps c1 e1 where "out = OutTelemetry (ac_id (hb_conns (ct_hub c) k)) (tb_Metrics b) (tb_Replay b) # map (OutEvent \<circ> gap_event (ac_id (hb_conns (ct_hub c) k))) gaps"
      "onTelemetry w (tb_Metrics b) (tb_Replay b) (c\<lparr>ct_hub := h\<rparr>) = Some (c1, e1)" "c' = c1"
      using m assms(5) by (auto simp: handleTelemetry_def sink_out_def split: prod.splits option.splits)
    with False show ?thesis
      by (auto simp: onTelemetry_def Let_def split: option.splits if_splits prod.splits)
  qed
qed

lemma ingested:
  assumes "\<forall>m \<in> set ms. m_Seq m \<noteq> 0"
  shows "Ingest ms st r = Some m \<Longrightarrow> st r \<noteq> Some m \<Longrightarrow> m \<in> set ms \<and> r = key m"
    and "m \<in> set ms \<Longrightarrow> \<exists>row. Ingest ms st (key m) = Some row \<and> m_Seq m \<le> m_Seq row"
    and "st r = Some m \<Longrightarrow> \<exists>row. Ingest ms st r = Some row \<and> m_Seq m \<le> m_Seq row"
proof -
  show "st r = Some m \<Longrightarrow> \<exists>row. Ingest ms st r = Some row \<and> m_Seq m \<le> m_Seq row"
    using newer_fold_max [of "filter (\<lambda>x. key x = r) ms" "st r"] assms by (auto simp: Ingest_at)
  show "Ingest ms st r = Some m \<Longrightarrow> st r \<noteq> Some m \<Longrightarrow> m \<in> set ms \<and> r = key m"
    using newer_fold_mem [of "filter (\<lambda>m. key m = r) ms" "st r" m] by (auto simp: Ingest_at)
  assume "m \<in> set ms"
  then show "\<exists>row. Ingest ms st (key m) = Some row \<and> m_Seq m \<le> m_Seq row"
    using newer_fold_max [of "filter (\<lambda>x. key x = key m) ms" "st (key m)"] assms
    by (auto simp: Ingest_at filter_empty_conv)
qed

text \<open>
  C7: The grid shows the operator's flows, and every result that arrives.  Take a node that runs the plan the controller
  built for it, a history of its client in which only its engine submits, and any batch the client handed
  to a connection.  When the controller handles that frame, whatever it has stored and whoever the connection
  says it is, a row of the grid changes only if it belongs to a flow of the operator that takes part and
  starts at this node, and then it shows a metric of the batch; no row disappears or falls back to an
  earlier number; and if the connection has registered, each metric of the batch is on display, or a later
  one of the same row is.
\<close>

theorem grid_shows_flows:
  assumes "\<And>xs. set (perm xs) = set xs" and "buildFlowPlans perm t infos adm flows = (plans, n)"
    and "eng_run (fst (eng_launch (fp_Flows (plan_for plans x)) spec e0)) ms e"
    and "client_run (NewClient x host ver master tok port (sp_New cap)) subs offs sents cl"
    and "length subs < 2 ^ 64" and "\<forall>m \<in> set subs. stamped_from x ms m \<and> metric_ok m" and "b \<in> set sents"
    and "en_Type env = TypeTelemetry" and "en_Payload env = Some (enc_batch b)"
    and "onMessage ptime pick now k env (ct_hub c) = (h, out)"
    and "sink_all w out (c\<lparr>ct_hub := h\<rparr>) = Some (c', evs)"
  shows "(\<forall>r m. ct_store c' r = Some m \<and> ct_store c r \<noteq> Some m \<longrightarrow> m \<in> set (tb_Metrics b) \<and>
       (\<exists>f \<in> set flows. taking_part infos adm f \<and> fl_SrcAgent f = x \<and> r = flow_row f)) \<and>
     (\<forall>r old. ct_store c r = Some old \<longrightarrow> (\<exists>row. ct_store c' r = Some row \<and> m_Seq old \<le> m_Seq row)) \<and>
     (ac_id (hb_conns (ct_hub c) k) \<noteq> '''' \<longrightarrow>
       (\<forall>m \<in> set (tb_Metrics b). \<exists>row. ct_store c' (key m) = Some row \<and> m_Seq m \<le> m_Seq row))"
proof -
  note sub = handed_submitted [OF assms(4,7)]
  have all: "\<forall>m \<in> set (tb_Metrics b). m_Seq m \<noteq> 0 \<and> stamped_from x ms m"
    using sub(1) sub(2) [OF assms(5)] assms(6) by blast
  have ok: "batch_ok b"
    using sub(1) assms(6) by (auto simp: batch_ok_def)
  note st = telemetry_stored [OF assms(8,9) ok assms(10,11)]
  have new: "m \<in> set (tb_Metrics b) \<and> (\<exists>f \<in> set flows. taking_part infos adm f \<and> fl_SrcAgent f = x \<and> r = flow_row f)"
    if "ct_store c' r = Some m" "ct_store c r \<noteq> Some m" for r m
  proof -
    have "m \<in> set (tb_Metrics b) \<and> r = key m"
      using that st all ingested(1) [of "tb_Metrics b" "ct_store c" r m] by (auto split: if_splits)
    with all planned_metric_row [OF assms(1-3), of m] show ?thesis by auto
  qed
  have "\<exists>row. ct_store c' r = Some row \<and> m_Seq old \<le> m_Seq row" if "ct_store c r = Some old" for r old
    using st that all ingested(3) [of "tb_Metrics b" "ct_store c" r old] by auto
  moreover have "\<forall>m \<in> set (tb_Metrics b). \<exists>row. ct_store c' (key m) = Some row \<and> m_Seq m \<le> m_Seq row"
    if "ac_id (hb_conns (ct_hub c) k) \<noteq> ''''"
    using that st all ingested(2) [of "tb_Metrics b"] by auto
  ultimately show ?thesis
    using new by blast
qed

text \<open>One probe of the one flow of the demonstration plan, stamped and handed over.\<close>

definition demo_infos :: "agent_info list" where
  "demo_infos = [demo_info ''a'' ''10.0.0.1:5000'', demo_info ''b'' ''10.0.0.2:5000'']"

lemma demo_grid_probe:
  obtains plans n m e where "buildFlowPlans (\<lambda>xs. xs) 0 demo_infos (newAdminStore '''' None) [demo_ab_flow] = (plans, n)"
    and "eng_run (fst (eng_launch (fp_Flows (plan_for plans ''a'')) zero_test_spec (NewEngine ''a''))) [m] e"
    and "metric_ok m"
proof -
  obtain plans n where b: "buildFlowPlans (\<lambda>xs. xs) 0 demo_infos (newAdminStore '''' None) [demo_ab_flow] = (plans, n)"
    "fp_Flows (plan_for plans ''a'') = [agent_flow_of ''10.0.0.2'' demo_ab_flow]"
    using demo_plans by (auto simp: demo_infos_def)
  let ?e = "fst (eng_launch (fp_Flows (plan_for plans ''a'')) zero_test_spec (NewEngine ''a''))"
  have loops: "eg_loops ?e = [\<lparr>pl_flow = agent_flow_of ''10.0.0.2'' demo_ab_flow, pl_sent = 0, pl_phase = Probing\<rparr>]"
    by (simp add: b(2) eng_launch_def has_prober_def agent_flow_of_def demo_ab_flow_def)
  obtain l m where p: "loop_probe (eg_spec ?e) zero_metric (eg_loops ?e ! 0) = (l, m)"
    by (cases "loop_probe (eg_spec ?e) zero_metric (eg_loops ?e ! 0)")
  have "eng_step ?e [m] (?e\<lparr>eg_loops := (eg_loops ?e)[0 := l]\<rparr>)"
    by (rule eng_step.probe [OF _ _ p]) (simp_all add: loops)
  from eng_run.step [OF eng_run.launched this]
  have "eng_run ?e [m] (?e\<lparr>eg_loops := (eg_loops ?e)[0 := l]\<rparr>)" by simp
  moreover have "metric_ok m"
    using p by (auto simp: loop_probe_def Let_def label_metric_def metric_ok_def zero_metric_def int64_range_def)
  ultimately show thesis
    by (rule that [OF b(1)])
qed

lemma demo_grid_sent:
  assumes "metric_ok m0"
  obtains m cl where "client_run (NewClient ''a'' ''h'' ''1'' ''m:1'' '''' 6000 (sp_New 4)) [m] [m] (live [m]) cl"
    and "stamped_from ''a'' [m0] m" and "metric_ok m" and "m_Seq m = 1"
proof -
  let ?start = "NewClient ''a'' ''h'' ''1'' ''m:1'' '''' 6000 (sp_New 4)"
  let ?m = "stamp_metric 0 m0 ?start"
  obtain c where c: "client_run ?start [?m] [] ([] @ replays (contents (cl_spool (submit_stamp ?start)))) c"
    "at_rest (cl_next (submit_stamp ?start)) 200 c"
    by (rule connect_run [OF client_run.stamp [OF client_run.init, of ?start 0 m0, simplified]])
      (simp_all add: submit_stamp_def NewClient_def sp_ok_New Cap_New intakeBuffer_def)
  have none: "[] @ replays (contents (cl_spool (submit_stamp ?start))) = []"
    by (simp add: submit_stamp_def NewClient_def contents_New replays_def)
  have r: "at_rest (cl_next (submit_stamp ?start)) (Suc 199) c" and m: "?m \<in># mset [?m] - mset []"
    using c(2) by simp_all
  obtain cl where "client_run ?start [?m] ([] @ [?m]) ([] @ live [?m]) cl"
    by (rule live_one [OF c(1) [unfolded none] r m])
  then have run: "client_run ?start [?m] [?m] (live [?m]) cl" by simp
  have "cl_agentID ?start = ''a''" "cl_telemetrySeq ?start = 0"
    by (simp_all add: NewClient_def)
  then have "stamped_from ''a'' [m0] ?m" "m_Seq ?m = 1"
    by (auto simp: stamped_from_def) (simp add: stamp_metric_def)
  moreover have "metric_ok ?m"
    using assms by (auto simp: metric_ok_def stamp_metric_def unix_ms_def wrap64_range)
  ultimately show thesis
    by (intro that [OF run])
qed

theorem grid_shows_flows_witness:
  "\<exists>c w h out c' evs env row. onMessage (\<lambda>_. None) False 0 0 env (ct_hub c) = (h, out) \<and>
     sink_all w out (c\<lparr>ct_hub := h\<rparr>) = Some (c', evs) \<and> ct_store c = Map.empty \<and>
     ct_store c' ''a|b|udp|f1'' = Some row \<and> m_Seq row = 1 \<and>
     (\<exists>f \<in> set [demo_ab_flow]. taking_part demo_infos (newAdminStore '''' None) f \<and> ''a|b|udp|f1'' = flow_row f)"
proof -
  let ?c0 = "controller_New None None None demo_secured"
  let ?c = "?c0\<lparr>ct_hub := upd_conn 0 (\<lambda>ac. ac\<lparr>ac_id := ''a''\<rparr>) (ct_hub ?c0)\<rparr>"
  obtain plans n m0 e where p: "buildFlowPlans (\<lambda>xs. xs) 0 demo_infos (newAdminStore '''' None) [demo_ab_flow] = (plans, n)"
    "eng_run (fst (eng_launch (fp_Flows (plan_for plans ''a'')) zero_test_spec (NewEngine ''a''))) [m0] e" "metric_ok m0"
    by (rule demo_grid_probe)
  obtain m cl where cl: "client_run (NewClient ''a'' ''h'' ''1'' ''m:1'' '''' 6000 (sp_New 4)) [m] [m] (live [m]) cl"
    "stamped_from ''a'' [m0] m" "metric_ok m" "m_Seq m = 1"
    by (rule demo_grid_sent [OF p(3)])
  let ?b = "\<lparr>tb_Metrics = [m], tb_Replay = False\<rparr>"
  let ?env = "NewEnvelope TypeTelemetry ''a'' 1 0 (Some (enc_batch ?b))"
  obtain h out where m: "onMessage (\<lambda>_. None) False 0 0 ?env (ct_hub ?c) = (h, out)"
    by (cases "onMessage (\<lambda>_. None) False 0 0 ?env (ct_hub ?c)")
  have "ui_ok (ct_ui (?c\<lparr>ct_hub := h\<rparr>))"
    by (simp add: controller_New_def ui_ok_new)
  then obtain c' evs where s: "sink_all demo_env out (?c\<lparr>ct_hub := h\<rparr>) = Some (c', evs)"
    using sink_all_total by fastforce
  have one: "\<forall>x \<in> set [m]. stamped_from ''a'' [m0] x \<and> metric_ok x" "?b \<in> set (live [m])" "length [m] < 2 ^ 64"
    "en_Type ?env = TypeTelemetry" "en_Payload ?env = Some (enc_batch ?b)" "m_Seq m = 1"
    using cl by (simp_all add: live_def)
  note G = grid_shows_flows [where perm = "\<lambda>xs. xs", OF refl p(1,2) cl(1) one(3,1,2,4,5) m s]
  have empty: "ct_store ?c = Map.empty" and id: "ac_id (hb_conns (ct_hub ?c) 0) \<noteq> ''''"
    by (simp_all add: controller_New_def)
  obtain row where row: "ct_store c' (key m) = Some row"
    using G [THEN conjunct2, THEN conjunct2, rule_format, OF id, of m] by auto
  have "ct_store ?c (key m) \<noteq> Some row" by (simp add: empty)
  with G [THEN conjunct1, rule_format, of "key m" row] row
  have r: "row = m" "\<exists>f \<in> set [demo_ab_flow]. taking_part demo_infos (newAdminStore '''' None) f \<and> key m = flow_row f"
    by auto
  have "flow_row demo_ab_flow = ''a|b|udp|f1''"
    by (simp add: flow_row_def demo_ab_flow_def zero_flow_def UDP_def)
  with r(2) have k: "key m = ''a|b|udp|f1''" by simp
  show ?thesis
    by (intro exI [of _ ?c] exI [of _ demo_env] exI [of _ h] exI [of _ out] exI [of _ c'] exI [of _ evs] exI [of _ ?env]
        exI [of _ m] conjI m s empty row [unfolded k r(1)] r(2) [unfolded k] one(6))
qed

end
