(* ===== verification/EngineRun.thy ===== *)
theory EngineRun
  imports DataPlane
begin

text \<open>
  \<open>internal/dataplane/dataplane.go\<close>, \<open>Engine.Start\<close> and \<open>Engine.Stop\<close> as their callers run
  them.  \<open>DataPlane\<close> has a start and a stop as one step each; here they are the stretches between
  two points where another goroutine can interfere: the lock around the cancel function, the call of
  it, the wait group with its waiters, and one \<open>Add\<close> per flow.  The callers are the goroutine
  that handles control frames and, when the node terminates, \<open>Agent.Run\<close>.
\<close>

subsection \<open>The engine and its callers\<close>

text \<open>Runs are numbered by their contexts.  What a caller does once its \<open>Stop\<close> has returned:\<close>

datatype afterwards = Return | ThenStart "agent_flow list" test_spec

text \<open>Where a caller stands.  \<open>Took\<close>: it holds the cancel function of a run and has not called it;
  \<open>AtWait\<close>: before \<open>Wait\<close>; \<open>Parked\<close>: inside; \<open>Released\<close>: woken, but \<open>Wait\<close> has not looked
  at the counter again; \<open>Launching\<close>: in the loop over the flows.\<close>

datatype place =
    Outside
  | Took nat afterwards
  | AtWait afterwards
  | Parked afterwards
  | Released afterwards
  | StopReturned afterwards
  | Launching nat "agent_flow list" "agent_flow list" test_spec
  | Crashed

datatype caller = Handler | Terminator

record engine_go =
  go_agentID :: string
  go_cancel :: "nat option"
  go_next :: nat
  go_done :: "nat \<Rightarrow> bool"
  go_parent :: bool
  go_spec :: "nat \<Rightarrow> test_spec"
  go_loops :: "nat \<Rightarrow> probe_loop list"
  go_wg :: int
  go_at :: "caller \<Rightarrow> place"

definition go_New :: "string \<Rightarrow> engine_go" where
  "go_New agent = \<lparr>go_agentID = agent, go_cancel = None, go_next = 0, go_done = (\<lambda>_. False), go_parent = False,
     go_spec = (\<lambda>_. zero_test_spec), go_loops = (\<lambda>_. []), go_wg = 0, go_at = (\<lambda>_. Outside)\<rparr>"

definition goto :: "caller \<Rightarrow> place \<Rightarrow> engine_go \<Rightarrow> engine_go" where
  "goto k p s = s\<lparr>go_at := (go_at s)(k := p)\<rparr>"

definition fresh_loop :: "agent_flow \<Rightarrow> probe_loop" where
  "fresh_loop f = \<lparr>pl_flow = f, pl_sent = 0, pl_phase = Probing\<rparr>"

definition go_stopped_event :: "engine_go \<Rightarrow> event" where
  "go_stopped_event s = (event0 TestStopped)\<lparr>ev_AgentID := go_agentID s\<rparr>"

definition go_started_event :: "agent_flow list \<Rightarrow> test_spec \<Rightarrow> engine_go \<Rightarrow> event" where
  "go_started_event flows spec s = (event0 TestStarted)\<lparr>ev_AgentID := go_agentID s, ev_Detail := ts_RunID spec,
     ev_Fields := [(''flows'', AInt (int (length flows))), (''intervalMs'', AInt (ts_IntervalMS spec))]\<rparr>"

text \<open>The beginning of \<open>Stop\<close>, under the lock.\<close>

definition take_cancel :: "caller \<Rightarrow> afterwards \<Rightarrow> engine_go \<Rightarrow> engine_go" where
  "take_cancel k c s =
     (case go_cancel s of None \<Rightarrow> goto k (StopReturned c) s
      | Some r \<Rightarrow> goto k (Took r c) (s\<lparr>go_cancel := None\<rparr>))"

text \<open>\<open>wg.Done()\<close>: the last one releases every waiter.\<close>

definition release :: "place \<Rightarrow> place" where
  "release p = (case p of Parked c \<Rightarrow> Released c | _ \<Rightarrow> p)"

definition wg_done :: "engine_go \<Rightarrow> engine_go" where
  "wg_done s =
     (let s1 = s\<lparr>go_wg := go_wg s - 1\<rparr> in
      if go_wg s1 = 0 then s1\<lparr>go_at := release \<circ> go_at s1\<rparr> else s1)"

definition is_parked :: "place \<Rightarrow> bool" where
  "is_parked p = (case p of Parked c \<Rightarrow> True | _ \<Rightarrow> False)"

text \<open>\<open>wg.Add(1)\<close> and the new goroutine.  Adding to a counter of zero while somebody is parked
  panics.\<close>

definition wg_add_loop :: "caller \<Rightarrow> nat \<Rightarrow> agent_flow \<Rightarrow> engine_go \<Rightarrow> engine_go" where
  "wg_add_loop k r f s =
     (if go_wg s = 0 \<and> (is_parked (go_at s Handler) \<or> is_parked (go_at s Terminator)) then goto k Crashed s
      else s\<lparr>go_wg := go_wg s + 1, go_loops := (go_loops s)(r := go_loops s r @ [fresh_loop f])\<rparr>)"

text \<open>The next stretch of a caller; \<^const>\<open>None\<close> when it is outside, parked or gone.  A released
  \<open>Wait\<close> panics when the counter is not zero any more.\<close>

definition advance :: "caller \<Rightarrow> engine_go \<Rightarrow> (event list \<times> engine_go) option" where
  "advance k s =
     (case go_at s k of
        Outside \<Rightarrow> None
      | Took r c \<Rightarrow> Some ([], goto k (AtWait c) (s\<lparr>go_done := (go_done s)(r := True)\<rparr>))
      | AtWait c \<Rightarrow>
          if go_wg s = 0 then Some ([go_stopped_event s], goto k (StopReturned c) s) else Some ([], goto k (Parked c) s)
      | Parked c \<Rightarrow> None
      | Released c \<Rightarrow>
          if go_wg s \<noteq> 0 then Some ([], goto k Crashed s) else Some ([go_stopped_event s], goto k (StopReturned c) s)
      | StopReturned Return \<Rightarrow> Some ([], goto k Outside s)
      | StopReturned (ThenStart flows spec) \<Rightarrow>
          (let r = go_next s in
           Some ([], goto k (Launching r flows flows spec)
             (s\<lparr>go_next := Suc r, go_cancel := Some r, go_spec := (go_spec s)(r := spec)\<rparr>)))
      | Launching r flows [] spec \<Rightarrow> Some ([go_started_event flows spec s], goto k Outside s)
      | Launching r flows (f # fs) spec \<Rightarrow>
          (let s1 = goto k (Launching r flows fs spec) s in
           Some ([], if has_prober f then wg_add_loop k r f s1 else s1))
      | Crashed \<Rightarrow> None)"

text \<open>A probe loop: a probe, the ticker, or the context.  One that ends calls \<open>wg.Done()\<close>.\<close>

definition set_loop :: "nat \<Rightarrow> nat \<Rightarrow> probe_loop \<Rightarrow> engine_go \<Rightarrow> engine_go" where
  "set_loop r i l s =
     (let s1 = s\<lparr>go_loops := (go_loops s)(r := (go_loops s r)[i := l])\<rparr> in
      if pl_phase l = Ended then wg_done s1 else s1)"

datatype go_move =
    CallStop
  | CallStart "agent_flow list" test_spec
  | Terminate
  | TerminatorStop
  | Advance caller
  | Probe nat nat metric
  | Tick nat nat
  | CtxDone nat nat

definition loop_at :: "nat \<Rightarrow> nat \<Rightarrow> loop_phase \<Rightarrow> engine_go \<Rightarrow> bool" where
  "loop_at r i ph s \<longleftrightarrow> i < length (go_loops s r) \<and> pl_phase (go_loops s r ! i) = ph"

fun go_step :: "go_move \<Rightarrow> engine_go \<Rightarrow> (metric list \<times> event list \<times> engine_go) option" where
  "go_step CallStop s =
     (if go_at s Handler = Outside then Some ([], [], take_cancel Handler Return s) else None)"
| "go_step (CallStart flows spec) s =
     (if go_at s Handler = Outside then Some ([], [], take_cancel Handler (ThenStart flows spec) s) else None)"
| "go_step Terminate s = Some ([], [], s\<lparr>go_parent := True\<rparr>)"
| "go_step TerminatorStop s =
     (if go_parent s \<and> go_at s Terminator = Outside then Some ([], [], take_cancel Terminator Return s) else None)"
| "go_step (Advance k) s = map_option (\<lambda>(evs, s'). ([], evs, s')) (advance k s)"
| "go_step (Probe r i m) s =
     (if loop_at r i Probing s
      then (case loop_probe (go_spec s r) m (go_loops s r ! i) of (l, m') \<Rightarrow> Some ([m'], [], set_loop r i l s))
      else None)"
| "go_step (Tick r i) s =
     (if loop_at r i Waiting s then Some ([], [], set_loop r i ((go_loops s r ! i)\<lparr>pl_phase := Probing\<rparr>) s) else None)"
| "go_step (CtxDone r i) s =
     (if loop_at r i Waiting s \<and> (go_done s r \<or> go_parent s)
      then Some ([], [], set_loop r i ((go_loops s r ! i)\<lparr>pl_phase := Ended\<rparr>) s) else None)"

inductive go_run :: "string \<Rightarrow> engine_go \<Rightarrow> bool" for agent where
  start: "go_run agent (go_New agent)"
| step: "go_run agent s \<Longrightarrow> go_step mv s = Some (ms, evs, s') \<Longrightarrow> go_run agent s'"


subsection \<open>The wait group counts the loops\<close>

definition live :: "probe_loop list \<Rightarrow> nat" where
  "live ls = length (filter (\<lambda>l. pl_phase l \<noteq> Ended) ls)"

lemma live_simps [simp]:
  "live [] = 0" "live (ls @ [fresh_loop f]) = Suc (live ls)"
  by (simp_all add: live_def fresh_loop_def)

lemma live_update:
  "i < length ls \<Longrightarrow> pl_phase (ls ! i) \<noteq> Ended \<Longrightarrow>
   live (ls[i := l]) = (if pl_phase l = Ended then live ls - 1 else live ls) \<and> 0 < live ls"
  by (induction ls arbitrary: i) (auto simp: live_def split: nat.splits)

lemma live_zero: "live ls = 0 \<longleftrightarrow> list_all (\<lambda>l. pl_phase l = Ended) ls"
  by (induction ls) (auto simp: live_def)

definition lives :: "nat \<Rightarrow> (nat \<Rightarrow> probe_loop list) \<Rightarrow> nat" where
  "lives n loops = (\<Sum>r < n. live (loops r))"

definition total_live :: "engine_go \<Rightarrow> nat" where
  "total_live s = lives (go_next s) (go_loops s)"

definition launching :: "place \<Rightarrow> nat option" where
  "launching p = (case p of Launching r fl fs sp \<Rightarrow> Some r | _ \<Rightarrow> None)"

lemma launching_simps [simp]:
  "launching (Launching r fl fs sp) = Some r" "launching Outside = None" "launching (Took r c) = None"
  "launching (AtWait c) = None" "launching (Parked c) = None" "launching (Released c) = None"
  "launching (StopReturned c) = None" "launching Crashed = None" "launching (release p) = launching p"
  by (simp_all add: launching_def release_def split: place.splits)

definition wg_ok :: "engine_go \<Rightarrow> bool" where
  "wg_ok s \<longleftrightarrow> go_wg s = int (total_live s) \<and> (\<forall>r \<ge> go_next s. go_loops s r = []) \<and>
     (\<forall>k. is_parked (go_at s k) \<longrightarrow> go_wg s \<noteq> 0) \<and>
     (\<forall>k r. launching (go_at s k) = Some r \<longrightarrow> r < go_next s)"

lemma lives_change:
  assumes "r < n"
  shows "lives n (loops(r := ls)) + live (loops r) = lives n loops + live ls"
proof -
  have "lives n f = live (f r) + (\<Sum>x \<in> {..<n} - {r}. live (f x))" for f
    unfolding lives_def using assms by (simp add: sum.remove)
  from this [of loops] this [of "loops(r := ls)"] show ?thesis by simp
qed

lemma lives_next [simp]: "lives (Suc n) loops = lives n loops + live (loops n)"
  by (simp add: lives_def)

lemma release_cases [simp]:
  "\<not> is_parked (release p)" "release Outside = Outside" "release Crashed = Crashed"
  "release p = Outside \<longleftrightarrow> p = Outside" "release p = Crashed \<longleftrightarrow> p = Crashed"
  by (auto simp: release_def is_parked_def split: place.splits)

lemma is_parked_simps [simp]:
  "is_parked (Parked c)" "\<not> is_parked Outside" "\<not> is_parked (Took r c)" "\<not> is_parked (AtWait c)"
  "\<not> is_parked (Released c)" "\<not> is_parked (StopReturned c)" "\<not> is_parked (Launching r fl fs sp)"
  "\<not> is_parked Crashed"
  by (simp_all add: is_parked_def)

lemma goto_sel [simp]:
  "go_at (goto k p s) = (go_at s)(k := p)" "go_wg (goto k p s) = go_wg s" "go_next (goto k p s) = go_next s"
  "go_loops (goto k p s) = go_loops s" "go_cancel (goto k p s) = go_cancel s" "go_done (goto k p s) = go_done s"
  "go_parent (goto k p s) = go_parent s" "go_spec (goto k p s) = go_spec s" "go_agentID (goto k p s) = go_agentID s"
  "total_live (goto k p s) = total_live s"
  by (simp_all add: goto_def total_live_def)

lemma goto_ok:
  "wg_ok s \<Longrightarrow> (is_parked p \<longrightarrow> go_wg s \<noteq> 0) \<Longrightarrow> (\<forall>r. launching p = Some r \<longrightarrow> r < go_next s) \<Longrightarrow>
   wg_ok (goto k p s)"
  by (auto simp: wg_ok_def split: if_splits)

lemma take_cancel_ok: "wg_ok s \<Longrightarrow> wg_ok (take_cancel k c s)"
  by (auto simp: take_cancel_def wg_ok_def total_live_def split: option.splits)

lemma wg_add_loop_ok:
  assumes "wg_ok s" and "r < go_next s"
  shows "wg_ok (wg_add_loop k r f s)"
proof (cases "go_wg s = 0 \<and> (is_parked (go_at s Handler) \<or> is_parked (go_at s Terminator))")
  case True
  with assms show ?thesis by (simp add: wg_add_loop_def goto_ok)
next
  case False
  let ?loops = "(go_loops s)(r := go_loops s r @ [fresh_loop f])"
  have "lives (go_next s) ?loops = Suc (total_live s)"
    using lives_change [OF assms(2), of "go_loops s" "go_loops s r @ [fresh_loop f]"] by (simp add: total_live_def)
  moreover have "wg_add_loop k r f s = s\<lparr>go_wg := go_wg s + 1, go_loops := ?loops\<rparr>"
    unfolding wg_add_loop_def using False by (auto simp del: fun_upd_apply)
  ultimately show ?thesis
    using assms by (auto simp: wg_ok_def total_live_def)
qed

lemma set_loop_ok:
  assumes "wg_ok s" and "i < length (go_loops s r)" and "pl_phase (go_loops s r ! i) \<noteq> Ended"
  shows "wg_ok (set_loop r i l s)"
proof -
  have r: "r < go_next s"
    using assms(1,2) by (metis wg_ok_def leI list.size(3) not_less_zero)
  let ?loops = "(go_loops s)(r := (go_loops s r)[i := l])"
  have sum: "lives (go_next s) ?loops = (if pl_phase l = Ended then total_live s - 1 else total_live s)"
    "pl_phase l = Ended \<Longrightarrow> 0 < total_live s"
    using lives_change [OF r, of "go_loops s" "(go_loops s r)[i := l]"] live_update [OF assms(2,3), of l]
    by (auto simp: total_live_def split: if_splits)
  have other: "\<forall>x \<ge> go_next s. ?loops x = []"
    using assms(1) r by (simp add: wg_ok_def)
  show ?thesis
  proof (cases "pl_phase l = Ended")
    case True
    with assms(1) sum other show ?thesis
      by (auto simp: set_loop_def wg_done_def Let_def wg_ok_def total_live_def of_nat_diff simp del: fun_upd_apply)
  next
    case False
    with assms(1) sum other show ?thesis
      by (auto simp: set_loop_def wg_ok_def total_live_def simp del: fun_upd_apply)
  qed
qed


lemma advance_ok:
  assumes "advance k s = Some (evs, s')" and "wg_ok s"
  shows "wg_ok s'"
proof (cases "go_at s k")
  case (StopReturned c)
  show ?thesis
  proof (cases c)
    case (ThenStart flows spec)
    with StopReturned assms show ?thesis
      by (auto simp: advance_def Let_def wg_ok_def total_live_def goto_def split: if_splits) (metis less_SucI)+
  qed (use StopReturned assms in \<open>auto simp: advance_def goto_ok\<close>)
next
  case (Launching r flows fs spec)
  then have r: "r < go_next s" using assms(2) by (metis wg_ok_def launching_simps(1))
  show ?thesis
  proof (cases fs)
    case (Cons f gs)
    have "wg_ok (goto k (Launching r flows gs spec) s)"
      using assms(2) r by (simp add: goto_ok)
    with Cons Launching assms(1) r wg_add_loop_ok [of "goto k (Launching r flows gs spec) s" r] show ?thesis
      by (auto simp: advance_def Let_def split: if_splits)
  qed (use Launching assms in \<open>auto simp: advance_def goto_ok\<close>)
next
  case (Took r c)
  with assms show ?thesis
    by (auto simp: advance_def wg_ok_def total_live_def split: if_splits)
qed (use assms in \<open>auto simp: advance_def goto_ok split: if_splits\<close>)

lemma wg_ok_step:
  assumes "go_step mv s = Some (ms, evs, s')" and "wg_ok s"
  shows "wg_ok s'"
proof (cases mv)
  case (Advance k)
  with assms advance_ok show ?thesis by auto
next
  case Terminate
  with assms show ?thesis by (auto simp: wg_ok_def total_live_def)
qed (use assms set_loop_ok take_cancel_ok in \<open>auto simp: loop_at_def split: if_splits prod.splits\<close>)

lemma go_run_wg_ok: "go_run agent s \<Longrightarrow> wg_ok s"
proof (induction rule: go_run.induct)
  case start
  show ?case by (simp add: go_New_def wg_ok_def total_live_def lives_def)
qed (rule wg_ok_step)

subsection \<open>One caller: the engine as one step per operation\<close>

text \<open>Until the node terminates only the handler calls the engine.  The latest run is the one whose
  cancel function is stored, taken or called.\<close>

definition latest :: "engine_go \<Rightarrow> nat" where
  "latest s = go_next s - 1"

definition owned :: "engine_go \<Rightarrow> bool" where
  "owned s \<longleftrightarrow> go_next s \<noteq> 0 \<and> go_cancel s = Some (latest s) \<and> \<not> go_done s (latest s)"

definition stopping :: "engine_go \<Rightarrow> bool" where
  "stopping s \<longleftrightarrow> go_next s \<noteq> 0 \<and> go_cancel s = None \<and> go_done s (latest s)"

definition handler_ok :: "engine_go \<Rightarrow> bool" where
  "handler_ok s = (case go_at s Handler of
      Outside \<Rightarrow> owned s \<or> go_cancel s = None \<and> total_live s = 0
    | StopReturned c \<Rightarrow> go_cancel s = None \<and> total_live s = 0
    | Took r c \<Rightarrow> go_next s \<noteq> 0 \<and> go_cancel s = None \<and> r = latest s \<and> \<not> go_done s r
    | AtWait c \<Rightarrow> stopping s
    | Parked c \<Rightarrow> stopping s
    | Released c \<Rightarrow> stopping s \<and> total_live s = 0
    | Launching r fl fs sp \<Rightarrow> owned s \<and> r = latest s
    | Crashed \<Rightarrow> False)"

definition serial_ok :: "engine_go \<Rightarrow> bool" where
  "serial_ok s \<longleftrightarrow> wg_ok s \<and> go_at s Terminator = Outside \<and> (\<forall>r. Suc r < go_next s \<longrightarrow> live (go_loops s r) = 0) \<and>
     (\<forall>r \<ge> go_next s. \<not> go_done s r) \<and> handler_ok s"

text \<open>The engine of \<open>DataPlane\<close> that the callers see: the loops of the latest run, those still to be
  launched included, and none once a Stop has returned.\<close>

definition at_rest :: "place \<Rightarrow> bool" where
  "at_rest p = (case p of Outside \<Rightarrow> True | StopReturned c \<Rightarrow> True | _ \<Rightarrow> False)"

definition to_launch :: "place \<Rightarrow> agent_flow list" where
  "to_launch p = (case p of Launching r fl fs sp \<Rightarrow> filter has_prober fs | _ \<Rightarrow> [])"

definition holds_cancel :: "place \<Rightarrow> bool" where
  "holds_cancel p = (case p of Took r c \<Rightarrow> True | _ \<Rightarrow> False)"

definition abs_engine :: "engine_go \<Rightarrow> engine" where
  "abs_engine s =
     \<lparr>eg_agentID = go_agentID s,
      eg_cancel = (go_cancel s \<noteq> None \<or> holds_cancel (go_at s Handler)),
      eg_cancelled = (go_next s \<noteq> 0 \<and> go_done s (latest s)),
      eg_spec = (if go_next s = 0 then zero_test_spec else go_spec s (latest s)),
      eg_loops = (if go_cancel s = None \<and> at_rest (go_at s Handler) then []
        else go_loops s (latest s) @ map fresh_loop (to_launch (go_at s Handler)))\<rparr>"

text \<open>What the one-step engine may do: nothing (the event of a start comes when the last loop is
  launched), a step of its goroutines or the cancellation, the end of a Stop, a start.\<close>

definition engine_does :: "engine \<Rightarrow> metric list \<Rightarrow> event list \<Rightarrow> engine \<Rightarrow> bool" where
  "engine_does e ms evs e' \<longleftrightarrow>
     e' = e \<and> ms = [] \<and> (evs = [] \<or> (\<exists>flows spec. evs = [started_event e flows spec])) \<or>
     evs = [] \<and> eng_step e ms e' \<or>
     ms = [] \<and> (\<exists>ev. evs = [ev] \<and> eng_stopped e = Some (e', ev)) \<or>
     ms = [] \<and> evs = [] \<and> \<not> eg_cancel e \<and> eg_loops e = [] \<and> (\<exists>flows spec. e' = fst (eng_launch flows spec e))"

lemmas abs_defs = abs_engine_def at_rest_def to_launch_def holds_cancel_def latest_def


lemma release_abs [simp]:
  "at_rest (release p) = at_rest p" "to_launch (release p) = to_launch p" "holds_cancel (release p) = holds_cancel p"
  by (simp_all add: abs_defs release_def split: place.splits)

lemma set_loop_sel [simp]:
  "go_cancel (set_loop r i l s) = go_cancel s" "go_next (set_loop r i l s) = go_next s"
  "go_done (set_loop r i l s) = go_done s" "go_parent (set_loop r i l s) = go_parent s"
  "go_spec (set_loop r i l s) = go_spec s" "go_agentID (set_loop r i l s) = go_agentID s"
  "go_loops (set_loop r i l s) = (go_loops s)(r := (go_loops s r)[i := l])"
  by (simp_all add: set_loop_def wg_done_def Let_def)

lemma set_loop_at: "go_at (set_loop r i l s) k = go_at s k \<or>
   go_at (set_loop r i l s) k = release (go_at s k) \<and> go_wg (set_loop r i l s) = 0"
  by (simp add: set_loop_def wg_done_def Let_def)

lemma wg_zero: "wg_ok s \<Longrightarrow> go_wg s = 0 \<longleftrightarrow> total_live s = 0"
  by (simp add: wg_ok_def)

lemma total_live_zero: "total_live s = 0 \<Longrightarrow> r < go_next s \<Longrightarrow> live (go_loops s r) = 0"
  by (simp add: total_live_def lives_def)

lemma live_at: "i < length ls \<Longrightarrow> pl_phase (ls ! i) \<noteq> Ended \<Longrightarrow> 0 < live ls"
  using live_update [of i ls "ls ! i"] by simp

lemma live_loop_latest:
  assumes "serial_ok s" and "i < length (go_loops s r)" and "pl_phase (go_loops s r ! i) \<noteq> Ended"
  shows "r = latest s" and "go_next s \<noteq> 0" and "total_live s \<noteq> 0" and "\<not> (go_cancel s = None \<and> at_rest (go_at s Handler))"
proof -
  have nx: "r < go_next s"
    using assms(1,2) unfolding serial_ok_def wg_ok_def by (metis leI list.size(3) not_less_zero)
  have live: "0 < live (go_loops s r)"
    using live_at assms(2,3) by blast
  then have "\<not> Suc r < go_next s"
    using assms(1) by (auto simp: serial_ok_def)
  then show "r = latest s" "go_next s \<noteq> 0"
    using nx by (auto simp: latest_def)
  show total: "total_live s \<noteq> 0"
    using live nx total_live_zero by fastforce
  show "\<not> (go_cancel s = None \<and> at_rest (go_at s Handler))"
    using assms(1) total by (auto simp: serial_ok_def handler_ok_def owned_def at_rest_def split: place.splits)
qed

lemma handler_ok_loop:
  assumes "serial_ok s" and "i < length (go_loops s r)" and "pl_phase (go_loops s r ! i) \<noteq> Ended"
  shows "serial_ok (set_loop r i l s)"
proof -
  note lt = live_loop_latest [OF assms]
  let ?s = "set_loop r i l s"
  have wg: "wg_ok ?s"
    using assms by (intro set_loop_ok) (simp_all add: serial_ok_def)
  have h: "go_at ?s Handler = go_at s Handler \<or>
      go_at ?s Handler = release (go_at s Handler) \<and> total_live ?s = 0"
    using set_loop_at [of r i l s Handler] wg_zero [OF wg] by auto
  have lat: "latest ?s = latest s" "owned ?s = owned s" "stopping ?s = stopping s"
    by (simp_all add: latest_def owned_def stopping_def)
  have "handler_ok ?s"
    using h lt(3,4) assms(1) lat
    by (auto simp: handler_ok_def serial_ok_def release_def at_rest_def split: place.splits)
  moreover have "go_at ?s Terminator = Outside"
    using set_loop_at [of r i l s Terminator] assms(1) by (auto simp: serial_ok_def)
  moreover have "\<forall>r'. Suc r' < go_next ?s \<longrightarrow> live (go_loops ?s r') = 0"
    using assms(1) lt(1) by (auto simp: serial_ok_def latest_def)
  ultimately show ?thesis
    using wg assms(1) by (simp add: serial_ok_def)
qed

lemma abs_set_loop:
  assumes "serial_ok s" and "i < length (go_loops s r)" and "pl_phase (go_loops s r ! i) \<noteq> Ended"
  shows "i < length (eg_loops (abs_engine s)) \<and> eg_loops (abs_engine s) ! i = go_loops s r ! i \<and>
     eg_spec (abs_engine s) = go_spec s r \<and> eg_cancelled (abs_engine s) = go_done s r \<and>
     abs_engine (set_loop r i l s) = (abs_engine s)\<lparr>eg_loops := (eg_loops (abs_engine s))[i := l]\<rparr>"
proof -
  note lt = live_loop_latest [OF assms]
  have place: "at_rest (go_at (set_loop r i l s) Handler) = at_rest (go_at s Handler)"
    "to_launch (go_at (set_loop r i l s) Handler) = to_launch (go_at s Handler)"
    "holds_cancel (go_at (set_loop r i l s) Handler) = holds_cancel (go_at s Handler)"
    using set_loop_at [of r i l s Handler] release_abs by metis+
  have lat: "latest (set_loop r i l s) = latest s"
    by (simp add: latest_def)
  show ?thesis
    using lt assms(2) place lat
    by (auto simp: abs_engine_def nth_append list_update_append1)
qed


lemma sim_loop:
  assumes "serial_ok s" and "\<not> go_parent s"
    and "mv = Probe r i m \<or> mv = Tick r i \<or> mv = CtxDone r i" and "go_step mv s = Some (ms, evs, s')"
  shows "serial_ok s' \<and> engine_does (abs_engine s) ms evs (abs_engine s')"
proof -
  obtain ph where ph: "loop_at r i ph s" "ph \<noteq> Ended"
    using assms(3,4) by (auto split: if_splits)
  then have i: "i < length (go_loops s r)" "pl_phase (go_loops s r ! i) \<noteq> Ended"
    by (simp_all add: loop_at_def)
  note a = abs_set_loop [OF assms(1) i] and ok = handler_ok_loop [OF assms(1) i]
  have "evs = [] \<and> (\<exists>l. s' = set_loop r i l s) \<and> eng_step (abs_engine s) ms (abs_engine s')"
    using assms(3)
  proof (elim disjE)
    assume mv: "mv = Probe r i m"
    obtain l m' where l: "loop_probe (go_spec s r) m (go_loops s r ! i) = (l, m')"
      by (cases "loop_probe (go_spec s r) m (go_loops s r ! i)")
    with mv assms(4) have r: "ms = [m']" "evs = []" "s' = set_loop r i l s" "pl_phase (go_loops s r ! i) = Probing"
      by (auto simp: loop_at_def split: if_splits)
    with l a [of l] eng_step.probe [of i "abs_engine s" m l m'] show ?thesis by auto
  next
    assume mv: "mv = Tick r i"
    let ?l = "(go_loops s r ! i)\<lparr>pl_phase := Probing\<rparr>"
    from mv assms(4) have "ms = []" "evs = []" "s' = set_loop r i ?l s" "pl_phase (go_loops s r ! i) = Waiting"
      by (auto simp: loop_at_def split: if_splits)
    with a [of ?l] eng_step.tick [of i "abs_engine s"] show ?thesis by auto
  next
    assume mv: "mv = CtxDone r i"
    let ?l = "(go_loops s r ! i)\<lparr>pl_phase := Ended\<rparr>"
    from mv assms(2,4) have "ms = []" "evs = []" "s' = set_loop r i ?l s" "pl_phase (go_loops s r ! i) = Waiting" "go_done s r"
      by (auto simp: loop_at_def split: if_splits)
    with a [of ?l] eng_step.done_ [of i "abs_engine s"] show ?thesis by auto
  qed
  then show ?thesis
    using ok by (auto simp: engine_does_def)
qed

lemma sim_take:
  assumes "serial_ok s" and "go_at s Handler = Outside" and "s' = take_cancel Handler c s"
  shows "serial_ok s' \<and> abs_engine s' = abs_engine s"
proof -
  have wg: "wg_ok s'"
    using assms take_cancel_ok by (auto simp: serial_ok_def)
  show ?thesis
  proof (cases "go_cancel s")
    case None
    with assms wg show ?thesis
      by (auto simp: serial_ok_def handler_ok_def owned_def take_cancel_def abs_defs)
  next
    case (Some r)
    then have "owned s" "r = latest s"
      using assms(1,2) by (auto simp: serial_ok_def handler_ok_def owned_def)
    with Some assms wg show ?thesis
      by (auto simp: serial_ok_def handler_ok_def owned_def take_cancel_def abs_defs)
  qed
qed

lemma all_live_zero:
  assumes "serial_ok s" and "total_live s = 0"
  shows "list_all (\<lambda>l. pl_phase l = Ended) (go_loops s (latest s))"
proof (cases "go_next s")
  case 0
  with assms(1) show ?thesis by (simp add: serial_ok_def wg_ok_def latest_def)
next
  case (Suc n)
  with total_live_zero [OF assms(2), of n] show ?thesis
    by (simp add: live_zero latest_def)
qed

text \<open>The end of a Stop that waited.\<close>

lemma sim_stopped:
  assumes "serial_ok s" and "stopping s" and "total_live s = 0" and "\<not> at_rest (go_at s Handler)"
    and "to_launch (go_at s Handler) = []" and "\<not> holds_cancel (go_at s Handler)"
    and "s' = goto Handler (StopReturned c) s"
  shows "serial_ok s' \<and> eng_stopped (abs_engine s) = Some (abs_engine s', go_stopped_event s)"
proof -
  have "serial_ok s'"
    using assms goto_ok [of s "StopReturned c" Handler] by (auto simp: serial_ok_def handler_ok_def stopping_def)
  moreover have "eng_stopped (abs_engine s) = Some (abs_engine s', go_stopped_event s)"
    using assms all_live_zero [OF assms(1,3)]
    by (simp add: eng_stopped_def all_ended_def abs_engine_def stopping_def stopped_event_def go_stopped_event_def
        latest_def) (simp add: at_rest_def holds_cancel_def)
  ultimately show ?thesis ..
qed

lemma sim_advance:
  assumes "serial_ok s" and "advance Handler s = Some (evs, s')" and "\<not> go_parent s"
  shows "serial_ok s' \<and> engine_does (abs_engine s) [] evs (abs_engine s')"
proof (cases "go_at s Handler")
  case (Took r c)
  have h: "go_next s \<noteq> 0" "go_cancel s = None" "r = latest s" "\<not> go_done s r"
    using assms(1) Took by (auto simp: serial_ok_def handler_ok_def)
  have s': "evs = []" "s' = goto Handler (AtWait c) (s\<lparr>go_done := (go_done s)(r := True)\<rparr>)"
    using assms(2) Took by (simp_all add: advance_def)
  have "serial_ok s'"
    using assms(1) h s'(2) advance_ok [OF assms(2)]
    by (auto simp: serial_ok_def handler_ok_def stopping_def latest_def)
  moreover have "abs_engine s' = eng_cancel (abs_engine s)"
    using h s' Took by (simp add: abs_defs eng_cancel_def)
  ultimately show ?thesis
    using s'(1) eng_step.cancel by (simp add: engine_does_def)
next
  case (AtWait c)
  have h: "stopping s" and wg: "wg_ok s" using assms(1) AtWait by (simp_all add: serial_ok_def handler_ok_def)
  show ?thesis
  proof (cases "go_wg s = 0")
    case True
    with AtWait assms(2) have "evs = [go_stopped_event s]" "s' = goto Handler (StopReturned c) s"
      by (simp_all add: advance_def)
    with sim_stopped [OF assms(1) h, of s' c] True wg_zero [OF wg] AtWait show ?thesis
      by (simp add: engine_does_def abs_defs)
  next
    case False
    with AtWait assms(2) have s': "evs = []" "s' = goto Handler (Parked c) s"
      by (simp_all add: advance_def)
    have "serial_ok s'"
      using assms(1) h s'(2) advance_ok [OF assms(2)] by (auto simp: serial_ok_def handler_ok_def stopping_def latest_def)
    with s' AtWait h show ?thesis
      by (simp add: engine_does_def abs_defs)
  qed
next
  case (Released c)
  have h: "stopping s" "total_live s = 0" and wg: "wg_ok s" using assms(1) Released by (simp_all add: serial_ok_def handler_ok_def)
  then have "evs = [go_stopped_event s]" "s' = goto Handler (StopReturned c) s"
    using Released assms(2) wg_zero [OF wg] by (simp_all add: advance_def)
  with sim_stopped [OF assms(1) h, of s' c] Released show ?thesis
    by (simp add: engine_does_def abs_defs)
next
  case (StopReturned c)
  have h: "go_cancel s = None" "total_live s = 0" using assms(1) StopReturned by (simp_all add: serial_ok_def handler_ok_def)
  show ?thesis
  proof (cases c)
    case Return
    then have s': "evs = []" "s' = goto Handler Outside s"
      using StopReturned assms(2) by (simp_all add: advance_def)
    have "serial_ok s'"
      using assms(1) h s'(2) advance_ok [OF assms(2)] by (auto simp: serial_ok_def handler_ok_def)
    with s' StopReturned h show ?thesis
      by (simp add: engine_does_def abs_defs)
  next
    case (ThenStart flows spec)
    let ?r = "go_next s"
    have s': "evs = []" "s' = goto Handler (Launching ?r flows flows spec)
        (s\<lparr>go_next := Suc ?r, go_cancel := Some ?r, go_spec := (go_spec s)(?r := spec)\<rparr>)"
      using StopReturned ThenStart assms(2) by (simp_all add: advance_def Let_def)
    have "live (go_loops s r) = 0" if "r < ?r" for r
      using total_live_zero [OF h(2) that] .
    then have "serial_ok s'"
      using assms(1) s'(2) advance_ok [OF assms(2)]
      by (auto simp: serial_ok_def handler_ok_def owned_def latest_def)
    moreover have "abs_engine s' = fst (eng_launch flows spec (abs_engine s))"
      using s'(2) assms(1) StopReturned h
      by (simp add: abs_defs eng_launch_def serial_ok_def wg_ok_def fresh_loop_def)
    moreover have "\<not> eg_cancel (abs_engine s)" "eg_loops (abs_engine s) = []"
      using StopReturned h by (simp_all add: abs_defs)
    ultimately show ?thesis
      using s'(1) by (auto simp: engine_does_def)
  qed
next
  case (Launching r flows fs spec)
  have h: "owned s" "r = latest s" and wg: "wg_ok s" using assms(1) Launching by (simp_all add: serial_ok_def handler_ok_def)
  have nopark: "\<not> is_parked (go_at s Handler)" "\<not> is_parked (go_at s Terminator)"
    using assms(1) Launching by (simp_all add: serial_ok_def)
  show ?thesis
  proof (cases fs)
    case Nil
    then have s': "evs = [go_started_event flows spec s]" "s' = goto Handler Outside s"
      using Launching assms(2) by (simp_all add: advance_def)
    have "serial_ok s'"
      using assms(1) h s'(2) advance_ok [OF assms(2)] by (auto simp: serial_ok_def handler_ok_def owned_def latest_def)
    moreover have "abs_engine s' = abs_engine s" "go_started_event flows spec s = started_event (abs_engine s) flows spec"
      using s' Launching Nil h by (simp_all add: abs_defs owned_def go_started_event_def started_event_def)
    ultimately show ?thesis
      using s'(1) by (auto simp: engine_does_def)
  next
    case (Cons f gs)
    let ?s1 = "goto Handler (Launching r flows gs spec) s"
    have s': "evs = []" "s' = (if has_prober f then ?s1\<lparr>go_wg := go_wg s + 1, go_loops := (go_loops s)(r := go_loops s r @ [fresh_loop f])\<rparr> else ?s1)"
      using Launching Cons assms(2) nopark by (auto simp: advance_def Let_def wg_add_loop_def)
    have "serial_ok s'"
      using assms(1) h s'(2) advance_ok [OF assms(2)]
      by (auto simp: serial_ok_def handler_ok_def owned_def latest_def)
    moreover have "abs_engine s' = abs_engine s"
      using s'(2) Launching Cons h by (simp add: abs_defs owned_def)
    ultimately show ?thesis
      using s'(1) by (simp add: engine_does_def)
  qed
qed (use assms in \<open>simp_all add: advance_def\<close>)


lemma sim_step:
  assumes "serial_ok s" and "\<not> go_parent s" and "go_step mv s = Some (ms, evs, s')" and "\<not> go_parent s'"
  shows "serial_ok s' \<and> engine_does (abs_engine s) ms evs (abs_engine s')"
proof (cases mv)
  case (Advance k)
  have "k = Handler"
    using assms(1,3) Advance by (cases k) (auto simp: serial_ok_def advance_def)
  with Advance assms sim_advance [of s evs s'] show ?thesis by auto
next
  case (Probe r i m)
  show ?thesis by (rule sim_loop [OF assms(1,2) _ assms(3)]) (use Probe in blast)
next
  case (Tick r i)
  show ?thesis by (rule sim_loop [OF assms(1,2) _ assms(3), where m = zero_metric]) (use Tick in blast)
next
  case (CtxDone r i)
  show ?thesis by (rule sim_loop [OF assms(1,2) _ assms(3), where m = zero_metric]) (use CtxDone in blast)
next
  case CallStop
  with assms sim_take [of s s' Return] show ?thesis by (auto simp: engine_does_def split: if_splits)
next
  case (CallStart flows spec)
  with assms sim_take [of s s' "ThenStart flows spec"] show ?thesis
    by (auto simp: engine_does_def split: if_splits)
qed (use assms in auto)

lemma parent_stays: "go_step mv s = Some (ms, evs, s') \<Longrightarrow> go_parent s \<Longrightarrow> go_parent s'"
  by (cases mv)
    (auto simp: take_cancel_def goto_def advance_def wg_add_loop_def Let_def
      split: if_splits option.splits prod.splits place.splits afterwards.splits list.splits)

lemma serial_run: "go_run agent s \<Longrightarrow> \<not> go_parent s \<Longrightarrow> serial_ok s"
proof (induction rule: go_run.induct)
  case start
  show ?case
    by (simp add: go_New_def serial_ok_def handler_ok_def wg_ok_def total_live_def lives_def)
next
  case (step s mv ms evs s')
  then have "\<not> go_parent s" using parent_stays by blast
  with step sim_step show ?case by blast
qed

text \<open>
  C21: Start and Stop, stretch by stretch, are the one-step engine.  As long as the node is not
  terminating, in every interleaving of the control handler with the probe loops each stretch of Start and
  Stop, with the lock, the cancel function, the wait group and one new goroutine per flow, does
  to the engine the rest of the node sees either nothing or one step of it: a probe, a tick, the
  cancellation, the end of a Stop, which then finds every loop ended, or a start, which finds none.
  Neither the wait group nor a caller panics, and only the latest run has live loops.
\<close>

theorem start_stop_refine:
  assumes "go_run agent s" and "go_step mv s = Some (ms, evs, s')" and "\<not> go_parent s'"
  shows "engine_does (abs_engine s) ms evs (abs_engine s') \<and>
     (\<forall>k. go_at s' k \<noteq> Crashed) \<and> go_wg s' = int (total_live s') \<and>
     (\<forall>r. Suc r < go_next s' \<longrightarrow> list_all (\<lambda>l. pl_phase l = Ended) (go_loops s' r)) \<and>
     (\<forall>c. go_at s' Handler = StopReturned c \<longrightarrow> total_live s' = 0)"
proof -
  have np: "\<not> go_parent s"
    using assms(2,3) parent_stays by blast
  note sim = sim_step [OF serial_run [OF assms(1) np] np assms(2,3)]
  have "go_at s' k \<noteq> Crashed" for k
    using sim by (cases k) (auto simp: serial_ok_def handler_ok_def)
  with sim show ?thesis
    by (auto simp: serial_ok_def wg_ok_def live_zero handler_ok_def)
qed

definition demo_run :: "go_move list \<Rightarrow> engine_go option" where
  "demo_run mvs = fold (\<lambda>mv s. Option.bind s (\<lambda>s. map_option (\<lambda>(ms, evs, s'). s') (go_step mv s))) mvs (Some (go_New ''n1''))"

lemma demo_run_go: "demo_run mvs = Some s \<Longrightarrow> go_run ''n1'' s"
proof (induction mvs arbitrary: s rule: rev_induct)
  case Nil
  then show ?case by (auto simp: demo_run_def intro: go_run.start)
next
  case (snoc mv mvs)
  then obtain s0 ms evs where "demo_run mvs = Some s0" "go_step mv s0 = Some (ms, evs, s)"
    by (auto simp: demo_run_def Option.bind_eq_Some_conv)
  with snoc.IH show ?case by (blast intro: go_run.step)
qed

definition demo_once :: test_spec where
  "demo_once = zero_test_spec\<lparr>ts_Count := 1\<rparr>"

text \<open>A start with one flow, its only probe, and a stop.\<close>

definition demo_started :: "go_move list" where
  "demo_started = [CallStart [demo_flow] demo_once, Advance Handler, Advance Handler, Advance Handler]"


lemma demo_run_snoc:
  "demo_run mvs = Some s \<Longrightarrow> go_step mv s = Some (ms, evs, s') \<Longrightarrow> demo_run (mvs @ [mv]) = Some s'"
  by (simp add: demo_run_def)

lemmas demo_eval = take_cancel_def goto_def advance_def wg_add_loop_def loop_at_def loop_probe_def set_loop_def
  wg_done_def Let_def count_reached_def demo_once_def fresh_loop_def has_prober_def demo_flow_def is_parked_def
  release_def go_New_def

lemma demo_flow_runs:
  "\<exists>s. demo_run demo_started = Some s \<and> \<not> go_parent s \<and> go_at s Handler = Outside \<and> loop_at 0 0 Probing s \<and>
     go_cancel s = Some 0 \<and> go_next s = 1 \<and> go_wg s = 1"
  by (simp add: demo_run_def demo_started_def demo_eval)

theorem start_stop_refine_witness:
  "\<exists>s ms evs s'. go_run ''n1'' s \<and> go_step (Probe 0 0 zero_metric) s = Some (ms, evs, s') \<and> length ms = 1 \<and>
     engine_does (abs_engine s) ms evs (abs_engine s') \<and> go_wg s' = int (total_live s')"
proof -
  obtain s where s: "demo_run demo_started = Some s" "\<not> go_parent s" "loop_at 0 0 Probing s"
    using demo_flow_runs by blast
  obtain l m' where l: "loop_probe (go_spec s 0) zero_metric (go_loops s 0 ! 0) = (l, m')"
    by (cases "loop_probe (go_spec s 0) zero_metric (go_loops s 0 ! 0)")
  then have st: "go_step (Probe 0 0 zero_metric) s = Some ([m'], [], set_loop 0 0 l s)"
    using s(3) by simp
  have "\<not> go_parent (set_loop 0 0 l s)" using s(2) by simp
  from start_stop_refine [OF demo_run_go [OF s(1)] st this] st demo_run_go [OF s(1)] show ?thesis
    by (intro exI [of _ s] exI [of _ "[m']"] exI [of _ "[]"] exI [of _ "set_loop 0 0 l s"])
      (simp del: go_step.simps)
qed

subsection \<open>A start during the termination\<close>

text \<open>The wait group in every history, with both callers: it counts the loops, it is never added to
  while it is zero and somebody waits, and only a released waiter can find it used again.\<close>

lemma advance_panics:
  assumes "advance j s = Some (evs, s')" and "go_at s' k = Crashed" and "go_at s k \<noteq> Crashed"
    and "is_parked (go_at s Handler) \<or> is_parked (go_at s Terminator) \<longrightarrow> go_wg s \<noteq> 0"
  shows "j = k \<and> (\<exists>c. go_at s k = Released c) \<and> go_wg s \<noteq> 0"
proof (cases "go_at s j")
  case (Launching r flows fs spec)
  have quiet: "is_parked (go_at s i) \<longrightarrow> go_wg s \<noteq> 0" for i
    using assms(4) by (cases i) auto
  have "go_at (wg_add_loop j r f (goto j (Launching r flows gs spec) s)) k \<noteq> Crashed" for f gs
    using quiet [of Handler] quiet [of Terminator] assms(3)
    by (cases j; cases k) (auto simp: wg_add_loop_def)
  with Launching assms(1-3) show ?thesis
    by (cases fs) (auto simp: advance_def Let_def split: if_splits)
next
  case (StopReturned c)
  with assms(1-3) show ?thesis
    by (cases c) (auto simp: advance_def Let_def split: if_splits)
qed (use assms(1-3) in \<open>auto simp: advance_def split: if_splits\<close>)

lemma set_loop_crashed [simp]: "go_at (set_loop r i l s) k = Crashed \<longleftrightarrow> go_at s k = Crashed"
  using set_loop_at [of r i l s k] release_cases(3,5) by metis

lemma only_released_panics:
  assumes "go_run agent s" and "go_step mv s = Some (ms, evs, s')" and "go_at s' k = Crashed" and "go_at s k \<noteq> Crashed"
  shows "mv = Advance k \<and> (\<exists>c. go_at s k = Released c) \<and> go_wg s \<noteq> 0"
proof (cases mv)
  case (Advance j)
  have "is_parked (go_at s Handler) \<or> is_parked (go_at s Terminator) \<longrightarrow> go_wg s \<noteq> 0"
    using go_run_wg_ok [OF assms(1)] by (auto simp: wg_ok_def)
  with advance_panics [of j s evs s' k] Advance assms(2-4) show ?thesis by auto
qed (use assms(2-4) in \<open>auto simp: take_cancel_def split: if_splits option.splits prod.splits\<close>)

text \<open>
  C18: A start that meets the termination can crash the node.  There is a history in which the node is told
  to terminate while one flow is probed: \<open>Run\<close> takes the cancel function and waits; the control
  handler starts a test, finds no cancel function, so waits for nothing, and adds its loop to the wait group between
  the end of the old loop and the moment \<open>Run\<close> looks at it again, where it panics.
\<close>

theorem terminating_start_panics:
  "\<exists>s. go_run ''n1'' s \<and> go_parent s \<and> go_at s Terminator = Crashed \<and>
     (\<exists>fs. go_at s Handler = Launching 1 [demo_flow] fs demo_once)"
proof -
  let ?mvs = "demo_started @ [Terminate, TerminatorStop, Advance Terminator, Advance Terminator,
    CallStart [demo_flow] demo_once, Advance Handler, Probe 0 0 zero_metric, Advance Handler, Advance Terminator]"
  have "\<exists>s. demo_run ?mvs = Some s \<and> go_parent s \<and> go_at s Terminator = Crashed \<and>
      (\<exists>fs. go_at s Handler = Launching 1 [demo_flow] fs demo_once)"
    by (simp add: demo_run_def demo_started_def demo_eval)
  then show ?thesis
    using demo_run_go by blast
qed

end
