(* ===== verification/Sockets.thy ===== *)
theory Sockets
  imports DataPlane
begin

text \<open>
  \<open>reusePortControl\<close> of \<open>internal/dataplane/reuseport_unix.go\<close> and \<open>reuseport_windows.go\<close>, and the
  sockets it is given to: the responder's listeners and the probers with a source port of
  their own.  The system's answers are parameters: whether the raw connection can be controlled, what
  \<open>setsockopt\<close> returns, and the bind itself, which sees the options that were set.
\<close>

datatype sock_opt = SO_REUSEADDR | SO_REUSEPORT

text \<open>The control function: the options set on the socket, and the error.\<close>

definition reusePortControl_unix :: "string option \<Rightarrow> (sock_opt \<Rightarrow> string option) \<Rightarrow> sock_opt list \<times> string option" where
  "reusePortControl_unix control_err setopt =
     (case control_err of Some e \<Rightarrow> ([], Some e)
      | None \<Rightarrow>
          (case setopt SO_REUSEADDR of Some e \<Rightarrow> ([], Some e)
           | None \<Rightarrow>
               (case setopt SO_REUSEPORT of Some e \<Rightarrow> ([SO_REUSEADDR], Some e)
                | None \<Rightarrow> ([SO_REUSEADDR, SO_REUSEPORT], None))))"

definition reusePortControl_windows :: "string option \<Rightarrow> (sock_opt \<Rightarrow> string option) \<Rightarrow> sock_opt list \<times> string option" where
  "reusePortControl_windows control_err setopt =
     (case control_err of Some e \<Rightarrow> ([], Some e)
      | None \<Rightarrow> (case setopt SO_REUSEADDR of Some e \<Rightarrow> ([], Some e) | None \<Rightarrow> ([SO_REUSEADDR], None)))"

record sock_env =
  se_windows :: bool
  se_control :: "string option"
  se_setopt :: "sock_opt \<Rightarrow> string option"
  se_bind :: "sock_opt list \<Rightarrow> profile \<Rightarrow> string \<Rightarrow> string option"

definition reuse_control :: "sock_env \<Rightarrow> sock_opt list \<times> string option" where
  "reuse_control se =
     (if se_windows se then reusePortControl_windows (se_control se) (se_setopt se)
      else reusePortControl_unix (se_control se) (se_setopt se))"

text \<open>A listener of the responder: \<open>ListenConfig.Control\<close> runs before the bind, and its error is the
  listener's.\<close>

definition reuse_listen :: "sock_env \<Rightarrow> profile \<Rightarrow> string \<Rightarrow> string option" where
  "reuse_listen se p addr =
     (case reuse_control se of (opts, Some e) \<Rightarrow> Some e | (opts, None) \<Rightarrow> se_bind se opts p addr)"

text \<open>The local side of a prober's dial: a flow with a source port of its own is bound, with
  the control function, over UDP to \<open>net.IPv4zero\<close>.  The ICMP prober does not dial.\<close>

definition dial_local :: "sock_env \<Rightarrow> agent_flow \<Rightarrow> string option" where
  "dial_local se f =
     (let port = '':'' @ strconv_itoa (af_SrcPort f) in
      if af_SrcPort f \<le> 0 then None
      else if af_Protocol f = UDP then reuse_listen se UDP (''0.0.0.0'' @ port)
      else if af_Protocol f = TCP then reuse_listen se TCP port else None)"

subsection \<open>Listener and prober on one port\<close>

text \<open>The options a socket has once the control function returned without an error.\<close>

definition reuse_options :: "bool \<Rightarrow> sock_opt list" where
  "reuse_options windows = (if windows then [SO_REUSEADDR] else [SO_REUSEADDR, SO_REUSEPORT])"

lemma reuse_control_ok:
  "reuse_control se = (opts, None) \<Longrightarrow> opts = reuse_options (se_windows se)"
  by (auto simp: reuse_control_def reuse_options_def reusePortControl_unix_def reusePortControl_windows_def
      split: option.splits if_splits)

lemma reuse_listen_bound:
  "reuse_listen se p addr = None \<longleftrightarrow>
   snd (reuse_control se) = None \<and> se_bind se (reuse_options (se_windows se)) p addr = None"
  using reuse_control_ok by (auto simp: reuse_listen_def split: prod.splits option.splits)

text \<open>What the system promises: a port that is granted with the reuse options is granted again, on any or the
  IPv4 wildcard address, to another socket with the same options.  Then a prober gets every port Serve has reported open: both
  sockets carry the same options, because both go through the one control function.\<close>

lemma symmetric_probe_gets_port:
  assumes "Serve (reuse_listen se) ports r = Some (sts, r', ev)" and "\<forall>lp \<in> set ports. 0 \<le> lp_Port lp"
    and "(af_Protocol f, af_SrcPort f) \<in> set (rp_cur r')"
    and "\<And>p s h. se_bind se (reuse_options (se_windows se)) p ('':'' @ s) = None \<Longrightarrow> h \<in> {'''', ''0.0.0.0''} \<Longrightarrow>
      se_bind se' (reuse_options (se_windows se)) p (h @ '':'' @ s) = None"
    and "se_windows se' = se_windows se" and "snd (reuse_control se') = None"
  shows "dial_local se' f = None"
proof -
  have "list_all2 (\<lambda>lp st. ps_Port st = lp_Port lp \<and>
          (ps_UDP st \<longleftrightarrow> lp_UDP lp \<and> reuse_listen se UDP (port_addr (lp_Port lp)) = None) \<and>
          (ps_TCP st \<longleftrightarrow> lp_TCP lp \<and> reuse_listen se TCP (port_addr (lp_Port lp)) = None)) ports sts"
    "set (rp_cur r') = {(p, ps_Port st) | p st. st \<in> set sts \<and> (p = UDP \<and> ps_UDP st \<or> p = TCP \<and> ps_TCP st)}"
    using Serve_correct [OF assms(2), of "reuse_listen se" r] assms(1) by simp_all
  moreover from this(2) obtain st where st: "st \<in> set sts" "ps_Port st = af_SrcPort f"
    "af_Protocol f = UDP \<and> ps_UDP st \<or> af_Protocol f = TCP \<and> ps_TCP st"
    using assms(3) by auto
  ultimately have "ps_UDP st \<longrightarrow> reuse_listen se UDP (port_addr (ps_Port st)) = None"
    "ps_TCP st \<longrightarrow> reuse_listen se TCP (port_addr (ps_Port st)) = None"
    by (auto simp: list_all2_conv_all_nth in_set_conv_nth)
  with st have "reuse_listen se (af_Protocol f) (port_addr (af_SrcPort f)) = None"
    by auto
  then have "se_bind se (reuse_options (se_windows se)) (af_Protocol f) ('':'' @ strconv_itoa (af_SrcPort f)) = None"
    by (simp add: reuse_listen_bound port_addr_def)
  note granted = this
  have again: "reuse_listen se' (af_Protocol f) (h @ '':'' @ strconv_itoa (af_SrcPort f)) = None"
    if "h \<in> {'''', ''0.0.0.0''}" for h
    unfolding reuse_listen_bound assms(5) by (rule conjI [OF assms(6) assms(4) [OF granted that]])
  have "af_Protocol f = UDP \<Longrightarrow> reuse_listen se' UDP (''0.0.0.0'' @ '':'' @ strconv_itoa (af_SrcPort f)) = None"
    using again [of "''0.0.0.0''"] by simp
  moreover have "af_Protocol f = TCP \<Longrightarrow> reuse_listen se' TCP ('':'' @ strconv_itoa (af_SrcPort f)) = None"
    using again [of "''''"] by simp
  ultimately show ?thesis
    unfolding dial_local_def Let_def by argo
qed

end
