(* ===== verification/Bindings.thy ===== *)
theory Bindings
  imports DataPlane
begin

text \<open>
  \<open>internal/dataplane/responder.go\<close>, the goroutines behind \<open>Serve\<close>.  \<open>DataPlane\<close> models what
  Serve binds and reports; here a binding is its listeners, each with the goroutine that waits for
  the context and the echo loop, the accepted connections, each with its copy loop and its watcher, and
  the wait group.  The scheduler, the network and the callers of Serve are the moves of a step function.
\<close>

subsection \<open>A binding and its goroutines\<close>

record listener =
  ls_addr :: "profile \<times> int"
  ls_open :: bool
  ls_closer :: bool
  ls_loop :: bool

record echo_conn =
  ec_open :: bool
  ec_copy :: bool
  ec_watch :: bool

record binding =
  bd_cancelled :: bool
  bd_wg :: int
  bd_listeners :: "listener list"
  bd_conns :: "echo_conn list"

definition wg_add :: "int \<Rightarrow> binding \<Rightarrow> binding" where
  "wg_add n b = b\<lparr>bd_wg := bd_wg b + n\<rparr>"

definition set_listener :: "nat \<Rightarrow> listener \<Rightarrow> binding \<Rightarrow> binding" where
  "set_listener i l b = b\<lparr>bd_listeners := (bd_listeners b)[i := l]\<rparr>"

definition set_conn :: "nat \<Rightarrow> echo_conn \<Rightarrow> binding \<Rightarrow> binding" where
  "set_conn j c b = b\<lparr>bd_conns := (bd_conns b)[j := c]\<rparr>"

text \<open>The listeners Serve has opened: two goroutines each.\<close>

definition launch :: "bool \<Rightarrow> (profile \<times> int) list \<Rightarrow> binding" where
  "launch cancelled addrs =
     \<lparr>bd_cancelled = cancelled, bd_wg = 2 * int (length addrs),
      bd_listeners = map (\<lambda>a. \<lparr>ls_addr = a, ls_open = True, ls_closer = True, ls_loop = True\<rparr>) addrs,
      bd_conns = []\<rparr>"

text \<open>One turn of a goroutine.  \<open>CloseListener\<close>: the context is done, the socket is closed.
  \<open>LoopEnds\<close>: a read or an accept fails, for whatever reason.  \<open>AcceptConn\<close>: a peer has
  connected.  \<open>WatchCloses\<close>: the watcher of a connection sees the context.  \<open>CopyEnds\<close>:
  end of input, an error, the deadline or the closed connection; the deferred calls run.
  \<open>WatchLeaves\<close>: the watcher sees that the copy is over.\<close>

datatype turn = CloseListener nat | LoopEnds nat | AcceptConn nat | WatchCloses nat | CopyEnds nat | WatchLeaves nat

definition open_conn :: echo_conn where
  "open_conn = \<lparr>ec_open = True, ec_copy = True, ec_watch = True\<rparr>"

definition listener_turn :: "turn \<Rightarrow> nat \<Rightarrow> binding \<Rightarrow> binding option" where
  "listener_turn t i b =
     (if i < length (bd_listeners b) then
        let l = bd_listeners b ! i in
        case t of
          CloseListener _ \<Rightarrow>
            if bd_cancelled b \<and> ls_closer l
            then Some (wg_add (- 1) (set_listener i (l\<lparr>ls_open := False, ls_closer := False\<rparr>) b)) else None
        | LoopEnds _ \<Rightarrow>
            if ls_loop l then Some (wg_add (- 1) (set_listener i (l\<lparr>ls_loop := False\<rparr>) b)) else None
        | AcceptConn _ \<Rightarrow>
            if fst (ls_addr l) = TCP \<and> ls_loop l \<and> ls_open l
            then Some (wg_add 1 (b\<lparr>bd_conns := bd_conns b @ [open_conn]\<rparr>)) else None
        | _ \<Rightarrow> None
      else None)"

definition conn_turn :: "turn \<Rightarrow> nat \<Rightarrow> binding \<Rightarrow> binding option" where
  "conn_turn t j b =
     (if j < length (bd_conns b) then
        let c = bd_conns b ! j in
        case t of
          WatchCloses _ \<Rightarrow>
            if bd_cancelled b \<and> ec_watch c
            then Some (set_conn j (c\<lparr>ec_open := False, ec_watch := False\<rparr>) b) else None
        | CopyEnds _ \<Rightarrow>
            if ec_copy c then Some (wg_add (- 1) (set_conn j (c\<lparr>ec_open := False, ec_copy := False\<rparr>) b)) else None
        | WatchLeaves _ \<Rightarrow>
            if ec_watch c \<and> \<not> ec_copy c then Some (set_conn j (c\<lparr>ec_watch := False\<rparr>) b) else None
        | _ \<Rightarrow> None
      else None)"

fun take_turn :: "turn \<Rightarrow> binding \<Rightarrow> binding option" where
  "take_turn (CloseListener i) = listener_turn (CloseListener i) i"
| "take_turn (LoopEnds i) = listener_turn (LoopEnds i) i"
| "take_turn (AcceptConn i) = listener_turn (AcceptConn i) i"
| "take_turn (WatchCloses j) = conn_turn (WatchCloses j) j"
| "take_turn (CopyEnds j) = conn_turn (CopyEnds j) j"
| "take_turn (WatchLeaves j) = conn_turn (WatchLeaves j) j"

fun turns :: "turn list \<Rightarrow> binding \<Rightarrow> binding option" where
  "turns [] b = Some b"
| "turns (t # ts) b = (case take_turn t b of None \<Rightarrow> None | Some b' \<Rightarrow> turns ts b')"

lemmas turn_defs = listener_turn_def conn_turn_def wg_add_def set_listener_def set_conn_def Let_def

subsection \<open>The wait group counts the goroutines\<close>

definition counted :: "binding \<Rightarrow> int" where
  "counted b = (\<Sum>l \<leftarrow> bd_listeners b. of_bool (ls_closer l) + of_bool (ls_loop l)) +
     (\<Sum>c \<leftarrow> bd_conns b. of_bool (ec_copy c))"

definition binding_ok :: "binding \<Rightarrow> bool" where
  "binding_ok b \<longleftrightarrow> bd_wg b = counted b \<and>
     (\<forall>l \<in> set (bd_listeners b). ls_open l = ls_closer l \<and> (\<not> bd_cancelled b \<longrightarrow> ls_open l)) \<and>
     (\<forall>c \<in> set (bd_conns b). ec_open c \<longrightarrow> ec_copy c \<and> ec_watch c)"

text \<open>No socket and no counted goroutine is left.  The goroutine that closes a connection when
  the binding is cancelled (\<open>ec\_watch\<close>) is not in the wait group, and it is not asked about here: it
  may still have to return when the wait is over, but it holds nothing open.\<close>

definition gone :: "binding \<Rightarrow> bool" where
  "gone b \<longleftrightarrow> list_all (\<lambda>l. \<not> ls_open l \<and> \<not> ls_closer l \<and> \<not> ls_loop l) (bd_listeners b) \<and>
     list_all (\<lambda>c. \<not> ec_open c \<and> \<not> ec_copy c) (bd_conns b)"


lemma sum_list_map_update:
  fixes f :: "'a \<Rightarrow> int"
  shows "i < length xs \<Longrightarrow> sum_list (map f (xs[i := x])) = sum_list (map f xs) - f (xs ! i) + f x"
  by (induction xs arbitrary: i) (auto split: nat.splits)

lemma launch_ok: "binding_ok (launch c addrs)"
  by (auto simp: binding_ok_def launch_def counted_def o_def sum_list_triv)

lemma binding_ok_turn:
  assumes "take_turn t b = Some b'" and "binding_ok b"
  shows "binding_ok b'"
proof -
  have l: "ls_open (bd_listeners b ! i) = ls_closer (bd_listeners b ! i) \<and>
      (\<not> bd_cancelled b \<longrightarrow> ls_open (bd_listeners b ! i))" if "i < length (bd_listeners b)" for i
    using assms(2) that by (auto simp: binding_ok_def)
  have c: "ec_open (bd_conns b ! j) \<longrightarrow> ec_copy (bd_conns b ! j) \<and> ec_watch (bd_conns b ! j)"
    if "j < length (bd_conns b)" for j
    using assms(2) that by (auto simp: binding_ok_def)
  show ?thesis
    using assms l c
    by (cases t)
      (auto simp: turn_defs binding_ok_def counted_def sum_list_map_update open_conn_def
        dest!: set_update_subset_insert [THEN subsetD] split: if_splits)
qed

lemma binding_ok_turns: "turns ts b = Some b' \<Longrightarrow> binding_ok b \<Longrightarrow> binding_ok b'"
  by (induction ts arbitrary: b) (auto split: option.splits dest: binding_ok_turn)

text \<open>A sum of zeros and ones is zero when nothing is counted.\<close>

lemma count_zero:
  fixes f :: "'a \<Rightarrow> int"
  assumes "\<forall>x. 0 \<le> f x"
  shows "0 \<le> sum_list (map f xs)" "sum_list (map f xs) = 0 \<longleftrightarrow> (\<forall>x \<in> set xs. f x = 0)"
proof -
  show nn: "0 \<le> sum_list (map f xs)" for xs
    using assms by (induction xs) auto
  show "sum_list (map f xs) = 0 \<longleftrightarrow> (\<forall>x \<in> set xs. f x = 0)"
    using assms nn by (induction xs) (auto simp: add_nonneg_eq_0_iff)
qed

lemma wg_zero_gone:
  assumes "binding_ok b"
  shows "0 \<le> bd_wg b" and "bd_wg b = 0 \<longleftrightarrow> gone b"
proof -
  let ?f = "\<lambda>l. of_bool (ls_closer l) + of_bool (ls_loop l) :: int" and ?g = "\<lambda>c. of_bool (ec_copy c) :: int"
  have wg: "bd_wg b = sum_list (map ?f (bd_listeners b)) + sum_list (map ?g (bd_conns b))"
    using assms by (simp add: binding_ok_def counted_def)
  note f = count_zero [of ?f "bd_listeners b"] and g = count_zero [of ?g "bd_conns b"]
  show "0 \<le> bd_wg b" using wg f(1) g(1) by simp
  have "bd_wg b = 0 \<longleftrightarrow> (\<forall>l \<in> set (bd_listeners b). ?f l = 0) \<and> (\<forall>c \<in> set (bd_conns b). ?g c = 0)"
    using wg f g by (simp add: add_nonneg_eq_0_iff)
  also have "\<dots> \<longleftrightarrow> gone b"
    using assms by (auto simp: gone_def binding_ok_def list_all_iff add_nonneg_eq_0_iff)
  finally show "bd_wg b = 0 \<longleftrightarrow> gone b" .
qed


subsection \<open>How long a wait can last\<close>

definition turns_left :: "binding \<Rightarrow> int" where
  "turns_left b = counted b + (\<Sum>c \<leftarrow> bd_conns b. of_bool (ec_watch c))"

fun is_accept :: "turn \<Rightarrow> bool" where
  "is_accept (AcceptConn i) = True"
| "is_accept _ = False"

lemma turn_work: "take_turn t b = Some b' \<Longrightarrow> turns_left b' = turns_left b - 1 + (if is_accept t then 3 else 0)"
  by (cases t)
    (auto simp: turn_defs turns_left_def counted_def sum_list_map_update open_conn_def split: if_splits)

lemma turns_work:
  "turns ts b = Some b' \<Longrightarrow> turns_left b' = turns_left b - int (length ts) + 3 * int (length (filter is_accept ts))"
  by (induction ts arbitrary: b) (auto split: option.splits dest: turn_work)

lemma turns_left_bounds: "0 \<le> turns_left b" "turns_left b \<le> 2 * int (length (bd_listeners b)) + 2 * int (length (bd_conns b))"
proof -
  let ?f = "\<lambda>l. of_bool (ls_closer l) + of_bool (ls_loop l) :: int" and ?g = "\<lambda>c. of_bool (ec_copy c) :: int"
    and ?h = "\<lambda>c. of_bool (ec_watch c) :: int"
  show "0 \<le> turns_left b"
    using count_zero(1) [of ?f "bd_listeners b"] count_zero(1) [of ?g "bd_conns b"] count_zero(1) [of ?h "bd_conns b"]
    by (simp add: turns_left_def counted_def)
  have "sum_list (map ?f ls) \<le> 2 * int (length ls)" for ls
    by (induction ls) auto
  moreover have "sum_list (map ?g cs) + sum_list (map ?h cs) \<le> 2 * int (length cs)" for cs
    by (induction cs) auto
  ultimately show "turns_left b \<le> 2 * int (length (bd_listeners b)) + 2 * int (length (bd_conns b))"
    by (smt (verit) turns_left_def counted_def)
qed

text \<open>The turns nobody outside can hold up: a goroutine whose context is done, a loop over a closed socket.\<close>

fun due :: "turn \<Rightarrow> binding \<Rightarrow> bool" where
  "due (CloseListener i) b = True"
| "due (LoopEnds i) b = (\<not> ls_open (bd_listeners b ! i))"
| "due (AcceptConn i) b = False"
| "due (WatchCloses j) b = True"
| "due (CopyEnds j) b = (\<not> ec_open (bd_conns b ! j))"
| "due (WatchLeaves j) b = True"

lemma due_turn:
  assumes "binding_ok b" and "bd_cancelled b" and "\<not> gone b"
  shows "\<exists>t. due t b \<and> take_turn t b \<noteq> None"
proof -
  consider i where "i < length (bd_listeners b)" "ls_closer (bd_listeners b ! i)"
    | i where "i < length (bd_listeners b)" "\<not> ls_open (bd_listeners b ! i)" "ls_loop (bd_listeners b ! i)"
    | j where "j < length (bd_conns b)" "ec_watch (bd_conns b ! j)" "ec_open (bd_conns b ! j)"
    | j where "j < length (bd_conns b)" "\<not> ec_open (bd_conns b ! j)" "ec_copy (bd_conns b ! j)"
    using assms unfolding gone_def binding_ok_def list_all_length all_set_conv_all_nth by blast
  then show ?thesis
  proof cases
    case 1
    with assms(2) show ?thesis by (intro exI [of _ "CloseListener i"]) (simp add: turn_defs)
  next
    case 2
    then show ?thesis by (intro exI [of _ "LoopEnds i"]) (simp add: turn_defs)
  next
    case 3
    with assms(2) show ?thesis by (intro exI [of _ "WatchCloses j"]) (simp add: turn_defs)
  next
    case 4
    then show ?thesis by (intro exI [of _ "CopyEnds j"]) (simp add: turn_defs)
  qed
qed

lemma turns_cancelled: "turns ts b = Some b' \<Longrightarrow> bd_cancelled b' = bd_cancelled b"
proof (induction ts arbitrary: b)
  case (Cons t ts)
  then obtain b1 where b1: "take_turn t b = Some b1" "turns ts b1 = Some b'"
    by (auto split: option.splits)
  have "bd_cancelled b1 = bd_cancelled b"
    using b1(1) by (cases t) (auto simp: turn_defs split: if_splits)
  with Cons.IH [OF b1(2)] show ?case by simp
qed simp

subsection \<open>Serve, with its wait\<close>

text \<open>The responder: the active binding, the call of Serve that holds the lock and waits, whether
  the context the bindings are derived from is done, and, for the record, the bindings that were dropped.\<close>

record echo_responder =
  er_cur :: "binding option"
  er_serve :: "listen_port list option"
  er_parent :: bool
  er_past :: "binding list"

definition er_New :: echo_responder where
  "er_New = \<lparr>er_cur = None, er_serve = None, er_parent = False, er_past = []\<rparr>"

text \<open>The second part of Serve; \<^const>\<open>None\<close> is its panic.\<close>

definition bind_ports ::
  "(profile \<Rightarrow> string \<Rightarrow> string option) \<Rightarrow> listen_port list \<Rightarrow> echo_responder \<Rightarrow>
   (port_status list \<times> event \<times> echo_responder) option" where
  "bind_ports listen ports r =
     (case Serve listen ports NewResponder of
        None \<Rightarrow> None
      | Some (sts, rp, ev) \<Rightarrow>
          Some (sts, ev, r\<lparr>er_serve := None,
            er_cur := (if rp_cur rp = [] then None else Some (launch (er_parent r) (rp_cur rp)))\<rparr>))"

text \<open>A call that finds a binding cancels it and waits; nobody else gets the lock meanwhile.\<close>

datatype call = Bound "port_status list" event | Waits

definition serve_call ::
  "(profile \<Rightarrow> string \<Rightarrow> string option) \<Rightarrow> listen_port list \<Rightarrow> echo_responder \<Rightarrow> (call \<times> echo_responder) option" where
  "serve_call listen ports r =
     (if er_serve r \<noteq> None then None
      else case er_cur r of
        None \<Rightarrow> map_option (\<lambda>(sts, ev, r'). (Bound sts ev, r')) (bind_ports listen ports r)
      | Some b \<Rightarrow> Some (Waits, r\<lparr>er_cur := Some (b\<lparr>bd_cancelled := True\<rparr>), er_serve := Some ports\<rparr>))"

definition serve_wake ::
  "(profile \<Rightarrow> string \<Rightarrow> string option) \<Rightarrow> echo_responder \<Rightarrow> (call \<times> echo_responder) option" where
  "serve_wake listen r =
     (case (er_serve r, er_cur r) of
        (Some ports, Some b) \<Rightarrow>
          if bd_wg b = 0
          then map_option (\<lambda>(sts, ev, r'). (Bound sts ev, r'))
                 (bind_ports listen ports (r\<lparr>er_cur := None, er_past := er_past r @ [b]\<rparr>))
          else None
      | _ \<Rightarrow> None)"

inductive responder_step :: "echo_responder \<Rightarrow> echo_responder \<Rightarrow> bool" where
  called: "serve_call listen ports r = Some (res, r') \<Longrightarrow> responder_step r r'"
| woken: "serve_wake listen r = Some (res, r') \<Longrightarrow> responder_step r r'"
| goroutine: "er_cur r = Some b \<Longrightarrow> take_turn t b = Some b' \<Longrightarrow> responder_step r (r\<lparr>er_cur := Some b'\<rparr>)"
| leftover: "i < length (er_past r) \<Longrightarrow> take_turn t (er_past r ! i) = Some b' \<Longrightarrow>
    responder_step r (r\<lparr>er_past := (er_past r)[i := b']\<rparr>)"
| parent_done: "responder_step r (r\<lparr>er_parent := True,
    er_cur := map_option (\<lambda>b. b\<lparr>bd_cancelled := True\<rparr>) (er_cur r)\<rparr>)"

inductive responder_run :: "echo_responder \<Rightarrow> bool" where
  start: "responder_run er_New"
| step: "responder_run r \<Longrightarrow> responder_step r r' \<Longrightarrow> responder_run r'"


definition er_ok :: "echo_responder \<Rightarrow> bool" where
  "er_ok r \<longleftrightarrow> list_all (\<lambda>b. binding_ok b \<and> gone b) (er_past r) \<and> pred_option binding_ok (er_cur r) \<and>
     (er_serve r \<noteq> None \<longrightarrow> (\<exists>b. er_cur r = Some b \<and> bd_cancelled b))"

lemma gone_turn:
  assumes "take_turn t b = Some b'" and "gone b"
  shows "gone b'"
proof -
  have c: "\<not> ec_copy (bd_conns b ! j)" if "j < length (bd_conns b)" for j
    using assms(2) that by (auto simp: gone_def list_all_length)
  have l: "\<not> ls_closer (bd_listeners b ! i) \<and> \<not> ls_loop (bd_listeners b ! i)" if "i < length (bd_listeners b)" for i
    using assms(2) that by (auto simp: gone_def list_all_length)
  show ?thesis
    using assms l c
    by (cases t) (auto simp: turn_defs gone_def list_all_length nth_list_update split: if_splits)
qed

lemma binding_ok_cancel: "binding_ok b \<Longrightarrow> binding_ok (b\<lparr>bd_cancelled := True\<rparr>)"
  by (simp add: binding_ok_def counted_def)

lemma bind_ports_ok:
  "bind_ports listen ports r = Some (sts, ev, r') \<Longrightarrow> list_all (\<lambda>b. binding_ok b \<and> gone b) (er_past r) \<Longrightarrow> er_ok r'"
  by (auto simp: bind_ports_def er_ok_def launch_ok split: option.splits prod.splits)

lemma er_ok_step:
  assumes "responder_step r r'" and "er_ok r"
  shows "er_ok r'"
  using assms(1)
proof (cases rule: responder_step.cases)
  case (called listen ports res)
  show ?thesis
  proof (cases "er_cur r")
    case None
    with called assms(2) show ?thesis
      by (auto simp: serve_call_def er_ok_def [of r] intro: bind_ports_ok split: if_splits)
  next
    case (Some b)
    with called assms(2) show ?thesis
      by (auto simp: serve_call_def er_ok_def binding_ok_cancel split: if_splits)
  qed
next
  case (woken listen res)
  then obtain ports b sts ev where w: "er_cur r = Some b" "bd_wg b = 0"
    "bind_ports listen ports (r\<lparr>er_cur := None, er_past := er_past r @ [b]\<rparr>) = Some (sts, ev, r')"
    by (auto simp: serve_wake_def split: option.splits if_splits)
  have "binding_ok b \<and> gone b"
    using w(1,2) assms(2) wg_zero_gone [of b] by (simp add: er_ok_def)
  with assms(2) bind_ports_ok [OF w(3)] show ?thesis by (simp add: er_ok_def)
next
  case (goroutine b t b')
  with assms(2) binding_ok_turn [OF goroutine(3)] turns_cancelled [of "[t]" b b'] show ?thesis
    by (auto simp: er_ok_def)
next
  case (leftover i t b')
  then have "binding_ok (er_past r ! i)" "gone (er_past r ! i)"
    using assms(2) by (simp_all add: er_ok_def list_all_length)
  with leftover assms(2) binding_ok_turn [OF leftover(3)] gone_turn [OF leftover(3)] show ?thesis
    by (auto simp: er_ok_def list_all_length nth_list_update)
next
  case parent_done
  with assms(2) show ?thesis
    by (auto simp: er_ok_def binding_ok_cancel option.pred_map o_def pred_option_def)
qed

lemma responder_run_ok: "responder_run r \<Longrightarrow> er_ok r"
proof (induction rule: responder_run.induct)
  case start
  show ?case by (simp add: er_New_def er_ok_def)
qed (rule er_ok_step)

subsection \<open>Serve as the rest of the node sees it\<close>

definition open_addrs :: "binding \<Rightarrow> (profile \<times> int) list" where
  "open_addrs b = map ls_addr (filter ls_open (bd_listeners b))"

text \<open>Every listening socket of the process that a Serve has opened and nobody has closed.\<close>

definition abs_responder :: "echo_responder \<Rightarrow> responder" where
  "abs_responder r =
     \<lparr>rp_cur = concat (map open_addrs (er_past r)) @ (case er_cur r of None \<Rightarrow> [] | Some b \<Rightarrow> open_addrs b)\<rparr>"

lemma open_addrs_gone: "gone b \<Longrightarrow> open_addrs b = []"
  by (auto simp: gone_def open_addrs_def list_all_iff filter_empty_conv)

lemma open_addrs_launch: "open_addrs (launch c addrs) = addrs"
  by (simp add: open_addrs_def launch_def o_def)

lemma abs_past_gone:
  "list_all (\<lambda>b. binding_ok b \<and> gone b) (er_past r) \<Longrightarrow>
   rp_cur (abs_responder r) = (case er_cur r of None \<Rightarrow> [] | Some b \<Rightarrow> open_addrs b)"
  by (auto simp: abs_responder_def list_all_iff open_addrs_gone)

lemma bind_ports_refines:
  assumes "bind_ports listen ports r = Some (sts, ev, r')" and "list_all (\<lambda>b. binding_ok b \<and> gone b) (er_past r)"
  shows "Serve listen ports R = Some (sts, abs_responder r', ev)"
proof -
  obtain rp where s: "Serve listen ports NewResponder = Some (sts, rp, ev)"
    and r': "r' = r\<lparr>er_serve := None,
      er_cur := (if rp_cur rp = [] then None else Some (launch (er_parent r) (rp_cur rp)))\<rparr>"
    using assms(1) by (auto simp: bind_ports_def split: option.splits prod.splits)
  have "rp_cur (abs_responder r') = rp_cur rp"
    using abs_past_gone [of r'] assms(2) by (simp add: r' open_addrs_launch)
  moreover have "Serve listen ports R = Some (sts, rp, ev)"
    using s by (auto simp: Serve_def)
  ultimately show ?thesis by simp
qed

lemma woken_binds:
  assumes "er_ok r" and "serve_wake listen r = Some (Bound sts ev, r')"
  shows "\<exists>ports. er_serve r = Some ports \<and> Serve listen ports R = Some (sts, abs_responder r', ev)"
proof -
  obtain ports b where w: "er_serve r = Some ports" "er_cur r = Some b" "bd_wg b = 0"
    "bind_ports listen ports (r\<lparr>er_cur := None, er_past := er_past r @ [b]\<rparr>) = Some (sts, ev, r')"
    using assms(2) by (auto simp: serve_wake_def split: option.splits if_splits)
  have "list_all (\<lambda>b. binding_ok b \<and> gone b) (er_past r @ [b])"
    using assms(1) w(2,3) wg_zero_gone(2) [of b] by (simp add: er_ok_def)
  with bind_ports_refines [OF w(4)] w(1) show ?thesis by simp
qed

lemma called_binds:
  assumes "er_ok r" and "serve_call listen ports r = Some (Bound sts ev, r')"
  shows "Serve listen ports R = Some (sts, abs_responder r', ev)"
  using assms bind_ports_refines [of listen ports r sts ev r' R]
  by (auto simp: serve_call_def er_ok_def split: if_splits option.splits)


text \<open>
  C22: A rebind never overlaps.  In every history of the responder, however its goroutines, its peers and
  its callers interleave, a Serve that finds a binding and waits for it goes on only when every listener,
  every echo loop and every connection of it is gone, and what it then returns, and the sockets
  open in the whole process when it returns, are exactly those of the one-step Serve that the rest of the
  node relies on; the bindings dropped before hold no socket and no goroutine that the wait
  group counts (a watcher of a connection, which it does not count, may linger).  On the way the wait group never goes negative and no goroutine is added to one that
  has reached zero.
\<close>

theorem rebind_never_overlaps:
  assumes "responder_run r"
  shows "(\<forall>listen sts ev r'. serve_wake listen r = Some (Bound sts ev, r') \<longrightarrow>
       (\<exists>ports. er_serve r = Some ports \<and>
          Serve listen ports (abs_responder r) = Some (sts, abs_responder r', ev))) \<and>
     (\<forall>listen ports sts ev r'. serve_call listen ports r = Some (Bound sts ev, r') \<longrightarrow>
        Serve listen ports (abs_responder r) = Some (sts, abs_responder r', ev)) \<and>
     list_all gone (er_past r) \<and>
     (\<forall>b i. er_cur r = Some b \<longrightarrow> 0 \<le> bd_wg b \<and> (bd_wg b = 0 \<longrightarrow> gone b \<and> take_turn (AcceptConn i) b = None))"
proof -
  have ok: "er_ok r" using assms by (rule responder_run_ok)
  have "bd_wg b = 0 \<longrightarrow> gone b \<and> take_turn (AcceptConn i) b = None" if "er_cur r = Some b" for b i
    using ok that wg_zero_gone(2) [of b]
    by (auto simp: er_ok_def gone_def list_all_length listener_turn_def Let_def)
  moreover have "list_all gone (er_past r)"
    using ok by (auto simp: er_ok_def list_all_iff)
  ultimately show ?thesis
    using ok woken_binds [OF ok] called_binds [OF ok] wg_zero_gone(1) by (auto simp: er_ok_def)
qed

definition demo_listen :: "listen_port list" where
  "demo_listen = [\<lparr>lp_Port = 7000, lp_UDP = False, lp_TCP = True\<rparr>]"

definition demo_bound :: echo_responder where
  "demo_bound = er_New\<lparr>er_cur := Some (launch False [(TCP, 7000)])\<rparr>"

lemma demo_bound_run: "responder_run demo_bound"
proof -
  have "serve_call (\<lambda>_ _. None) demo_listen er_New \<noteq> None" (is "?c \<noteq> None")
    using serve_port_small [of "hd demo_listen" "\<lambda>_ _. None"]
    by (auto simp: serve_call_def bind_ports_def Serve_def demo_listen_def er_New_def)
  moreover have "snd (the ?c) = demo_bound"
    by (simp add: serve_call_def bind_ports_def Serve_def demo_listen_def er_New_def demo_bound_def
        serve_port_def itoa_small Let_def)
  ultimately obtain res where "?c = Some (res, demo_bound)"
    by (cases ?c) auto
  from responder_step.called [OF this] show ?thesis
    by (rule responder_run.step [OF responder_run.start])
qed


lemma turns_run:
  "turns ts b = Some b' \<Longrightarrow> responder_run r \<Longrightarrow> er_cur r = Some b \<Longrightarrow> responder_run (r\<lparr>er_cur := Some b'\<rparr>)"
proof (induction ts arbitrary: b r)
  case (Cons t ts)
  then obtain b1 where b1: "take_turn t b = Some b1" "turns ts b1 = Some b'"
    by (auto split: option.splits)
  have "responder_run (r\<lparr>er_cur := Some b1\<rparr>)"
    by (rule responder_run.step [OF Cons.prems(2) responder_step.goroutine [OF Cons.prems(3) b1(1)]])
  from Cons.IH [OF b1(2) this] show ?case by simp
qed (metis echo_responder.surjective echo_responder.update_convs(1) turns.simps(1) option.inject)

definition demo_busy :: binding where
  "demo_busy = (launch False [(TCP, 7000)])\<lparr>bd_cancelled := True, bd_wg := 3, bd_conns := [open_conn]\<rparr>"

text \<open>A peer connects, then a second Serve begins to wait.\<close>

definition demo_waiting :: echo_responder where
  "demo_waiting = er_New\<lparr>er_cur := Some demo_busy, er_serve := Some []\<rparr>"

lemma demo_waiting_run: "responder_run demo_waiting"
proof -
  let ?b = "demo_busy\<lparr>bd_cancelled := False\<rparr>"
  have "responder_run (demo_bound\<lparr>er_cur := Some ?b\<rparr>)"
    by (rule turns_run [of "[AcceptConn 0]", OF _ demo_bound_run])
      (simp_all add: turn_defs launch_def demo_busy_def demo_bound_def)
  moreover have "serve_call (\<lambda>_ _. None) [] (demo_bound\<lparr>er_cur := Some ?b\<rparr>) = Some (Waits, demo_waiting)"
    by (simp add: serve_call_def demo_waiting_def demo_busy_def demo_bound_def er_New_def)
  ultimately show ?thesis
    using responder_step.called responder_run.step by blast
qed

definition demo_turns :: "turn list" where
  "demo_turns = [AcceptConn 0, CloseListener 0, WatchCloses 0, LoopEnds 0, CopyEnds 0, CopyEnds 1]"

lemma demo_turns_run:
  "\<exists>b. turns demo_turns demo_busy = Some b \<and> bd_wg b = 0"
  by (simp add: demo_turns_def turn_defs launch_def demo_busy_def open_conn_def)

theorem rebind_never_overlaps_witness:
  "\<exists>r r' b. responder_run r \<and> er_cur r = Some b \<and> length (bd_conns b) = 2 \<and>
     serve_wake (\<lambda>_ _. None) r = Some (Bound [] (bound_event 0), r') \<and>
     Serve (\<lambda>_ _. None) [] (abs_responder r) = Some ([], abs_responder r', bound_event 0) \<and> gone b"
proof -
  obtain b where b: "turns demo_turns demo_busy = Some b" "bd_wg b = 0" "length (bd_conns b) = 2"
    using demo_turns_run by (auto simp: demo_turns_def turn_defs launch_def demo_busy_def open_conn_def)
  let ?r = "demo_waiting\<lparr>er_cur := Some b\<rparr>"
  have run: "responder_run ?r"
    by (rule turns_run [OF b(1) demo_waiting_run]) (simp add: demo_waiting_def)
  obtain r' where w: "serve_wake (\<lambda>_ _. None) ?r = Some (Bound [] (bound_event 0), r')"
    using b(2) by (simp add: serve_wake_def demo_waiting_def bind_ports_def Serve_def)
  note never = rebind_never_overlaps [OF run]
  have "Serve (\<lambda>_ _. None) [] (abs_responder ?r) = Some ([], abs_responder r', bound_event 0)"
    using conjunct1 [OF never] w by (fastforce simp: demo_waiting_def)
  moreover have "gone b"
    using never b(2) by (simp add: demo_waiting_def)
  ultimately show ?thesis
    using run w b(3) by (intro exI [of _ ?r] exI [of _ r'] exI [of _ b]) simp
qed

text \<open>
  C29: The wait of Serve is bounded.  Once a Serve waits, whatever the goroutines of the old binding do,
  they take at most two turns per listener and two per connection, and three for every
  connection that a peer still gets accepted; as long as the binding is not gone, some goroutine has a turn that
  nothing outside the process can hold up; and after the listeners are closed nothing is accepted
  any more.
\<close>

theorem serve_wait_bounded:
  assumes "responder_run r" and "er_serve r \<noteq> None" and "er_cur r = Some b" and "turns ts b = Some b'"
  shows "int (length ts) \<le> 2 * int (length (bd_listeners b)) + 2 * int (length (bd_conns b)) +
       3 * int (length (filter is_accept ts)) \<and>
     (bd_wg b' \<noteq> 0 \<longrightarrow> (\<exists>t. due t b' \<and> take_turn t b' \<noteq> None)) \<and>
     (list_all (\<lambda>l. \<not> ls_closer l) (bd_listeners b') \<longrightarrow> (\<forall>i. take_turn (AcceptConn i) b' = None))"
proof -
  have ok: "binding_ok b" "bd_cancelled b"
    using responder_run_ok [OF assms(1)] assms(2,3) by (auto simp: er_ok_def)
  have ok': "binding_ok b'" "bd_cancelled b'"
    using binding_ok_turns [OF assms(4) ok(1)] turns_cancelled [OF assms(4)] ok(2) by simp_all
  have "int (length ts) \<le> turns_left b + 3 * int (length (filter is_accept ts))"
    using turns_work [OF assms(4)] turns_left_bounds(1) [of b'] by simp
  moreover have "take_turn (AcceptConn i) b' = None" if "list_all (\<lambda>l. \<not> ls_closer l) (bd_listeners b')" for i
    using that ok'(1) by (auto simp: binding_ok_def list_all_iff listener_turn_def Let_def)
  ultimately show ?thesis
    using turns_left_bounds(2) [of b] due_turn [OF ok'] wg_zero_gone(2) [OF ok'(1)] by auto
qed

theorem serve_wait_bounded_witness:
  "responder_run demo_waiting \<and> turns demo_turns demo_busy \<noteq> None \<and> length demo_turns \<le> 2 + 2 + 3 * 1"
proof -
  obtain b where b: "turns demo_turns demo_busy = Some b"
    using demo_turns_run by blast
  have "int (length demo_turns) \<le> 2 * int (length (bd_listeners demo_busy)) +
      2 * int (length (bd_conns demo_busy)) + 3 * int (length (filter is_accept demo_turns))"
    using serve_wait_bounded [OF demo_waiting_run _ _ b] by (simp add: demo_waiting_def)
  with b demo_waiting_run show ?thesis
    by (simp add: demo_busy_def launch_def demo_turns_def)
qed

subsection \<open>The TCP echo\<close>

text \<open>\<open>io.Copy(c, c)\<close>: the reads of one connection with their times, and how much of each the
  following write gets through.  The deadline is an instant, set once when the connection is accepted.\<close>

definition echo_deadline :: "int \<Rightarrow> int" where
  "echo_deadline accepted = accepted + 10000000000"

fun tcp_echo :: "int \<Rightarrow> (int \<times> bytes \<times> nat) option list \<Rightarrow> bytes" where
  "tcp_echo dl [] = []"
| "tcp_echo dl (None # rs) = []"
| "tcp_echo dl (Some (t, chunk, n) # rs) =
     (if dl \<le> t then [] else if n < length chunk then take n chunk else chunk @ tcp_echo dl rs)"

lemma tcp_echo_prefix:
  "\<exists>rest. concat (map (\<lambda>(t, chunk, n). chunk) rs) = tcp_echo dl (map Some rs) @ rest"
proof (induction rs)
  case (Cons x rs)
  obtain t chunk n where x: "x = (t, chunk, n)" by (cases x)
  from Cons.IH obtain rest where "concat (map (\<lambda>(t, chunk, n). chunk) rs) = tcp_echo dl (map Some rs) @ rest" ..
  moreover have "\<exists>u. chunk @ s = take n chunk @ u" for s
    by (rule exI [of _ "drop n chunk @ s"]) simp
  ultimately show ?case
    using x by auto
qed simp

lemma tcp_echo_verbatim:
  "\<forall>(t, chunk, n) \<in> set rs. t < dl \<and> length chunk \<le> n \<Longrightarrow>
   tcp_echo dl (map Some rs) = concat (map (\<lambda>(t, chunk, n). chunk) rs)"
  by (induction rs) auto

text \<open>A peer that is never idle is cut off all the same.\<close>

lemma tcp_echo_cuts_busy_peer:
  "tcp_echo (echo_deadline 0) [Some (9999999999, [1], 1), Some (10000000000, [2], 1)] = [1]"
  by (simp add: echo_deadline_def)

text \<open>An echo loop that ends on an error is not started again: the port stays open and silent until
  the next plan.\<close>

lemma dead_loop_stays_dead:
  assumes "turns ts b = Some b'" and "i < length (bd_listeners b)"
    and "\<not> ls_loop (bd_listeners b ! i)" and "\<not> bd_cancelled b"
  shows "i < length (bd_listeners b') \<and> \<not> ls_loop (bd_listeners b' ! i) \<and>
     ls_open (bd_listeners b' ! i) = ls_open (bd_listeners b ! i)"
  using assms
proof (induction ts arbitrary: b)
  case (Cons t ts)
  then obtain b1 where b1: "take_turn t b = Some b1" "turns ts b1 = Some b'"
    by (auto split: option.splits)
  have s: "i < length (bd_listeners b1)" "\<not> ls_loop (bd_listeners b1 ! i)" "\<not> bd_cancelled b1"
    "ls_open (bd_listeners b1 ! i) = ls_open (bd_listeners b ! i)"
    using b1(1) Cons.prems(2-4) by (cases t; auto simp: turn_defs nth_list_update split: if_splits)+
  from Cons.IH [OF b1(2) s(1-3)] s(4) show ?case by simp
qed simp

lemma echo_loop_dies_silently:
  "\<exists>r b. responder_run r \<and> er_serve r = None \<and> er_cur r = Some b \<and> \<not> bd_cancelled b \<and>
     open_addrs b = [(TCP, 7000)] \<and> \<not> ls_loop (bd_listeners b ! 0) \<and> take_turn (AcceptConn 0) b = None"
proof -
  let ?b = "(launch False [(TCP, 7000)])\<lparr>bd_wg := 1,
     bd_listeners := [\<lparr>ls_addr = (TCP, 7000), ls_open = True, ls_closer = True, ls_loop = False\<rparr>]\<rparr>"
  have "responder_run (demo_bound\<lparr>er_cur := Some ?b\<rparr>)"
    by (rule turns_run [of "[LoopEnds 0]", OF _ demo_bound_run]) (simp_all add: turn_defs launch_def demo_bound_def)
  then show ?thesis
    by (intro exI [of _ "demo_bound\<lparr>er_cur := Some ?b\<rparr>"] exI [of _ ?b])
      (simp add: demo_bound_def er_New_def launch_def open_addrs_def listener_turn_def)
qed

end
