(* ===== verification/Sessions.thy ===== *)
theory Sessions
  imports UIStream "HOL-Library.Sublist"
begin

text \<open>
  \<open>serveUI\<close> of \<open>internal/controller/controller.go\<close> and \<open>internal/agent/agent.go\<close> after the
  upgrade: the two goroutines of one browser session over the hub of \<open>UIStream\<close>.  The reader waits for
  an error of the connection and removes the session; the writer ranges over the session's
  channel and, when it returns, runs the deferred calls, first the removal, then the close of the
  connection.  The rest of the program broadcasts, adds and removes other sessions in between.
\<close>

datatype writer_phase = Ranging | Closing | Returned

record session =
  ss_cl :: nat
  ss_conn :: bool
  ss_reader :: bool
  ss_writer :: writer_phase
  ss_written :: "ui_kind list"

text \<open>\<open>sw_meant\<close> records what was broadcast for the session while it was connected.\<close>

record session_world =
  sw_hub :: ui_hub
  sw_session :: session
  sw_meant :: "ui_kind list"

definition session_open :: "bool \<Rightarrow> ui_hub \<Rightarrow> session_world" where
  "session_open privileged h = (case uiAdd privileged h of (cl, h') \<Rightarrow>
     \<lparr>sw_hub = h', sw_session = \<lparr>ss_cl = cl, ss_conn = True, ss_reader = True, ss_writer = Ranging, ss_written = []\<rparr>,
      sw_meant = []\<rparr>)"

datatype session_move =
    Publish ui_kind bool
  | AddOther bool
  | RemoveOther nat
  | ReaderEnds
  | WriterTakes bool
  | WriterDrained
  | WriterCloses

datatype 'a outcome = Blocked | Panic | Moves 'a

definition removing :: "nat \<Rightarrow> session_world \<Rightarrow> session \<Rightarrow> session_world outcome" where
  "removing cl w s =
     (case uiRemove cl (sw_hub w) of None \<Rightarrow> Panic | Some h \<Rightarrow> Moves (w\<lparr>sw_hub := h, sw_session := s\<rparr>))"

text \<open>\<open>WriterTakes ok\<close>: the next message of the channel is written, or its write fails.\<close>

fun session_turn :: "session_move \<Rightarrow> session_world \<Rightarrow> session_world outcome" where
  "session_turn (Publish m only) w =
     (case uiBroadcast (m, only) (sw_hub w) of None \<Rightarrow> Panic
      | Some h \<Rightarrow> Moves (w\<lparr>sw_hub := h, sw_meant := sw_meant w @
          (if ss_cl (sw_session w) \<in> set (ui_clients (sw_hub w)) \<and> ui_wants (sw_hub w) (m, only) (ss_cl (sw_session w))
           then [m] else [])\<rparr>))"
| "session_turn (AddOther p) w = Moves (w\<lparr>sw_hub := snd (uiAdd p (sw_hub w))\<rparr>)"
| "session_turn (RemoveOther cl) w =
     (if cl = ss_cl (sw_session w) then Blocked else removing cl w (sw_session w))"
| "session_turn ReaderEnds w =
     (if ss_reader (sw_session w) then removing (ss_cl (sw_session w)) w ((sw_session w)\<lparr>ss_reader := False\<rparr>)
      else Blocked)"
| "session_turn (WriterTakes ok) w =
     (let s = sw_session w; ch = ui_heap (sw_hub w) (ss_cl s) in
      if ss_writer s \<noteq> Ranging then Blocked
      else case ch_buf ch of [] \<Rightarrow> Blocked
        | m # ms \<Rightarrow>
            let w1 = w\<lparr>sw_hub := (sw_hub w)\<lparr>ui_heap := (ui_heap (sw_hub w))(ss_cl s := ch\<lparr>ch_buf := ms\<rparr>)\<rparr>\<rparr> in
            if ok \<and> ss_conn s then Moves (w1\<lparr>sw_session := s\<lparr>ss_written := ss_written s @ [m]\<rparr>\<rparr>)
            else removing (ss_cl s) w1 (s\<lparr>ss_writer := Closing\<rparr>))"
| "session_turn WriterDrained w =
     (let s = sw_session w; ch = ui_heap (sw_hub w) (ss_cl s) in
      if ss_writer s = Ranging \<and> ch_buf ch = [] \<and> ch_closed ch then removing (ss_cl s) w (s\<lparr>ss_writer := Closing\<rparr>)
      else Blocked)"
| "session_turn WriterCloses w =
     (if ss_writer (sw_session w) = Closing
      then Moves (w\<lparr>sw_session := (sw_session w)\<lparr>ss_writer := Returned, ss_conn := False\<rparr>\<rparr>) else Blocked)"

inductive session_run :: "session_world \<Rightarrow> session_world \<Rightarrow> bool" for w0 where
  start: "session_run w0 w0"
| step: "session_run w0 w \<Longrightarrow> session_turn t w = Moves w' \<Longrightarrow> session_run w0 w'"

subsection \<open>The invariant of a session\<close>

text \<open>The session is in the hub exactly as long as its channel is open and both goroutines run; what
  was written and what waits is a part of what was meant, in order.\<close>

definition session_ok :: "session_world \<Rightarrow> bool" where
  "session_ok w \<longleftrightarrow> (let h = sw_hub w; s = sw_session w; ch = ui_heap h (ss_cl s) in
     ui_ok h \<and> ss_cl s < ui_next h \<and>
     (ss_cl s \<in> set (ui_clients h) \<longleftrightarrow> \<not> ch_closed ch) \<and>
     (ss_cl s \<in> set (ui_clients h) \<longleftrightarrow> ss_reader s \<and> ss_writer s = Ranging) \<and>
     (ss_conn s \<longleftrightarrow> ss_writer s \<noteq> Returned) \<and>
     subseq (ss_written s @ ch_buf ch) (sw_meant w) \<and> ch_cap ch = 256 \<and> length (ch_buf ch) \<le> 256 \<and>
     (ss_writer s = Ranging \<longrightarrow> length (sw_meant w) \<le> 256 \<longrightarrow> ss_written s @ ch_buf ch = sw_meant w))"

lemma session_ok_open: "ui_ok h \<Longrightarrow> session_ok (session_open p h)"
  using ui_ok_add [of h p]
  by (auto simp: session_open_def session_ok_def uiAdd_def Let_def)

text \<open>Removing the session itself never panics, and leaves its channel's contents.\<close>

lemma remove_self:
  assumes "ui_ok h"
  shows "\<exists>h'. uiRemove cl h = Some h' \<and> ui_ok h' \<and> cl \<notin> set (ui_clients h') \<and> ui_next h' = ui_next h \<and>
     (\<forall>i. ch_buf (ui_heap h' i) = ch_buf (ui_heap h i) \<and> ch_cap (ui_heap h' i) = ch_cap (ui_heap h i)) \<and>
     (\<forall>i. i \<noteq> cl \<longrightarrow> ui_heap h' i = ui_heap h i \<and> (i \<in> set (ui_clients h') \<longleftrightarrow> i \<in> set (ui_clients h))) \<and>
     (cl \<in> set (ui_clients h) \<longrightarrow> ch_closed (ui_heap h' cl)) \<and>
     (cl \<notin> set (ui_clients h) \<longrightarrow> h' = h)"
  using ui_ok_remove [OF assms, of cl]
  by (auto simp: uiRemove_def close_chan_def split: option.splits if_splits)

lemma removing_self:
  assumes "session_ok w" and "cl = ss_cl (sw_session w)" and "ss_cl s = cl"
    and "ss_written s = ss_written (sw_session w)" and "\<not> (ss_reader s \<and> ss_writer s = Ranging)"
    and "ss_conn s \<longleftrightarrow> ss_writer s \<noteq> Returned" and "ss_writer s = Ranging \<longrightarrow> ss_writer (sw_session w) = Ranging"
  shows "\<exists>w'. removing cl w s = Moves w' \<and> session_ok w' \<and> sw_meant w' = sw_meant w \<and> sw_session w' = s \<and>
     ch_buf (ui_heap (sw_hub w') cl) = ch_buf (ui_heap (sw_hub w) cl)"
proof -
  have ok: "ui_ok (sw_hub w)" using assms(1) by (simp add: session_ok_def Let_def)
  from remove_self [OF ok, of cl] assms show ?thesis
    by (auto simp: removing_def session_ok_def Let_def)
qed

lemma removing_other:
  assumes "session_ok w" and "cl \<noteq> ss_cl (sw_session w)"
  shows "\<exists>w'. removing cl w (sw_session w) = Moves w' \<and> session_ok w' \<and> sw_session w' = sw_session w"
proof -
  have ok: "ui_ok (sw_hub w)" using assms(1) by (simp add: session_ok_def Let_def)
  from remove_self [OF ok, of cl] assms show ?thesis
    by (auto simp: removing_def session_ok_def Let_def)
qed

lemma subseq_extend: "subseq xs ys \<Longrightarrow> subseq xs (ys @ zs)"
  by (metis append_Nil2 list_emb_append_mono list_emb_Nil)

lemma publish_keeps:
  assumes "session_ok w"
  shows "\<exists>w'. session_turn (Publish m only) w = Moves w' \<and> session_ok w' \<and> sw_session w' = sw_session w"
proof -
  let ?h = "sw_hub w" and ?cl = "ss_cl (sw_session w)"
  have ok: "ui_ok ?h" using assms by (simp add: session_ok_def Let_def)
  note b = uiBroadcast_open [OF ok, of "(m, only)", unfolded fst_conv]
  let ?h' = "?h\<lparr>ui_heap := \<lambda>i. if i \<in> set (ui_clients ?h) \<and> ui_wants ?h (m, only) i
    then offer m (ui_heap ?h i) else ui_heap ?h i\<rparr>"
  have ok': "ui_ok ?h'"
    using ok by (simp add: ui_ok_def)
  have "subseq (ss_written (sw_session w) @ ch_buf (offer m (ui_heap ?h ?cl))) (sw_meant w @ [m])"
    using assms by (auto simp: session_ok_def Let_def offer_def subseq_extend
        simp flip: append_assoc intro: list_emb_append_mono)
  moreover have "ss_written (sw_session w) @ ch_buf (offer m (ui_heap ?h ?cl)) = sw_meant w @ [m]"
    if "ss_writer (sw_session w) = Ranging" "length (sw_meant w @ [m]) \<le> 256"
  proof -
    have eq: "ss_written (sw_session w) @ ch_buf (ui_heap ?h ?cl) = sw_meant w" "ch_cap (ui_heap ?h ?cl) = 256"
      using assms that by (simp_all add: session_ok_def Let_def)
    then have "length (ch_buf (ui_heap ?h ?cl)) < 256"
      using that(2) by (metis Suc_le_eq length_append length_append_singleton less_eq_Suc_le order_le_less_trans le_add2)
    with eq show ?thesis by (simp add: offer_def)
  qed
  moreover have "length (ch_buf (offer m (ui_heap ?h ?cl))) \<le> 256"
    using assms by (simp add: session_ok_def Let_def offer_def)
  ultimately show ?thesis
    using assms ok' b by (auto simp: session_ok_def Let_def)
qed

text \<open>Taking the oldest message: written, or lost with the failing write.\<close>

definition taken :: "session_world \<Rightarrow> session_world" where
  "taken w = (let cl = ss_cl (sw_session w); ch = ui_heap (sw_hub w) cl in
     w\<lparr>sw_hub := (sw_hub w)\<lparr>ui_heap := (ui_heap (sw_hub w))(cl := ch\<lparr>ch_buf := tl (ch_buf ch)\<rparr>)\<rparr>\<rparr>)"

lemma subseq_drop_mid: "subseq (xs @ m # ys) zs \<Longrightarrow> subseq (xs @ ys) zs"
  by (meson list_emb_append_mono subseq_Cons' subseq_order.order_refl subseq_order.order_trans)

lemma WriterTakes_eq:
  "session_turn (WriterTakes ok) w =
     (let s = sw_session w; buf = ch_buf (ui_heap (sw_hub w) (ss_cl s)) in
      if ss_writer s \<noteq> Ranging \<or> buf = [] then Blocked
      else if ok \<and> ss_conn s then Moves ((taken w)\<lparr>sw_session := s\<lparr>ss_written := ss_written s @ [hd buf]\<rparr>\<rparr>)
      else removing (ss_cl s) (taken w) (s\<lparr>ss_writer := Closing\<rparr>))"
  by (simp add: Let_def taken_def split: list.splits)

lemma session_ok_taken:
  assumes "session_ok w" and "ch_buf (ui_heap (sw_hub w) (ss_cl (sw_session w))) = m # ms"
  shows "session_ok ((taken w)\<lparr>sw_session := (sw_session w)\<lparr>ss_written := ss_written (sw_session w) @ [m]\<rparr>\<rparr>)"
  using assms by (auto simp: session_ok_def Let_def taken_def ui_ok_def)

lemma failed_write:
  assumes "session_ok w" and "ch_buf (ui_heap (sw_hub w) (ss_cl (sw_session w))) = m # ms"
    and "ss_writer (sw_session w) = Ranging"
  shows "\<exists>w'. removing (ss_cl (sw_session w)) (taken w) ((sw_session w)\<lparr>ss_writer := Closing\<rparr>) = Moves w' \<and> session_ok w'"
proof -
  let ?cl = "ss_cl (sw_session w)" and ?w = "taken w"
  have ok: "ui_ok (sw_hub ?w)"
    using assms(1) by (simp add: session_ok_def Let_def taken_def ui_ok_def)
  have sub: "subseq (ss_written (sw_session w) @ ms) (sw_meant w)"
    by (rule subseq_drop_mid [where m = m]) (use assms in \<open>simp add: session_ok_def Let_def\<close>)
  have w: "ch_buf (ui_heap (sw_hub ?w) ?cl) = ms" "ch_cap (ui_heap (sw_hub ?w) ?cl) = 256"
    "ui_clients (sw_hub ?w) = ui_clients (sw_hub w)" "ui_next (sw_hub ?w) = ui_next (sw_hub w)"
    "ch_closed (ui_heap (sw_hub ?w) ?cl) = ch_closed (ui_heap (sw_hub w) ?cl)"
    "sw_meant ?w = sw_meant w" "sw_session ?w = sw_session w" "length ms \<le> 256"
    using assms by (auto simp: taken_def Let_def session_ok_def)
  obtain h where h: "uiRemove ?cl (sw_hub ?w) = Some h" "ui_ok h" "?cl \<notin> set (ui_clients h)"
    "ui_next h = ui_next (sw_hub ?w)" "ch_buf (ui_heap h ?cl) = ch_buf (ui_heap (sw_hub ?w) ?cl)"
    "ch_cap (ui_heap h ?cl) = ch_cap (ui_heap (sw_hub ?w) ?cl)"
    "?cl \<in> set (ui_clients (sw_hub ?w)) \<longrightarrow> ch_closed (ui_heap h ?cl)" "?cl \<notin> set (ui_clients (sw_hub ?w)) \<longrightarrow> h = sw_hub ?w"
    using remove_self [OF ok, of ?cl] by blast
  have "ch_closed (ui_heap h ?cl)"
    using h(7,8) w(3,5) assms(1) by (cases "?cl \<in> set (ui_clients (sw_hub ?w))") (simp_all add: Let_def session_ok_def)
  then have "session_ok (?w\<lparr>sw_hub := h, sw_session := (sw_session w)\<lparr>ss_writer := Closing\<rparr>\<rparr>)"
    using h(2-6) w sub assms(1,3) by (simp add: session_ok_def Let_def)
  then show ?thesis
    using h(1) by (simp add: removing_def)
qed

lemma session_ok_turn:
  assumes "session_ok w"
  shows "session_turn t w = Blocked \<or> (\<exists>w'. session_turn t w = Moves w' \<and> session_ok w')"
proof (cases t)
  case (Publish m only)
  from publish_keeps [OF assms, of m only] show ?thesis
    unfolding Publish by blast
next
  case (AddOther p)
  with assms ui_ok_add [of "sw_hub w" p] show ?thesis
    by (auto simp: session_ok_def Let_def uiAdd_def)
next
  case (RemoveOther cl)
  with removing_other [OF assms, of cl] show ?thesis by auto
next
  case ReaderEnds
  with removing_self [OF assms refl, of "(sw_session w)\<lparr>ss_reader := False\<rparr>"] assms show ?thesis
    by (auto simp: session_ok_def Let_def)
next
  case (WriterTakes ok)
  show ?thesis
  proof (cases "ch_buf (ui_heap (sw_hub w) (ss_cl (sw_session w)))")
    case (Cons m ms)
    with session_ok_taken [OF assms Cons] failed_write [OF assms Cons] WriterTakes show ?thesis
      by (auto simp: WriterTakes_eq Let_def simp del: session_turn.simps)
  qed (simp add: WriterTakes WriterTakes_eq Let_def del: session_turn.simps)
next
  case WriterDrained
  with removing_self [OF assms refl, of "(sw_session w)\<lparr>ss_writer := Closing\<rparr>"] assms show ?thesis
    by (auto simp: session_ok_def Let_def)
next
  case WriterCloses
  with assms show ?thesis by (auto simp: session_ok_def Let_def)
qed

lemma session_run_ok: "session_run w0 w \<Longrightarrow> session_ok w0 \<Longrightarrow> session_ok w"
proof (induction rule: session_run.induct)
  case (step w t w')
  with session_ok_turn [of w t] show ?case by auto
qed


subsection \<open>Properties\<close>

definition waiting_for :: "session_world \<Rightarrow> ui_kind list" where
  "waiting_for w = ch_buf (ui_heap (sw_hub w) (ss_cl (sw_session w)))"

text \<open>
  C23: What a browser sees.  In every history of a session, whatever is broadcast, however slowly the
  browser reads and whenever either goroutine ends: no turn panics (the two removals never
  close the channel twice); what was written followed by what waits is, in order, a part of what was
  broadcast for the session while it was connected, and all of it as long as that is at most 256 messages;
  and the session is in the hub exactly as long as both goroutines are at work.
\<close>

theorem browser_sees_in_order:
  assumes "ui_ok h" and "session_run (session_open p h) w"
  shows "(\<forall>t. session_turn t w \<noteq> Panic) \<and>
     subseq (ss_written (sw_session w) @ waiting_for w) (sw_meant w) \<and>
     (ss_writer (sw_session w) = Ranging \<and> length (sw_meant w) \<le> 256 \<longrightarrow>
        ss_written (sw_session w) @ waiting_for w = sw_meant w) \<and>
     (ss_cl (sw_session w) \<in> set (ui_clients (sw_hub w)) \<longleftrightarrow>
        ss_reader (sw_session w) \<and> ss_writer (sw_session w) = Ranging)"
proof -
  have ok: "session_ok w"
    using session_run_ok [OF assms(2)] session_ok_open [OF assms(1)] by blast
  have "session_turn t w \<noteq> Panic" for t
    using session_ok_turn [OF ok, of t] by auto
  with ok show ?thesis
    by (auto simp: session_ok_def Let_def waiting_for_def)
qed

lemma demo_session_world:
  "session_turn (Publish (KDiag zero_diag_chunk) False) (session_open True uiNewHub) =
     Moves ((session_open True uiNewHub)\<lparr>sw_hub := (sw_hub (session_open True uiNewHub))\<lparr>ui_heap :=
        (ui_heap (sw_hub (session_open True uiNewHub)))(0 := offer (KDiag zero_diag_chunk) (make_chan 256))\<rparr>,
        sw_meant := [KDiag zero_diag_chunk]\<rparr>)"
  by (simp add: session_open_def uiAdd_def uiNewHub_def Let_def uiBroadcast_def ui_wants_def try_send_def)

theorem browser_sees_in_order_witness:
  "\<exists>w. session_run (session_open True uiNewHub) w \<and> sw_meant w = [KDiag zero_diag_chunk] \<and>
     waiting_for w = [KDiag zero_diag_chunk] \<and> session_turn ReaderEnds w \<noteq> Panic"
proof -
  obtain w where w: "session_run (session_open True uiNewHub) w" "sw_meant w = [KDiag zero_diag_chunk]"
    "ss_writer (sw_session w) = Ranging" "ss_written (sw_session w) = []"
    using session_run.step [OF session_run.start demo_session_world]
    by (auto simp: session_open_def uiAdd_def Let_def)
  from browser_sees_in_order [OF ui_ok_new w(1)] w(2-4)
  have "waiting_for w = [KDiag zero_diag_chunk]" "session_turn ReaderEnds w \<noteq> Panic"
    by (simp_all del: session_turn.simps)
  with w(1,2) show ?thesis by blast
qed

text \<open>What the two goroutines still have to do once the session is out of the hub.\<close>

definition leaving :: "session_world \<Rightarrow> nat" where
  "leaving w = (if ss_reader (sw_session w) then 1 else 0) +
     (case ss_writer (sw_session w) of Ranging \<Rightarrow> length (waiting_for w) + 2 | Closing \<Rightarrow> 1 | Returned \<Rightarrow> 0)"

fun session_own :: "session_move \<Rightarrow> bool" where
  "session_own (Publish m only) = False"
| "session_own (AddOther p) = False"
| "session_own (RemoveOther cl) = False"
| "session_own t = True"

lemma removing_leaves:
  assumes "session_ok w" and "removing cl w s = Moves w'"
  shows "sw_session w' = s \<and> waiting_for w' = ch_buf (ui_heap (sw_hub w) (ss_cl s))"
proof -
  have "ui_ok (sw_hub w)" using assms(1) by (simp add: session_ok_def Let_def)
  from remove_self [OF this, of cl] assms(2) show ?thesis
    by (auto simp: removing_def waiting_for_def)
qed


definition outside :: "session_world \<Rightarrow> bool" where
  "outside w \<longleftrightarrow> session_ok w \<and> ss_cl (sw_session w) \<notin> set (ui_clients (sw_hub w))"

text \<open>A session that is out stays out, and no turn gives its goroutines more to do.\<close>

lemma leaving_turn:
  assumes "outside w" and "session_turn t w = Moves w'"
  shows "leaving w' + (if session_own t then 1 else 0) \<le> leaving w"
proof -
  have ok: "session_ok w" "ui_ok (sw_hub w)" "ss_cl (sw_session w) < ui_next (sw_hub w)"
    and out: "ss_cl (sw_session w) \<notin> set (ui_clients (sw_hub w))"
    using assms(1) unfolding outside_def session_ok_def Let_def by blast+
  have same: "leaving w' = leaving w" if "sw_session w' = sw_session w" "waiting_for w' = waiting_for w" for w'
    unfolding leaving_def that ..
  show ?thesis
  proof (cases t)
    case (Publish m only)
    with assms(2) out uiBroadcast_open [OF ok(2), of "(m, only)"]
    have "sw_session w' = sw_session w" "waiting_for w' = waiting_for w"
      by (auto simp: waiting_for_def)
    with same [of w'] Publish show ?thesis by simp
  next
    case (AddOther p)
    with assms(2) ok(3) have "sw_session w' = sw_session w" "waiting_for w' = waiting_for w"
      by (auto simp: waiting_for_def uiAdd_def Let_def)
    with same [of w'] AddOther show ?thesis by simp
  next
    case (RemoveOther cl)
    then have "removing cl w (sw_session w) = Moves w'"
      using assms(2) by (simp split: if_splits)
    from removing_leaves [OF ok(1) this] have "sw_session w' = sw_session w" "waiting_for w' = waiting_for w"
      by (simp_all add: waiting_for_def [of w])
    with same [of w'] RemoveOther show ?thesis by simp
  next
    case ReaderEnds
    then have r: "ss_reader (sw_session w)"
      "removing (ss_cl (sw_session w)) w ((sw_session w)\<lparr>ss_reader := False\<rparr>) = Moves w'"
      using assms(2) by (simp_all split: if_splits)
    have "leaving w' + 1 = leaving w"
      using removing_leaves [OF ok(1) r(2)] r(1)
      by (simp add: leaving_def waiting_for_def [of w] cong: writer_phase.case_cong)
    with ReaderEnds show ?thesis by simp
  next
    case (WriterTakes okay)
    then obtain m ms where m: "ss_writer (sw_session w) = Ranging" "waiting_for w = m # ms"
      using assms(2) by (auto simp: Let_def waiting_for_def split: if_splits list.splits)
    have "leaving w' + 1 \<le> leaving w" if "okay \<and> ss_conn (sw_session w)"
      using that m assms(2) WriterTakes
      by (auto simp: WriterTakes_eq Let_def leaving_def waiting_for_def taken_def simp del: session_turn.simps)
    moreover have "ss_writer (sw_session w') = Closing \<and> ss_reader (sw_session w') = ss_reader (sw_session w)"
      if "\<not> (okay \<and> ss_conn (sw_session w))"
      using that m assms(2) WriterTakes
      by (auto simp: WriterTakes_eq Let_def waiting_for_def removing_def simp del: session_turn.simps split: option.splits if_splits)
    ultimately show ?thesis
      using m WriterTakes by (fastforce simp: leaving_def)
  next
    case WriterDrained
    then have r: "ss_writer (sw_session w) = Ranging"
      "removing (ss_cl (sw_session w)) w ((sw_session w)\<lparr>ss_writer := Closing\<rparr>) = Moves w'"
      using assms(2) by (simp_all add: Let_def split: if_splits)
    from removing_leaves [OF ok(1) r(2)] r(1) WriterDrained show ?thesis
      by (simp add: leaving_def)
  next
    case WriterCloses
    with assms(2) show ?thesis
      by (auto simp: leaving_def split: if_splits)
  qed
qed

lemma outside_ends:
  assumes "outside w" and "leaving w \<noteq> 0"
  shows "\<exists>t w'. session_own t \<and> session_turn t w = Moves w'"
proof -
  have ok: "session_ok w" "ch_closed (ui_heap (sw_hub w) (ss_cl (sw_session w)))"
    using assms(1) unfolding outside_def session_ok_def Let_def by blast+
  have "session_turn ReaderEnds w \<noteq> Blocked" if "ss_reader (sw_session w)"
    using that by (simp add: removing_def split: option.splits)
  moreover have "session_turn (if waiting_for w = [] then WriterDrained else WriterTakes True) w \<noteq> Blocked"
    if "ss_writer (sw_session w) = Ranging"
    using that ok(2) by (auto simp: waiting_for_def removing_def Let_def split: option.splits list.splits)
  moreover have "session_turn WriterCloses w \<noteq> Blocked" if "ss_writer (sw_session w) = Closing"
    using that by simp
  ultimately have "\<exists>t. session_own t \<and> session_turn t w \<noteq> Blocked"
    using assms(2) by (cases "ss_writer (sw_session w)") (auto simp: leaving_def simp del: session_turn.simps
        split: if_splits intro: exI [of _ ReaderEnds] exI [of _ WriterCloses] exI [of _ "WriterTakes True"] exI [of _ WriterDrained])
  then show ?thesis
    using session_ok_turn [OF ok(1)] by metis
qed


text \<open>
  C28: No session leaks.  Once a session has left the hub, whichever goroutine noticed the end, every turn
  of its own goroutines brings them closer to their end, no broadcast and no other session sets
  them back, and as long as they are not both over one of them has a turn; when they are, the connection
  is closed.  The writer first drains what still waits in the channel, at most 256 messages.
\<close>

theorem session_goroutines_end:
  assumes "ui_ok h" and "session_run (session_open p h) w"
    and "\<not> ss_reader (sw_session w) \<or> ss_writer (sw_session w) \<noteq> Ranging"
  shows "(\<forall>t w'. session_turn t w = Moves w' \<longrightarrow> leaving w' + (if session_own t then 1 else 0) \<le> leaving w) \<and>
     (leaving w \<noteq> 0 \<longrightarrow> (\<exists>t w'. session_own t \<and> session_turn t w = Moves w')) \<and>
     (leaving w = 0 \<longrightarrow> \<not> ss_reader (sw_session w) \<and> ss_writer (sw_session w) = Returned \<and> \<not> ss_conn (sw_session w)) \<and>
     leaving w \<le> 259"
proof -
  have ok: "session_ok w"
    using session_run_ok [OF assms(2)] session_ok_open [OF assms(1)] by blast
  then have out: "outside w"
    using assms(3) unfolding outside_def session_ok_def Let_def by blast
  have "length (waiting_for w) \<le> 256" "ss_conn (sw_session w) \<longleftrightarrow> ss_writer (sw_session w) \<noteq> Returned"
    using ok unfolding session_ok_def Let_def waiting_for_def by blast+
  then show ?thesis
    using leaving_turn [OF out] outside_ends [OF out]
    by (auto simp: leaving_def simp del: session_turn.simps split: writer_phase.splits)
qed


theorem session_goroutines_end_witness:
  "\<exists>w t w'. session_run (session_open True uiNewHub) w \<and> leaving w = 2 \<and> session_own t \<and>
     session_turn t w = Moves w' \<and> leaving w' < leaving w"
proof -
  let ?w0 = "session_open True uiNewHub"
  obtain w where w: "session_turn ReaderEnds ?w0 = Moves w" "\<not> ss_reader (sw_session w)"
    "ss_writer (sw_session w) = Ranging" "waiting_for w = []"
    by (auto simp: session_open_def uiAdd_def uiNewHub_def removing_def uiRemove_def close_chan_def waiting_for_def Let_def)
  have run: "session_run ?w0 w"
    by (rule session_run.step [OF session_run.start w(1)])
  have two: "leaving w = 2"
    using w(2-4) by (simp add: leaving_def)
  have "\<not> ss_reader (sw_session w) \<or> ss_writer (sw_session w) \<noteq> Ranging" using w(2) by simp
  note ends = session_goroutines_end [OF ui_ok_new run this]
  obtain t w' where t: "session_own t" "session_turn t w = Moves w'"
    using ends two by (auto simp del: session_turn.simps)
  have "leaving w' + (if session_own t then 1 else 0) \<le> leaving w"
    using ends t(2) by blast
  with run two t show ?thesis
    by (intro exI [of _ w] exI [of _ t] exI [of _ w']) (simp del: session_turn.simps)
qed

end
